(* ===== verification/AC_Prelude.thy ===== *)
theory AC_Prelude
  imports Main "HOL-Library.AList"
begin

section \<open>Shared vocabulary of the access-controller development\<close>

text \<open>
  The error values that the Go code passes around, the result type they live in, and the
  generic facts about association lists (the model of Go maps) and nondeterministic outcome
  lists that the components share.

  A Go function that returns \<open>(T, error)\<close> is modelled by \<open>error + T\<close>, with \<open>Inl\<close> for a
  non-nil error. A panic is the error value \<open>Panic\<close>: no handler of the code recovers from one,
  so no definition of the development inspects it. A message of an error is kept as the format
  string's identity with the names it is about (type \<open>message\<close>), not as formatted text, because no
  code path reads a formatted message back; the snapshot timestamps some messages print are left
  out.
\<close>

subsection \<open>Collections\<close>

named_theorems go_map \<open>lookup laws of Go maps kept as association lists\<close>
named_theorems outcome_simps \<open>membership in lists of possible outcomes\<close>

subsection \<open>Error values\<close>

datatype grpc_code = Canceled | Unknown | InvalidArgument | DeadlineExceeded | NotFound
  | Unimplemented | Internal | Unavailable

datatype NamespaceConfigErrorType = NamespaceAlreadyExists | NamespaceDoesntExist
  | NamespaceRelationUndefined | NamespaceUpdateFailedPrecondition

datatype message =
    MsgInternal
  | MsgRequired string
  | MsgMutationRequired nat string
  | MsgNoMutations
  | MsgNamespaceUndefined string
  | MsgNamespaceNotFound string
  | MsgRelationUndefined string string
  | MsgSubjectSetNamespaceUndefined string string
  | MsgSubjectSetRelationUndefined string string string
  | MsgRelationsReferenced "string list"
  | MsgUnexpectedRewriteOperation
  | MsgUnexpectedRewriteChild
  | MsgRelationReferencedUndefined string
  | MsgUnimplemented
  | MsgText string

datatype error =
    Status grpc_code message
  | NamespaceConfigError message NamespaceConfigErrorType
  | ErrInvalidSubjectSetString
  | ErrClientNotFound
  | ErrNamespaceDoesntExist
  | ErrNoLocalNamespacesDefined
  | ErrPlain message
  | ErrContext grpc_code
  | ErrLibrary string
  | ErrWithMessage string error
  | Panic string

type_synonym 'a result = "error + 'a"

definition internalErrorStatus :: error where
  "internalErrorStatus = Status Internal MsgInternal"

fun status_Code :: "error \<Rightarrow> grpc_code" where
  "status_Code (Status c m) = c"
| "status_Code e = Unknown"

subsection \<open>Go maps as association lists\<close>

text \<open>
  A Go map is an association list with distinct keys, so that a \<open>for k, v := range m\<close> loop has
  an order to follow. Go leaves that order open; statements about a loop therefore quantify over
  every list with the right lookups instead of fixing one.
\<close>

type_synonym ('k, 'v) gomap = "('k \<times> 'v) list"

abbreviation keys :: "('k, 'v) gomap \<Rightarrow> 'k list" where
  "keys m \<equiv> map fst m"

lemmas gomap_simps [go_map] = update_conv' delete_conv'

lemma map_of_SomeI_distinct:
  "distinct (keys m) \<Longrightarrow> (k, v) \<in> set m \<Longrightarrow> map_of m k = Some v"
  by simp

lemma keys_iff_map_of: "k \<in> set (keys m) \<longleftrightarrow> map_of m k \<noteq> None"
  by (simp add: map_of_eq_None_iff)

lemma filter_keys_map_of:
  "map_of (filter (\<lambda>kv. P (fst kv)) m) k = (if P k then map_of m k else None)"
  by (induction m) auto

lemma map_of_map_values: "map_of (map (\<lambda>(k, v). (k, f k v)) m) k = map_option (f k) (map_of m k)"
  by (induction m) auto

lemma map_of_rev_distinct: "distinct (keys m) \<Longrightarrow> map_of (rev m) k = map_of m k"
proof -
  assume "distinct (keys m)"
  moreover from this have "distinct (keys (rev m))" by (simp add: rev_map [symmetric])
  ultimately have "map_of (rev m) k = Some v \<longleftrightarrow> map_of m k = Some v" for v
    by (simp add: map_of_eq_Some_iff)
  then show ?thesis by (metis not_None_eq)
qed

subsection \<open>Lists\<close>

lemma fold_insert_set: "fold (\<lambda>x s. insert (f x) s) xs S = f ` set xs \<union> S"
  by (induction xs arbitrary: S) auto

lemma list_all_conv_Ball: "list_all P xs \<longleftrightarrow> (\<forall>x \<in> set xs. P x)"
  by (simp add: list_all_iff)

lemma length_filter_eq_distinct: "distinct xs \<Longrightarrow> length (filter (\<lambda>x. x = a) xs) = (if a \<in> set xs then 1 else 0)"
  by (induction xs) auto

lemma set_map_constant: "xs \<noteq> [] \<Longrightarrow> \<forall>x \<in> set xs. f x = c \<Longrightarrow> set (map f xs) = {c}"
  by (cases xs) auto

subsection \<open>Results\<close>

definition is_ok :: "'a result \<Rightarrow> bool" where
  "is_ok r \<longleftrightarrow> (case r of Inl _ \<Rightarrow> False | Inr _ \<Rightarrow> True)"

lemma is_ok_simps [simp]: "\<not> is_ok (Inl e)" "is_ok (Inr x)"
  by (simp_all add: is_ok_def)

lemma is_okE: "is_ok r \<Longrightarrow> (\<And>x. r = Inr x \<Longrightarrow> P) \<Longrightarrow> P"
  by (cases r) auto

subsection \<open>Possible results\<close>

text \<open>
  Continuing with every possible result of a fallible call: \<open>onResult rs f g\<close> goes on with \<open>f\<close> after
  an error and with \<open>g\<close> after a value.
\<close>

definition onResult :: "'a result list \<Rightarrow> (error \<Rightarrow> 'b list) \<Rightarrow> ('a \<Rightarrow> 'b list) \<Rightarrow> 'b list" where
  "onResult rs f g = concat (map (\<lambda>r. case r of Inl err \<Rightarrow> f err | Inr x \<Rightarrow> g x) rs)"

lemma onResult_Nil [simp]: "onResult [] f g = []"
  by (simp add: onResult_def)

lemma onResult_Cons [simp]:
  "onResult (Inl err # rs) f g = f err @ onResult rs f g"
  "onResult (Inr x # rs) f g = g x @ onResult rs f g"
  by (simp_all add: onResult_def)

lemma set_onResult [outcome_simps]:
  "y \<in> set (onResult rs f g) \<longleftrightarrow>
     (\<exists>err. Inl err \<in> set rs \<and> y \<in> set (f err)) \<or> (\<exists>x. Inr x \<in> set rs \<and> y \<in> set (g x))"
proof (induction rs)
  case (Cons r rs)
  then show ?case by (cases r) (simp_all add: ex_disj_distrib disj_ac conj_disj_distribR)
qed simp

lemma onResult_not_Nil:
  assumes "rs \<noteq> []" "\<And>err. Inl err \<in> set rs \<Longrightarrow> f err \<noteq> []" "\<And>x. Inr x \<in> set rs \<Longrightarrow> g x \<noteq> []"
  shows "onResult rs f g \<noteq> []"
  using assms by (cases rs) (auto simp: onResult_def split: sum.splits)

lemma onResult_cong [fundef_cong]:
  "rs = rs' \<Longrightarrow> (\<And>err. Inl err \<in> set rs' \<Longrightarrow> f err = f' err) \<Longrightarrow> (\<And>x. Inr x \<in> set rs' \<Longrightarrow> g x = g' x) \<Longrightarrow>
     onResult rs f g = onResult rs' f' g'"
  unfolding onResult_def by (auto intro!: arg_cong [where f = concat] split: sum.splits)

end
