(* ===== verification/Go_Lib.thy ===== *)
theory Go_Lib
  imports AC_Prelude "HOL-Library.Word" "HOL-Library.List_Lexorder" "HOL-Library.Char_ord"
begin

unbundle bit_operations_syntax

section \<open>The parts of the Go standard library that the code uses\<close>

text \<open>
  \<^item> \<open>strings.Split\<close>, \<open>strings.Contains\<close> and \<open>strings.Join\<close> for one-character separators;
  \<^item> \<open>time.Time\<close> with its wall clock, its optional monotonic reading and its location: Go
    compares map keys of this type field by field, while \<open>Equal\<close> and \<open>After\<close> compare instants;
  \<^item> \<open>context.Context\<close>: its values and whether it ends while a call runs;
  \<^item> \<open>sort.Strings\<close>: \<open>sort\<close> on the lexicographic byte order of \<open>HOL-Library.List_Lexorder\<close>;
  \<^item> \<open>crc32.ChecksumIEEE\<close>: the reflected CRC-32 with polynomial 0xEDB88320 on 32-bit words.
\<close>

subsection \<open>Strings\<close>

fun strings_Split :: "char \<Rightarrow> string \<Rightarrow> string list" where
  "strings_Split c [] = [[]]"
| "strings_Split c (x # xs) =
     (if x = c then [] # strings_Split c xs
      else (case strings_Split c xs of [] \<Rightarrow> [[x]] | p # ps \<Rightarrow> (x # p) # ps))"

definition strings_Contains :: "string \<Rightarrow> char \<Rightarrow> bool" where
  "strings_Contains s c \<longleftrightarrow> c \<in> set s"

fun strings_Join :: "char \<Rightarrow> string list \<Rightarrow> string" where
  "strings_Join c [] = []"
| "strings_Join c [p] = p"
| "strings_Join c (p # q # ps) = p @ c # strings_Join c (q # ps)"

definition sort_Strings :: "string list \<Rightarrow> string list" where
  "sort_Strings xs = sort xs"

lemma strings_Split_not_Nil [simp]: "strings_Split c s \<noteq> []"
  by (induction s) (auto split: list.splits)

lemma length_strings_Split: "length (strings_Split c s) = Suc (count_list s c)"
proof (induction s)
  case (Cons x xs)
  then show ?case by (cases "strings_Split c xs") auto
qed simp

lemma strings_Split_absent: "c \<notin> set s \<Longrightarrow> strings_Split c s = [s]"
  by (induction s) auto

lemma strings_Split_append:
  "c \<notin> set p \<Longrightarrow> strings_Split c (p @ c # s) = p # strings_Split c s"
  by (induction p) auto

lemma strings_Split_parts: "p \<in> set (strings_Split c s) \<Longrightarrow> c \<notin> set p"
proof (induction s arbitrary: p)
  case (Cons x xs)
  then show ?case by (cases "strings_Split c xs") (auto split: if_splits)
qed simp

lemma strings_Join_Cons: "ps \<noteq> [] \<Longrightarrow> strings_Join c (p # ps) = p @ c # strings_Join c ps"
  by (cases ps) auto

lemma strings_Join_head: "strings_Join c ((x # p) # ps) = x # strings_Join c (p # ps)"
  by (cases ps) auto

lemma strings_Join_Split: "strings_Join c (strings_Split c s) = s"
proof (induction s)
  case (Cons x xs)
  show ?case
  proof (cases "x = c")
    case True
    with Cons show ?thesis by (simp add: strings_Join_Cons)
  next
    case False
    obtain p ps where "strings_Split c xs = p # ps"
      by (cases "strings_Split c xs") auto
    with Cons False show ?thesis by (simp add: strings_Join_head)
  qed
qed simp

lemma strings_Split_Join:
  "ps \<noteq> [] \<Longrightarrow> \<forall>p \<in> set ps. c \<notin> set p \<Longrightarrow> strings_Split c (strings_Join c ps) = ps"
proof (induction c ps rule: strings_Join.induct)
  case (3 c p q ps)
  then show ?case by (simp add: strings_Split_append)
qed (auto simp: strings_Split_absent)

lemma strings_Split_two:
  "strings_Split c s = [a, b] \<longleftrightarrow> s = a @ c # b \<and> c \<notin> set a \<and> c \<notin> set b"
proof
  assume split: "strings_Split c s = [a, b]"
  have "s = strings_Join c [a, b]"
    using strings_Join_Split [of c s] by (simp add: split)
  moreover have "c \<notin> set a" "c \<notin> set b"
    using strings_Split_parts [of _ c s] by (auto simp: split)
  ultimately show "s = a @ c # b \<and> c \<notin> set a \<and> c \<notin> set b" by simp
qed (auto simp: strings_Split_append strings_Split_absent)

subsection \<open>Time\<close>

datatype location = UTC | Local | Zone string

record time =
  wall :: int
  mono :: "int option"
  loc :: location

definition zero_time :: time where
  "zero_time = \<lparr>wall = 0, mono = None, loc = UTC\<rparr>"

definition time_Equal :: "time \<Rightarrow> time \<Rightarrow> bool" where
  "time_Equal t u =
     (case (mono t, mono u) of (Some a, Some b) \<Rightarrow> a = b | _ \<Rightarrow> wall t = wall u)"

definition time_After :: "time \<Rightarrow> time \<Rightarrow> bool" where
  "time_After t u =
     (case (mono t, mono u) of (Some a, Some b) \<Rightarrow> a > b | _ \<Rightarrow> wall t > wall u)"

definition time_Round0 :: "time \<Rightarrow> time" where
  "time_Round0 t = t\<lparr>mono := None\<rparr>"

definition time_UTC :: "time \<Rightarrow> time" where
  "time_UTC t = t\<lparr>mono := None, loc := UTC\<rparr>"

text \<open>A time value in the form the peer store keeps: no monotonic reading, location UTC.\<close>

definition utc_time :: "time \<Rightarrow> bool" where
  "utc_time t \<longleftrightarrow> mono t = None \<and> loc t = UTC"

lemma utc_time_eq_iff: "utc_time t \<Longrightarrow> utc_time u \<Longrightarrow> t = u \<longleftrightarrow> wall t = wall u"
  by (cases t; cases u) (simp add: utc_time_def)

lemma utc_time_Equal [simp]: "utc_time t \<Longrightarrow> utc_time u \<Longrightarrow> time_Equal t u \<longleftrightarrow> t = u"
  by (simp add: utc_time_eq_iff) (simp add: utc_time_def time_Equal_def)

lemma utc_time_After [simp]: "utc_time t \<Longrightarrow> time_After t u \<longleftrightarrow> wall t > wall u"
  by (simp add: utc_time_def time_After_def)

lemma utc_time_normalised [simp]: "utc_time (time_UTC (time_Round0 t))"
  by (simp add: utc_time_def time_UTC_def time_Round0_def)

lemma normalise_utc_time: "utc_time t \<Longrightarrow> time_UTC (time_Round0 t) = t"
  by (cases t) (simp add: utc_time_def time_UTC_def time_Round0_def)

lemma wall_normalised [simp]: "wall (time_UTC (time_Round0 t)) = wall t"
  by (simp add: time_UTC_def time_Round0_def)

lemma utc_zero_time [simp]: "utc_time zero_time" "wall zero_time = 0"
  by (simp_all add: utc_time_def zero_time_def)

subsection \<open>Contexts\<close>

text \<open>
  A \<open>context.Context\<close> is its chain of \<open>WithValue\<close> bindings, innermost first, and the error it ends
  with when it is cancelled or times out while the call that received it runs (\<open>None\<close>: it does
  not). The keys are those of the packages that store values in a context.
\<close>

datatype ctx_key = hashringChecksumKey | nsConfigSnapshotTimestampKey string

datatype ctx_value = CtxUint32 "32 word" | CtxTime time

record go_context =
  ctx_values :: "(ctx_key \<times> ctx_value) list"
  ctx_done :: "grpc_code option"

definition context_Background :: go_context where
  "context_Background = \<lparr>ctx_values = [], ctx_done = None\<rparr>"

definition context_WithValue :: "go_context \<Rightarrow> ctx_key \<Rightarrow> ctx_value \<Rightarrow> go_context" where
  "context_WithValue c k v = c\<lparr>ctx_values := (k, v) # ctx_values c\<rparr>"

definition context_Value :: "go_context \<Rightarrow> ctx_key \<Rightarrow> ctx_value option" where
  "context_Value c k = map_of (ctx_values c) k"

lemma context_Value_WithValue [simp]:
  "context_Value (context_WithValue c k v) k' = (if k' = k then Some v else context_Value c k')"
  by (simp add: context_Value_def context_WithValue_def)

lemma ctx_done_WithValue [simp]: "ctx_done (context_WithValue c k v) = ctx_done c"
  by (simp add: context_WithValue_def)

subsection \<open>CRC-32\<close>

definition crc32_bit :: "32 word \<Rightarrow> 32 word" where
  "crc32_bit c = (if bit c 0 then 0xEDB88320 XOR drop_bit 1 c else drop_bit 1 c)"

definition crc32_byte :: "32 word \<Rightarrow> char \<Rightarrow> 32 word" where
  "crc32_byte c x = (crc32_bit ^^ 8) (c XOR of_nat (of_char x))"

definition crc32_ChecksumIEEE :: "string \<Rightarrow> 32 word" where
  "crc32_ChecksumIEEE s = NOT (foldl crc32_byte (NOT 0) s)"

end
