(* ===== verification/Health_Checker.thy ===== *)
theory Health_Checker
  imports Go_Lib
begin

section \<open>Health checking (\<open>internal/healthchecker/healthchecker.go\<close>)\<close>

text \<open>
  The gRPC health service delegates \<open>Check\<close> to the handler it was built with and refuses \<open>Watch\<close>.
\<close>

datatype ServingStatus = UNKNOWN | SERVING | NOT_SERVING | SERVICE_UNKNOWN

type_synonym healthCheckHandler = "go_context \<Rightarrow> string \<Rightarrow> ServingStatus result"

record HealthChecker =
  hc_handler :: healthCheckHandler

definition NewHealthChecker :: "healthCheckHandler \<Rightarrow> HealthChecker" where
  "NewHealthChecker handler = \<lparr>hc_handler = handler\<rparr>"

definition HealthChecker_Check :: "HealthChecker \<Rightarrow> go_context \<Rightarrow> string \<Rightarrow> ServingStatus result" where
  "HealthChecker_Check s ctx req = hc_handler s ctx req"

definition HealthChecker_Watch :: "HealthChecker \<Rightarrow> string \<Rightarrow> unit result" where
  "HealthChecker_Watch s req = Inl (Status Unimplemented MsgUnimplemented)"

text \<open>The access controller's handler (\<open>AccessController.HealthCheck\<close>), the one \<open>main\<close> registers.\<close>

definition HealthCheck :: healthCheckHandler where
  "HealthCheck ctx req = Inr SERVING"

lemma health_service_serving:
  "HealthChecker_Check (NewHealthChecker HealthCheck) ctx req = Inr SERVING"
  by (simp add: HealthChecker_Check_def NewHealthChecker_def HealthCheck_def)

end
