(* ===== verification/Client_Router.thy ===== *)
theory Client_Router
  imports AC_Prelude
begin

section \<open>The RPC client router (\<open>internal/client-router.go\<close>)\<close>

text \<open>
  \<open>mapClientRouter\<close> keeps one RPC client per peer in a map under a read-write mutex; each method
  holds the lock for its whole body, so each is one atomic step. A client is an \<open>interface{}\<close>
  value: the code stores \<open>CheckServiceClient\<close>s, and asserts that type when it uses one.
\<close>

subsection \<open>Definitions\<close>

datatype rpc_client = CheckServiceClient string | OtherClient

record mapClientRouter =
  cache :: "(string, rpc_client) gomap"

definition NewMapClientRouter :: mapClientRouter where
  "NewMapClientRouter = \<lparr>cache = []\<rparr>"

definition AddClient :: "string \<Rightarrow> rpc_client \<Rightarrow> mapClientRouter \<Rightarrow> mapClientRouter" where
  "AddClient nodeID client r = r\<lparr>cache := AList.update nodeID client (cache r)\<rparr>"

definition GetClient :: "mapClientRouter \<Rightarrow> string \<Rightarrow> rpc_client result" where
  "GetClient r nodeID =
     (case map_of (cache r) nodeID of None \<Rightarrow> Inl ErrClientNotFound | Some client \<Rightarrow> Inr client)"

definition RemoveClient :: "string \<Rightarrow> mapClientRouter \<Rightarrow> mapClientRouter" where
  "RemoveClient nodeID r = r\<lparr>cache := AList.delete nodeID (cache r)\<rparr>"

subsection \<open>The \<open>ClientRouter\<close> interface\<close>

text \<open>
  What the access controller relies on: a client is found under a node's id exactly from the
  moment it was added until it is removed, whatever happens to other ids in between.
\<close>

datatype 'c router_event = Added string 'c | Removed string

locale client_router =
  fixes new :: 'r
    and add :: "string \<Rightarrow> 'c \<Rightarrow> 'r \<Rightarrow> 'r"
    and get :: "'r \<Rightarrow> string \<Rightarrow> 'c result"
    and remove :: "string \<Rightarrow> 'r \<Rightarrow> 'r"
  assumes get_new: "get new i = Inl ErrClientNotFound"
    and get_add: "get (add i c r) j = (if j = i then Inr c else get r j)"
    and get_remove: "get (remove i r) j = (if j = i then Inl ErrClientNotFound else get r j)"
begin

primrec run_events :: "'c router_event list \<Rightarrow> 'r \<Rightarrow> 'r" where
  "run_events [] r = r"
| "run_events (e # es) r =
     run_events es (case e of Added i c \<Rightarrow> add i c r | Removed i \<Rightarrow> remove i r)"

lemma get_run_unaffected:
  "(\<And>e. e \<in> set es \<Longrightarrow> (case e of Added i c \<Rightarrow> i \<noteq> j | Removed i \<Rightarrow> i \<noteq> j)) \<Longrightarrow>
     get (run_events es r) j = get r j"
  by (induction es arbitrary: r) (force simp: get_add get_remove split: router_event.splits)+

lemma run_events_append: "run_events (es @ fs) r = run_events fs (run_events es r)"
  by (induction es arbitrary: r) auto

lemma get_after_add:
  "(\<And>e. e \<in> set fs \<Longrightarrow> (case e of Added i c \<Rightarrow> i \<noteq> j | Removed i \<Rightarrow> i \<noteq> j)) \<Longrightarrow>
     get (run_events (es @ Added j c # fs) r) j = Inr c"
  by (simp add: run_events_append get_run_unaffected get_add)

lemma get_after_remove:
  "(\<And>e. e \<in> set fs \<Longrightarrow> (case e of Added i c \<Rightarrow> i \<noteq> j | Removed i \<Rightarrow> i \<noteq> j)) \<Longrightarrow>
     get (run_events (es @ Removed j # fs) r) j = Inl ErrClientNotFound"
  by (simp add: run_events_append get_run_unaffected get_remove)

end

interpretation map_router: client_router NewMapClientRouter AddClient GetClient RemoveClient
  by unfold_locales
    (auto simp: NewMapClientRouter_def AddClient_def GetClient_def RemoveClient_def go_map)

definition wf_router :: "mapClientRouter \<Rightarrow> bool" where
  "wf_router r \<longleftrightarrow> distinct (keys (cache r))"

lemma wf_router_ops [simp]:
  "wf_router NewMapClientRouter"
  "wf_router r \<Longrightarrow> wf_router (AddClient i c r)"
  "wf_router r \<Longrightarrow> wf_router (RemoveClient i r)"
  by (simp_all add: wf_router_def NewMapClientRouter_def AddClient_def RemoveClient_def
      distinct_update distinct_delete)

subsection \<open>Properties\<close>

text \<open>The router keeps the last client added for a peer: after any history of joins and leaves
  in which the peer's client was added and afterwards neither replaced nor removed, \<open>GetClient\<close>
  returns that client, and after a removal it reports that there is none.\<close>

theorem router_keeps_clients:
  assumes "\<forall>e \<in> set es. (case e of Added i c \<Rightarrow> i \<noteq> j | Removed i \<Rightarrow> i \<noteq> j)"
  shows "GetClient (map_router.run_events es (AddClient j client r)) j = Inr client
    \<and> GetClient (map_router.run_events es (RemoveClient j r)) j = Inl ErrClientNotFound"
  using map_router.get_run_unaffected [of es j] assms
  by (simp add: map_router.get_add map_router.get_remove)

theorem router_keeps_clients_witness:
  "GetClient (map_router.run_events [Added ''n1'' OtherClient, Removed ''n3'']
     (AddClient ''n2'' (CheckServiceClient ''host2'') NewMapClientRouter)) ''n2'' = Inr (CheckServiceClient ''host2'')"
  using router_keeps_clients [of "[Added ''n1'' OtherClient, Removed ''n3'']" "''n2''"] by simp

end
