(* ===== verification/Hash_Ring.thy ===== *)
theory Hash_Ring
  imports Go_Lib
begin

section \<open>The consistent hash ring (\<open>internal/hashring/hashring.go\<close>)\<close>

text \<open>
  The ring itself is the third-party package \<open>buraksezer/consistent\<close>: a parameter, the record
  \<open>consistent_lib\<close> of the operations the code calls, over an unspecified ring type \<open>'r\<close>. Members
  are given by their \<open>String()\<close>, the only thing the code reads of them. What the package documents
  of these operations is the predicate \<open>consistent_laws\<close>, a named hypothesis where it is needed.
  The checksum is computed here, from the member names, with the CRC-32 of \<open>Go_Lib\<close>.
\<close>

subsection \<open>Definitions\<close>

text \<open>The \<open>consistent.Config\<close> the code passes, with the load factor in hundredths.\<close>

record consistent_Config =
  PartitionCount :: int
  ReplicationFactor :: int
  Load_percent :: int

record 'r consistent_lib =
  lib_New :: "consistent_Config \<Rightarrow> 'r"
  lib_Add :: "string \<Rightarrow> 'r \<Rightarrow> 'r"
  lib_Remove :: "string \<Rightarrow> 'r \<Rightarrow> 'r"
  lib_LocateKey :: "'r \<Rightarrow> string \<Rightarrow> string option"
  lib_GetMembers :: "'r \<Rightarrow> string list"

record 'r ConsistentHashring =
  ring :: 'r

definition NewContextWithChecksum :: "go_context \<Rightarrow> 32 word \<Rightarrow> go_context" where
  "NewContextWithChecksum ctx c = context_WithValue ctx hashringChecksumKey (CtxUint32 c)"

definition ChecksumFromContext :: "go_context \<Rightarrow> 32 word option" where
  "ChecksumFromContext ctx =
     (case context_Value ctx hashringChecksumKey of Some (CtxUint32 c) \<Rightarrow> Some c | _ \<Rightarrow> None)"

definition default_consistent_Config :: consistent_Config where
  "default_consistent_Config = \<lparr>PartitionCount = 31, ReplicationFactor = 3, Load_percent = 125\<rparr>"

definition NewConsistentHashring ::
  "'r consistent_lib \<Rightarrow> consistent_Config option \<Rightarrow> 'r ConsistentHashring" where
  "NewConsistentHashring L cfg =
     \<lparr>ring = lib_New L (case cfg of None \<Rightarrow> default_consistent_Config | Some c \<Rightarrow> c)\<rparr>"

definition ring_Add ::
  "'r consistent_lib \<Rightarrow> string \<Rightarrow> 'r ConsistentHashring \<Rightarrow> 'r ConsistentHashring" where
  "ring_Add L m ch = ch\<lparr>ring := lib_Add L m (ring ch)\<rparr>"

definition ring_Remove ::
  "'r consistent_lib \<Rightarrow> string \<Rightarrow> 'r ConsistentHashring \<Rightarrow> 'r ConsistentHashring" where
  "ring_Remove L m ch = ch\<lparr>ring := lib_Remove L m (ring ch)\<rparr>"

definition ring_LocateKey :: "'r consistent_lib \<Rightarrow> 'r ConsistentHashring \<Rightarrow> string \<Rightarrow> string option" where
  "ring_LocateKey L ch key = lib_LocateKey L (ring ch) key"

text \<open>
  The code collects the names in a map (which drops duplicates), lists the map's keys, sorts them
  and joins them with commas.
\<close>

definition ring_Checksum :: "'r consistent_lib \<Rightarrow> 'r ConsistentHashring \<Rightarrow> 32 word" where
  "ring_Checksum L ch =
     (let members = remdups (lib_GetMembers L (ring ch))
      in crc32_ChecksumIEEE (strings_Join (CHR '','') (sort_Strings members)))"

subsection \<open>The \<open>Hashring\<close> interface\<close>

abbreviation ring_members :: "'r consistent_lib \<Rightarrow> 'r ConsistentHashring \<Rightarrow> string set" where
  "ring_members L ch \<equiv> set (lib_GetMembers L (ring ch))"

lemma sort_remdups_cong: "set xs = set ys \<Longrightarrow> sort (remdups xs) = sort (remdups ys)"
  by (metis sorted_list_of_set_sort_remdups)

lemma ring_Checksum_members:
  "ring_members L a = ring_members L b \<Longrightarrow> ring_Checksum L a = ring_Checksum L b"
proof -
  assume "ring_members L a = ring_members L b"
  then have "sort (remdups (lib_GetMembers L (ring a))) = sort (remdups (lib_GetMembers L (ring b)))"
    by (rule sort_remdups_cong)
  then show ?thesis by (simp only: ring_Checksum_def Let_def sort_Strings_def)
qed

text \<open>
  Two nodes compare checksums to decide whether their rings agree. What the comparison gives is
  one direction: equal member sets have equal checksums, so different checksums mean different
  member sets, and a mismatch is never spurious.
\<close>

locale hash_ring =
  fixes members :: "'h \<Rightarrow> string set"
    and checksum :: "'h \<Rightarrow> 32 word"
  assumes checksum_members: "members a = members b \<Longrightarrow> checksum a = checksum b"
begin

lemma mismatch_is_real: "checksum a \<noteq> checksum b \<Longrightarrow> \<exists>m. (m \<in> members a) \<noteq> (m \<in> members b)"
  using checksum_members by blast

end

interpretation consistent_ring: hash_ring "ring_members L" "ring_Checksum L"
  by unfold_locales (rule ring_Checksum_members)

subsection \<open>What the ring package documents\<close>

text \<open>
  \<open>New\<close> without members is empty, \<open>Add\<close> and \<open>Remove\<close> add and remove one member, and \<open>LocateKey\<close>
  finds a member for every key as soon as there is one.
\<close>

definition consistent_laws :: "'r consistent_lib \<Rightarrow> bool" where
  "consistent_laws L \<longleftrightarrow>
     (\<forall>c. set (lib_GetMembers L (lib_New L c)) = {})
   \<and> (\<forall>m r. set (lib_GetMembers L (lib_Add L m r)) = insert m (set (lib_GetMembers L r)))
   \<and> (\<forall>m r. set (lib_GetMembers L (lib_Remove L m r)) = set (lib_GetMembers L r) - {m})
   \<and> (\<forall>r k m. lib_LocateKey L r k = Some m \<longrightarrow> m \<in> set (lib_GetMembers L r))
   \<and> (\<forall>r k. set (lib_GetMembers L r) \<noteq> {} \<longrightarrow> lib_LocateKey L r k \<noteq> None)"

lemma ring_members_ops:
  assumes "consistent_laws L"
  shows "ring_members L (NewConsistentHashring L c) = {}"
    "ring_members L (ring_Add L m ch) = insert m (ring_members L ch)"
    "ring_members L (ring_Remove L m ch) = ring_members L ch - {m}"
  using assms
  by (simp_all add: consistent_laws_def NewConsistentHashring_def ring_Add_def ring_Remove_def)

lemma ring_LocateKey_member:
  "consistent_laws L \<Longrightarrow> ring_LocateKey L ch k = Some m \<Longrightarrow> m \<in> ring_members L ch"
  by (auto simp: consistent_laws_def ring_LocateKey_def)

lemma ring_LocateKey_total:
  "consistent_laws L \<Longrightarrow> ring_members L ch \<noteq> {} \<Longrightarrow> \<exists>m. ring_LocateKey L ch k = Some m"
  unfolding consistent_laws_def ring_LocateKey_def by blast

text \<open>A ring that satisfies the laws: a member list whose head owns every key.\<close>

definition list_ring :: "string list consistent_lib" where
  "list_ring = \<lparr>lib_New = (\<lambda>_. []), lib_Add = List.insert, lib_Remove = removeAll,
     lib_LocateKey = (\<lambda>r k. case r of [] \<Rightarrow> None | m # _ \<Rightarrow> Some m), lib_GetMembers = id\<rparr>"

lemma list_ring_laws: "consistent_laws list_ring"
  by (auto simp: consistent_laws_def list_ring_def split: list.splits)

subsection \<open>Checksums in contexts\<close>

lemma ChecksumFromContext_New [simp]:
  "ChecksumFromContext (NewContextWithChecksum ctx c) = Some c"
  by (simp add: ChecksumFromContext_def NewContextWithChecksum_def)

lemma ctx_done_NewContextWithChecksum [simp]:
  "ctx_done (NewContextWithChecksum ctx c) = ctx_done ctx"
  by (simp add: NewContextWithChecksum_def)

subsection \<open>Histories of joins and leaves\<close>

definition run_ring ::
  "'r consistent_lib \<Rightarrow> (string + string) list \<Rightarrow> 'r ConsistentHashring \<Rightarrow> 'r ConsistentHashring" where
  "run_ring L = fold (\<lambda>e ch. case e of Inl m \<Rightarrow> ring_Add L m ch | Inr m \<Rightarrow> ring_Remove L m ch)"

lemma ring_members_fold:
  "consistent_laws L \<Longrightarrow> ring_members L (run_ring L es ch) =
     fold (\<lambda>e S. case e of Inl m \<Rightarrow> insert m S | Inr m \<Rightarrow> S - {m}) es (ring_members L ch)"
  unfolding run_ring_def
  by (induction es arbitrary: ch) (simp_all add: ring_members_ops split: sum.splits)

lemma ring_members_run:
  "consistent_laws L \<Longrightarrow> ring_members L (run_ring L es (NewConsistentHashring L c)) =
     fold (\<lambda>e S. case e of Inl m \<Rightarrow> insert m S | Inr m \<Rightarrow> S - {m}) es {}"
  by (simp add: ring_members_fold ring_members_ops)

subsection \<open>Properties\<close>

text \<open>Two nodes whose rings went through different histories of joins and leaves, in different
  orders and with repetitions, have the same checksum as soon as the same set of members is left:
  the checksum that \<open>check\<close> compares depends on membership alone.\<close>

theorem checksum_history_independent:
  assumes laws: "consistent_laws L"
    and same: "fold (\<lambda>e S. case e of Inl m \<Rightarrow> insert m S | Inr m \<Rightarrow> S - {m}) es {} =
               fold (\<lambda>e S. case e of Inl m \<Rightarrow> insert m S | Inr m \<Rightarrow> S - {m}) fs {}"
  shows "ring_Checksum L (run_ring L es (NewConsistentHashring L c)) =
         ring_Checksum L (run_ring L fs (NewConsistentHashring L d))"
  by (rule ring_Checksum_members) (simp add: ring_members_run laws same)

theorem checksum_history_independent_witness:
  "ring_Checksum list_ring (run_ring list_ring [Inl ''n1'', Inl ''n2'', Inr ''n1'', Inl ''n1'']
       (NewConsistentHashring list_ring None)) =
   ring_Checksum list_ring (run_ring list_ring [Inl ''n2'', Inl ''n1'', Inl ''n2'']
       (NewConsistentHashring list_ring None))"
  by (rule checksum_history_independent [OF list_ring_laws]) auto

text \<open>The comparison is not exact in the other direction: the names are joined with commas
  before they are hashed, so a ring with one member named \<open>a,b\<close> has the checksum of the ring with
  the two members \<open>a\<close> and \<open>b\<close>.\<close>

theorem checksum_comma_collision:
  assumes "consistent_laws L" and "a < b"
  shows "ring_Checksum L (ring_Add L (a @ '','' @ b) (NewConsistentHashring L c)) =
         ring_Checksum L (ring_Add L b (ring_Add L a (NewConsistentHashring L c)))"
proof -
  let ?one = "ring_Add L (a @ '','' @ b) (NewConsistentHashring L c)"
  let ?two = "ring_Add L b (ring_Add L a (NewConsistentHashring L c))"
  have "sort (remdups (lib_GetMembers L (ring ?one))) = sort (remdups [a @ '','' @ b])"
    by (rule sort_remdups_cong) (simp add: ring_members_ops [OF assms(1)])
  moreover have "sort (remdups (lib_GetMembers L (ring ?two))) = sort (remdups [a, b])"
    by (rule sort_remdups_cong) (auto simp: ring_members_ops [OF assms(1)])
  moreover have "sort (remdups [a, b]) = [a, b]"
    using assms(2) by auto
  ultimately show ?thesis by (simp add: ring_Checksum_def Let_def sort_Strings_def)
qed

theorem checksum_comma_collision_witness:
  "ring_Checksum list_ring (ring_Add list_ring ''n1,n2'' (NewConsistentHashring list_ring None)) =
   ring_Checksum list_ring (ring_Add list_ring ''n2'' (ring_Add list_ring ''n1'' (NewConsistentHashring list_ring None)))"
proof -
  have "''n1'' < ''n2''" by code_simp
  from checksum_comma_collision [OF list_ring_laws this, of None] show ?thesis by simp
qed

end
