(* ===== verification/Acl_Proto.thy ===== *)
theory Acl_Proto
  imports Go_Lib
begin

section \<open>The protobuf messages\<close>

text \<open>
  The messages of \<open>api/protos/authorizer/accesscontroller/v1alpha1\<close>. A message field is an
  \<open>option\<close> (\<open>None\<close> is a nil pointer), a oneof is a datatype whose unset case is written out, and a
  repeated field is a list. The generated getters are nil-safe: on a nil message they return the
  zero value of the field.
\<close>

subsection \<open>Relation tuples and subjects (\<open>acl.proto\<close>)\<close>

record pb_SubjectSet =
  pbss_Namespace :: string
  pbss_Object :: string
  pbss_Relation :: string

datatype pb_Ref = Subject_Id string | Subject_Set pb_SubjectSet

record pb_Subject =
  pbs_Ref :: "pb_Ref option"

record pb_RelationTuple =
  pbrt_Namespace :: string
  pbrt_Object :: string
  pbrt_Relation :: string
  pbrt_Subject :: "pb_Subject option"

definition GetRef :: "pb_Subject option \<Rightarrow> pb_Ref option" where
  "GetRef s = (case s of None \<Rightarrow> None | Some m \<Rightarrow> pbs_Ref m)"

subsection \<open>Namespace configurations (\<open>namespace_service.proto\<close>)\<close>

text \<open>
  \<open>RewriteNil\<close> and \<open>ChildNil\<close> are the unset oneofs. \<open>Child_TupleToSubjectset ts cs\<close> carries the
  relation of its \<open>tupleset\<close> and of its \<open>computed_subjectset\<close>, each \<open>None\<close> when the submessage is
  not present.
\<close>

datatype Rewrite =
    RewriteNil
  | Rewrite_Union "SetOperation_Child list"
  | Rewrite_Intersection "SetOperation_Child list"
and SetOperation_Child =
    ChildNil
  | Child_This
  | Child_ComputedSubjectset string
  | Child_TupleToSubjectset "string option" "string option"
  | Child_Rewrite Rewrite

record Relation =
  rel_Name :: string
  rel_Rewrite :: "Rewrite option"

record NamespaceConfig =
  cfg_Name :: string
  cfg_Relations :: "Relation list"

fun GetRewrite :: "SetOperation_Child \<Rightarrow> Rewrite option" where
  "GetRewrite (Child_Rewrite r) = Some r"
| "GetRewrite c = None"

definition GetRelations :: "NamespaceConfig option \<Rightarrow> Relation list" where
  "GetRelations c = (case c of None \<Rightarrow> [] | Some m \<Rightarrow> cfg_Relations m)"

definition GetString :: "string option \<Rightarrow> string" where
  "GetString s = (case s of None \<Rightarrow> '''' | Some x \<Rightarrow> x)"

subsection \<open>Requests and trees\<close>

record CheckRequest =
  chk_Namespace :: string
  chk_Object :: string
  chk_Relation :: string
  chk_Subject :: "pb_Subject option"

datatype Action = ACTION_UNSPECIFIED | ACTION_INSERT | ACTION_DELETE

record RelationTupleDelta =
  delta_Action :: Action
  delta_RelationTuple :: "pb_RelationTuple option"

record ListQuery =
  lq_Namespace :: string
  lq_Object :: string
  lq_Relations :: "string list"
  lq_Subject :: "pb_Subject option"

datatype pb_NodeType = NODE_TYPE_UNSPECIFIED | NODE_TYPE_UNION | NODE_TYPE_INTERSECTION
  | NODE_TYPE_LEAF

datatype pb_SubjectTree =
  PbTree (pbt_NodeType: pb_NodeType) (pbt_Subject: "pb_Subject option")
    (pbt_Children: "pb_SubjectTree list")

end
