(* ===== verification/Namespace_Config.thy ===== *)
theory Namespace_Config
  imports Acl_Proto
begin

section \<open>Namespace configuration snapshots (\<open>internal/namespace-manager/namespacemgr.go\<close>)\<close>

text \<open>
  The namespace config errors and their gRPC status, the snapshot timestamps kept in contexts, and
  the in-memory store of the config snapshots of every peer: a map from peers to namespaces to
  timestamps to configurations. The store's methods hold its mutex for their whole body, so each is
  one atomic step. Timestamps are keys of a Go map, which compares them field by field: the store
  strips the monotonic reading and the location before it writes one.
\<close>

subsection \<open>Definitions\<close>

fun NamespaceConfigError_Error :: "error \<Rightarrow> message" where
  "NamespaceConfigError_Error (NamespaceConfigError m ty) = m"
| "NamespaceConfigError_Error e = MsgText ''''"

definition NamespaceConfigError_ToStatus :: "message \<Rightarrow> NamespaceConfigErrorType \<Rightarrow> error" where
  "NamespaceConfigError_ToStatus m ty =
     (case ty of
        NamespaceDoesntExist \<Rightarrow> Status InvalidArgument m
      | NamespaceUpdateFailedPrecondition \<Rightarrow> Status InvalidArgument m
      | NamespaceRelationUndefined \<Rightarrow> Status InvalidArgument m
      | _ \<Rightarrow> Status Unknown m)"

definition NewContextWithNamespaceConfigTimestamp ::
  "go_context \<Rightarrow> string \<Rightarrow> time \<Rightarrow> go_context" where
  "NewContextWithNamespaceConfigTimestamp ctx namespace timestamp =
     context_WithValue ctx (nsConfigSnapshotTimestampKey namespace) (CtxTime timestamp)"

definition NamespaceConfigTimestampFromContext :: "go_context \<Rightarrow> string \<Rightarrow> time option" where
  "NamespaceConfigTimestampFromContext ctx namespace =
     (case context_Value ctx (nsConfigSnapshotTimestampKey namespace) of
        Some (CtxTime t) \<Rightarrow> Some t | _ \<Rightarrow> None)"

type_synonym NamespaceOperation = string

definition AddNamespace :: NamespaceOperation where "AddNamespace = ''ADD''"
definition UpdateNamespace :: NamespaceOperation where "UpdateNamespace = ''UPDATE''"

record NamespaceConfigSnapshot =
  snap_Config :: "NamespaceConfig option"
  snap_Timestamp :: time

record NamespaceChangelogEntry =
  entry_Namespace :: string
  entry_Operation :: NamespaceOperation
  entry_Config :: NamespaceConfig
  entry_Timestamp :: time

type_synonym snapshots = "(time, NamespaceConfig) gomap"

record inmemPeerNamespaceConfigStore =
  configs :: "(string, (string, snapshots) gomap) gomap"

definition NewInMemoryPeerNamespaceConfigStore :: inmemPeerNamespaceConfigStore where
  "NewInMemoryPeerNamespaceConfigStore = \<lparr>configs = []\<rparr>"

definition SetNamespaceConfigSnapshot ::
  "string \<Rightarrow> string \<Rightarrow> NamespaceConfig \<Rightarrow> time \<Rightarrow> inmemPeerNamespaceConfigStore
     \<Rightarrow> unit result \<times> inmemPeerNamespaceConfigStore" where
  "SetNamespaceConfigSnapshot peerID namespace config ts0 p =
     (let ts = time_UTC (time_Round0 ts0) in
      case map_of (configs p) peerID of
        None \<Rightarrow> (Inr (), p\<lparr>configs := AList.update peerID [(namespace, [(ts, config)])] (configs p)\<rparr>)
      | Some namespaceConfigs \<Rightarrow>
          (case map_of namespaceConfigs namespace of
             None \<Rightarrow> (Inr (), p\<lparr>configs := AList.update peerID
                 (AList.update namespace [(ts, config)] namespaceConfigs) (configs p)\<rparr>)
           | Some snapshots \<Rightarrow> (Inr (), p\<lparr>configs := AList.update peerID
                 (AList.update namespace (AList.update ts config snapshots) namespaceConfigs)
                 (configs p)\<rparr>)))"

definition ListNamespaceConfigSnapshots ::
  "inmemPeerNamespaceConfigStore \<Rightarrow> string \<Rightarrow> (string, snapshots) gomap result" where
  "ListNamespaceConfigSnapshots p namespace =
     Inr (map (\<lambda>(peer, cfgs).
        (peer, case map_of cfgs namespace of None \<Rightarrow> [] | Some snapshots \<Rightarrow> snapshots)) (configs p))"

definition GetNamespaceConfigSnapshot ::
  "inmemPeerNamespaceConfigStore \<Rightarrow> string \<Rightarrow> string \<Rightarrow> time \<Rightarrow> NamespaceConfig option result" where
  "GetNamespaceConfigSnapshot p peerID namespace ts =
     (case map_of (configs p) peerID of
        None \<Rightarrow> Inr None
      | Some cfgs \<Rightarrow>
          (case map_of cfgs namespace of
             None \<Rightarrow> Inr None
           | Some snapshots \<Rightarrow> Inr (map_of snapshots ts)))"

definition GetNamespaceConfigSnapshots ::
  "inmemPeerNamespaceConfigStore \<Rightarrow> string \<Rightarrow> (string, snapshots) gomap result" where
  "GetNamespaceConfigSnapshots p peerID =
     (case map_of (configs p) peerID of None \<Rightarrow> Inr [] | Some cfgs \<Rightarrow> Inr cfgs)"

definition DeleteNamespaceConfigSnapshots ::
  "string \<Rightarrow> inmemPeerNamespaceConfigStore \<Rightarrow> unit result \<times> inmemPeerNamespaceConfigStore" where
  "DeleteNamespaceConfigSnapshots peerID p =
     (Inr (), p\<lparr>configs := AList.delete peerID (configs p)\<rparr>)"

subsection \<open>Contexts\<close>

lemma TimestampFromContext_New [simp]:
  "NamespaceConfigTimestampFromContext (NewContextWithNamespaceConfigTimestamp ctx n t) m =
     (if m = n then Some t else NamespaceConfigTimestampFromContext ctx m)"
  by (simp add: NamespaceConfigTimestampFromContext_def NewContextWithNamespaceConfigTimestamp_def)

lemma ctx_done_NewContextWithTimestamp [simp]:
  "ctx_done (NewContextWithNamespaceConfigTimestamp ctx n t) = ctx_done ctx"
  by (simp add: NewContextWithNamespaceConfigTimestamp_def)

subsection \<open>The store as a table of snapshots\<close>

text \<open>
  The abstract view: the set of peers the store knows and, per peer, namespace and instant, the
  configuration stored there.
\<close>

definition known_peers :: "inmemPeerNamespaceConfigStore \<Rightarrow> string set" where
  "known_peers p = set (keys (configs p))"

definition snapshots_of :: "inmemPeerNamespaceConfigStore \<Rightarrow> string \<Rightarrow> string \<Rightarrow> snapshots" where
  "snapshots_of p peer ns =
     (case map_of (configs p) peer of
        None \<Rightarrow> []
      | Some cfgs \<Rightarrow> (case map_of cfgs ns of None \<Rightarrow> [] | Some sn \<Rightarrow> sn))"

definition snapshot_at ::
  "inmemPeerNamespaceConfigStore \<Rightarrow> string \<Rightarrow> string \<Rightarrow> time \<Rightarrow> NamespaceConfig option" where
  "snapshot_at p peer ns t = map_of (snapshots_of p peer ns) t"

definition wf_snapshots :: "snapshots \<Rightarrow> bool" where
  "wf_snapshots sn \<longleftrightarrow> distinct (keys sn) \<and> (\<forall>t \<in> set (keys sn). utc_time t)"

definition wf_peer_store :: "inmemPeerNamespaceConfigStore \<Rightarrow> bool" where
  "wf_peer_store p \<longleftrightarrow> distinct (keys (configs p)) \<and>
     (\<forall>(peer, cfgs) \<in> set (configs p). distinct (keys cfgs) \<and> (\<forall>(ns, sn) \<in> set cfgs. wf_snapshots sn))"

lemmas peer_store_defs = SetNamespaceConfigSnapshot_def DeleteNamespaceConfigSnapshots_def
  NewInMemoryPeerNamespaceConfigStore_def

lemma Set_ok [simp]: "fst (SetNamespaceConfigSnapshot peer ns c t p) = Inr ()"
  by (simp add: SetNamespaceConfigSnapshot_def Let_def split: option.splits)

lemma Delete_ok [simp]: "fst (DeleteNamespaceConfigSnapshots peer p) = Inr ()"
  by (simp add: DeleteNamespaceConfigSnapshots_def)

lemma GetNamespaceConfigSnapshot_eq:
  "GetNamespaceConfigSnapshot p peer ns t = Inr (snapshot_at p peer ns t)"
  by (simp add: GetNamespaceConfigSnapshot_def snapshot_at_def snapshots_of_def split: option.splits)

lemma map_of_update_keys: "set (keys (AList.update k v m)) = insert k (set (keys m))"
  by (simp add: dom_update)

lemma known_peers_iff: "peer \<in> known_peers p \<longleftrightarrow> map_of (configs p) peer \<noteq> None"
  by (simp only: known_peers_def keys_iff_map_of not_False_eq_True)

lemma known_peers_ops [simp]:
  "known_peers NewInMemoryPeerNamespaceConfigStore = {}"
  "known_peers (snd (SetNamespaceConfigSnapshot peer ns c t p)) = insert peer (known_peers p)"
  "known_peers (snd (DeleteNamespaceConfigSnapshots peer p)) = known_peers p - {peer}"
  by (auto simp: known_peers_iff peer_store_defs Let_def go_map split: option.splits if_splits)

lemma snapshots_of_Set:
  "snapshots_of (snd (SetNamespaceConfigSnapshot peer ns c t p)) peer' ns' =
     (if peer' = peer \<and> ns' = ns
      then AList.update (time_UTC (time_Round0 t)) c (snapshots_of p peer ns)
      else snapshots_of p peer' ns')"
  by (auto simp: snapshots_of_def SetNamespaceConfigSnapshot_def Let_def go_map split: option.splits)

lemma snapshots_of_Delete:
  "snapshots_of (snd (DeleteNamespaceConfigSnapshots peer p)) peer' ns =
     (if peer' = peer then [] else snapshots_of p peer' ns)"
  by (simp add: snapshots_of_def DeleteNamespaceConfigSnapshots_def go_map)

lemma snapshots_of_New [simp]: "snapshots_of NewInMemoryPeerNamespaceConfigStore peer ns = []"
  by (simp add: snapshots_of_def NewInMemoryPeerNamespaceConfigStore_def)

lemma snapshot_at_New [simp]: "snapshot_at NewInMemoryPeerNamespaceConfigStore peer ns t = None"
  by (simp add: snapshot_at_def)

lemma snapshot_at_Set:
  "snapshot_at (snd (SetNamespaceConfigSnapshot peer ns c t p)) peer' ns' t' =
     (if peer' = peer \<and> ns' = ns \<and> t' = time_UTC (time_Round0 t) then Some c
      else snapshot_at p peer' ns' t')"
  by (simp add: snapshot_at_def snapshots_of_Set go_map)

lemma snapshot_at_Delete:
  "snapshot_at (snd (DeleteNamespaceConfigSnapshots peer p)) peer' ns t =
     (if peer' = peer then None else snapshot_at p peer' ns t)"
  by (simp add: snapshot_at_def snapshots_of_Delete)

lemma ListNamespaceConfigSnapshots_eq:
  "ListNamespaceConfigSnapshots p ns = Inr m \<Longrightarrow>
     map_of m peer = (if peer \<in> known_peers p then Some (snapshots_of p peer ns) else None)"
proof -
  assume "ListNamespaceConfigSnapshots p ns = Inr m"
  then have m: "m = map (\<lambda>(peer, cfgs). (peer,
      (\<lambda>_ cfgs. case map_of cfgs ns of None \<Rightarrow> [] | Some sn \<Rightarrow> sn) peer cfgs)) (configs p)"
    by (simp add: ListNamespaceConfigSnapshots_def)
  show ?thesis
    unfolding m map_of_map_values
    by (auto simp: known_peers_iff snapshots_of_def split: option.splits)
qed

lemma ListNamespaceConfigSnapshots_keys:
  "ListNamespaceConfigSnapshots p ns = Inr m \<Longrightarrow> keys m = keys (configs p)"
  by (auto simp: ListNamespaceConfigSnapshots_def)

subsection \<open>Well-formedness\<close>

lemma wf_snapshots_update [intro]:
  "wf_snapshots sn \<Longrightarrow> utc_time t \<Longrightarrow> wf_snapshots (AList.update t c sn)"
  unfolding wf_snapshots_def map_of_update_keys by (auto simp: distinct_update)

lemma wf_snapshots_singleton [intro]: "utc_time t \<Longrightarrow> wf_snapshots [(t, c)]"
  by (simp add: wf_snapshots_def)

lemma wf_snapshots_Nil [simp]: "wf_snapshots []"
  by (simp add: wf_snapshots_def)

lemma wf_peer_storeD:
  "wf_peer_store p \<Longrightarrow> map_of (configs p) peer = Some cfgs \<Longrightarrow> map_of cfgs ns = Some sn \<Longrightarrow> wf_snapshots sn"
  unfolding wf_peer_store_def by (blast dest: map_of_SomeD)

lemma wf_snapshots_of: "wf_peer_store p \<Longrightarrow> wf_snapshots (snapshots_of p peer ns)"
  by (simp add: snapshots_of_def wf_peer_storeD split: option.split)

lemma set_update_subset: "set (AList.update k v m) \<subseteq> insert (k, v) (set m)"
  by (induction m) auto

lemma wf_peer_store_New [simp]: "wf_peer_store NewInMemoryPeerNamespaceConfigStore"
  by (simp add: wf_peer_store_def NewInMemoryPeerNamespaceConfigStore_def)

lemma wf_peer_store_update:
  assumes "wf_peer_store p" "distinct (keys cfgs)" "\<And>ns sn. (ns, sn) \<in> set cfgs \<Longrightarrow> wf_snapshots sn"
  shows "wf_peer_store (p\<lparr>configs := AList.update peer cfgs (configs p)\<rparr>)"
  using assms set_update_subset [of peer cfgs "configs p"]
  by (fastforce simp: wf_peer_store_def distinct_update)

lemma wf_peer_store_Set:
  assumes wf: "wf_peer_store p"
  shows "wf_peer_store (snd (SetNamespaceConfigSnapshot peer ns c t p))"
proof (cases "map_of (configs p) peer")
  case None
  then show ?thesis
    by (auto simp: SetNamespaceConfigSnapshot_def Let_def
        intro!: wf_peer_store_update wf wf_snapshots_singleton)
next
  case (Some cfgs)
  then have cfgs: "distinct (keys cfgs)" "\<And>ns sn. (ns, sn) \<in> set cfgs \<Longrightarrow> wf_snapshots sn"
    using wf by (auto simp: wf_peer_store_def dest!: map_of_SomeD)
  let ?sn = "case map_of cfgs ns of None \<Rightarrow> [(time_UTC (time_Round0 t), c)]
    | Some sn \<Rightarrow> AList.update (time_UTC (time_Round0 t)) c sn"
  have "wf_snapshots ?sn"
    using cfgs(2) by (auto dest: map_of_SomeD split: option.split
        intro!: wf_snapshots_update wf_snapshots_singleton)
  moreover have "snd (SetNamespaceConfigSnapshot peer ns c t p) =
      p\<lparr>configs := AList.update peer (AList.update ns ?sn cfgs) (configs p)\<rparr>"
    using Some by (simp add: SetNamespaceConfigSnapshot_def Let_def split: option.splits)
  ultimately show ?thesis
    using cfgs set_update_subset [of ns ?sn cfgs]
    by (auto intro!: wf_peer_store_update wf simp: distinct_update)
qed

lemma set_delete_subset: "set (AList.delete k m) \<subseteq> set m"
  by (auto simp: AList.delete_eq)

lemma wf_peer_store_Delete:
  "wf_peer_store p \<Longrightarrow> wf_peer_store (snd (DeleteNamespaceConfigSnapshots peer p))"
  using set_delete_subset [of peer "configs p"]
  unfolding wf_peer_store_def DeleteNamespaceConfigSnapshots_def
  by (simp add: distinct_delete) blast

subsection \<open>The \<open>PeerNamespaceConfigStore\<close> interface\<close>

text \<open>
  The laws a client of the store uses: reads after writes, what a deletion forgets, and that the
  listing of a namespace shows every known peer with exactly its snapshots.
\<close>

locale peer_config_store =
  fixes new :: 'p
    and set_snapshot :: "string \<Rightarrow> string \<Rightarrow> NamespaceConfig \<Rightarrow> time \<Rightarrow> 'p \<Rightarrow> unit result \<times> 'p"
    and get_snapshot :: "'p \<Rightarrow> string \<Rightarrow> string \<Rightarrow> time \<Rightarrow> NamespaceConfig option result"
    and list_snapshots :: "'p \<Rightarrow> string \<Rightarrow> (string, snapshots) gomap result"
    and delete_snapshots :: "string \<Rightarrow> 'p \<Rightarrow> unit result \<times> 'p"
    and peers :: "'p \<Rightarrow> string set"
    and inv :: "'p \<Rightarrow> bool"
  assumes get_new: "get_snapshot new peer ns t = Inr None"
    and get_set: "get_snapshot (snd (set_snapshot peer ns c t p)) peer' ns' t' =
      (if peer' = peer \<and> ns' = ns \<and> t' = time_UTC (time_Round0 t) then Inr (Some c)
       else get_snapshot p peer' ns' t')"
    and get_delete: "get_snapshot (snd (delete_snapshots peer p)) peer' ns t =
      (if peer' = peer then Inr None else get_snapshot p peer' ns t)"
    and peers_new: "peers new = {}"
    and peers_set: "peers (snd (set_snapshot peer ns c t p)) = insert peer (peers p)"
    and peers_delete: "peers (snd (delete_snapshots peer p)) = peers p - {peer}"
    and list_ok: "\<exists>m. list_snapshots p ns = Inr m"
    and list_keys: "inv p \<Longrightarrow> list_snapshots p ns = Inr m \<Longrightarrow> distinct (keys m) \<and> set (keys m) = peers p"
    and list_get: "inv p \<Longrightarrow> list_snapshots p ns = Inr m \<Longrightarrow> (peer, sn) \<in> set m \<Longrightarrow>
      distinct (keys sn) \<and> (\<forall>t. utc_time t \<or> t \<notin> set (keys sn))
        \<and> get_snapshot p peer ns t = Inr (map_of sn t)"
    and inv_new: "inv new"
    and inv_set: "inv p \<Longrightarrow> inv (snd (set_snapshot peer ns c t p))"
    and inv_delete: "inv p \<Longrightarrow> inv (snd (delete_snapshots peer p))"
begin

lemmas store_laws = get_set get_delete peers_set peers_delete

lemma set_snapshot_own_key: "get_snapshot (snd (set_snapshot peer ns c t p)) peer ns (time_UTC (time_Round0 t)) = Inr (Some c)"
  by (simp add: get_set)

lemma deleted_peer_unlisted:
  "inv p \<Longrightarrow> list_snapshots (snd (delete_snapshots peer p)) ns = Inr m \<Longrightarrow> peer \<notin> set (keys m)"
  using list_keys [OF inv_delete] by (simp add: peers_delete)

end

interpretation inmem: peer_config_store NewInMemoryPeerNamespaceConfigStore
  SetNamespaceConfigSnapshot GetNamespaceConfigSnapshot ListNamespaceConfigSnapshots
  DeleteNamespaceConfigSnapshots known_peers wf_peer_store
proof unfold_locales
  fix p ns m peer sn t
  assume wf: "wf_peer_store p" and m: "ListNamespaceConfigSnapshots p ns = Inr m"
  have keys: "keys m = keys (configs p)"
    by (rule ListNamespaceConfigSnapshots_keys [OF m])
  then show dist: "distinct (keys m) \<and> set (keys m) = known_peers p"
    using wf by (simp add: wf_peer_store_def known_peers_def)
  assume "(peer, sn) \<in> set m"
  with dist have "map_of m peer = Some sn" by (simp add: map_of_SomeI_distinct)
  then have "sn = snapshots_of p peer ns"
    by (simp add: ListNamespaceConfigSnapshots_eq [OF m] split: if_splits)
  with wf_snapshots_of [OF wf, of peer ns]
  show "distinct (keys sn) \<and> (\<forall>t. utc_time t \<or> t \<notin> set (keys sn))
      \<and> GetNamespaceConfigSnapshot p peer ns t = Inr (map_of sn t)"
    by (auto simp: wf_snapshots_def GetNamespaceConfigSnapshot_eq snapshot_at_def)
qed (simp_all add: GetNamespaceConfigSnapshot_eq snapshot_at_Set snapshot_at_Delete
    wf_peer_store_Set wf_peer_store_Delete ListNamespaceConfigSnapshots_def)

subsection \<open>Refinement\<close>

text \<open>
  The abstract store: a set of peers and a table from peers, namespaces and instants to
  configurations. The nested Go maps implement it.
\<close>

datatype store_op = SetOp string string NamespaceConfig time | DeleteOp string

fun run_op :: "store_op \<Rightarrow> inmemPeerNamespaceConfigStore \<Rightarrow> inmemPeerNamespaceConfigStore" where
  "run_op (SetOp peer ns c t) p = snd (SetNamespaceConfigSnapshot peer ns c t p)"
| "run_op (DeleteOp peer) p = snd (DeleteNamespaceConfigSnapshots peer p)"

type_synonym snapshot_table = "string set \<times> (string \<Rightarrow> string \<Rightarrow> time \<Rightarrow> NamespaceConfig option)"

fun spec_op :: "store_op \<Rightarrow> snapshot_table \<Rightarrow> snapshot_table" where
  "spec_op (SetOp peer ns c t) (peers, table) =
     (insert peer peers, table(peer := (table peer)(ns := (table peer ns)(time_UTC (time_Round0 t) \<mapsto> c))))"
| "spec_op (DeleteOp peer) (peers, table) = (peers - {peer}, table(peer := (\<lambda>_ _. None)))"

definition abs_store :: "inmemPeerNamespaceConfigStore \<Rightarrow> snapshot_table" where
  "abs_store p = (known_peers p, snapshot_at p)"

lemma abs_run_op: "abs_store (run_op op p) = spec_op op (abs_store p)"
  by (cases op) (auto simp: abs_store_def fun_eq_iff snapshot_at_Set snapshot_at_Delete)

lemma abs_run: "abs_store (fold run_op ops p) = fold spec_op ops (abs_store p)"
  by (induction ops arbitrary: p) (simp_all add: abs_run_op)

lemma wf_run_op: "wf_peer_store p \<Longrightarrow> wf_peer_store (run_op op p)"
  by (cases op) (simp_all add: wf_peer_store_Set wf_peer_store_Delete)

lemma wf_run: "wf_peer_store p \<Longrightarrow> wf_peer_store (fold run_op ops p)"
  by (induction ops arbitrary: p) (simp_all add: wf_run_op)

subsection \<open>Properties\<close>


end
