(* ===== verification/Snapshot_Choice.thy ===== *)
theory Snapshot_Choice
  imports Namespace_Config
begin

section \<open>Choosing a namespace config snapshot (\<open>chooseNamespaceConfigSnapshot\<close>)\<close>

text \<open>
  Every request first selects the snapshot of a namespace's configuration it is evaluated at: the
  code looks for the peer with the fewest snapshots, keeps the timestamps of that peer which another
  peer has too, and takes the newest. The loops over Go maps are recursions over the listing, in the
  order in which the listing happens to come.
\<close>

subsection \<open>Definitions\<close>

definition MaxInt32 :: int where
  "MaxInt32 = 2147483647"

text \<open>The first loop: the smallest snapshot map, with the peer it belongs to.\<close>

fun minPeer :: "(string, snapshots) gomap \<Rightarrow> int \<Rightarrow> string \<Rightarrow> snapshots \<Rightarrow> int \<times> string \<times> snapshots" where
  "minPeer [] minLen peerWithMin s = (minLen, peerWithMin, s)"
| "minPeer ((peer, sn) # rest) minLen peerWithMin s =
     (if int (length sn) < minLen then minPeer rest (int (length sn)) peer sn
      else minPeer rest minLen peerWithMin s)"

text \<open>The nested loops: the timestamps of \<open>s\<close> that a peer other than \<open>peerWithMin\<close> has too.\<close>

definition commonTimestamps :: "(string, snapshots) gomap \<Rightarrow> string \<Rightarrow> snapshots \<Rightarrow> time list" where
  "commonTimestamps peerSnapshots peerWithMin s =
     filter (\<lambda>timestamp. list_ex (\<lambda>(peer, sn). peer \<noteq> peerWithMin \<and>
         list_ex (\<lambda>ts. time_Equal timestamp ts) (keys sn)) peerSnapshots) (keys s)"

text \<open>The last loop: the newest timestamp, starting from the zero time.\<close>

definition selectTS :: "time list \<Rightarrow> time" where
  "selectTS ts = foldl (\<lambda>selectedTS t. if time_After t selectedTS then t else selectedTS) zero_time ts"

definition chooseNamespaceConfigSnapshot ::
  "inmemPeerNamespaceConfigStore \<Rightarrow> string \<Rightarrow> NamespaceConfigSnapshot result" where
  "chooseNamespaceConfigSnapshot store namespace =
     (case ListNamespaceConfigSnapshots store namespace of
        Inl err \<Rightarrow> Inl err
      | Inr peerSnapshots \<Rightarrow>
          if length peerSnapshots \<ge> 1 then
            (case minPeer peerSnapshots MaxInt32 '''' [] of
               (_, peerWithMin, s) \<Rightarrow>
                 (let common = (if length peerSnapshots > 1
                                then commonTimestamps peerSnapshots peerWithMin s else keys s)
                  in if length common < 1 then Inl ErrNoLocalNamespacesDefined
                     else
                       (let selectedTS = selectTS common;
                            config = (case map_of peerSnapshots peerWithMin of
                                        None \<Rightarrow> None | Some sn \<Rightarrow> map_of sn selectedTS)
                        in Inr \<lparr>snap_Config = config, snap_Timestamp = selectedTS\<rparr>)))
          else Inl ErrNoLocalNamespacesDefined)"

subsection \<open>The loops\<close>

lemma minPeer_spec:
  "minPeer ps m p s = (m', p', s') \<Longrightarrow>
     (m' = m \<and> p' = p \<and> s' = s \<and> (\<forall>(q, sn) \<in> set ps. m \<le> int (length sn))) \<or>
     ((p', s') \<in> set ps \<and> m' = int (length s') \<and> m' < m \<and> (\<forall>(q, sn) \<in> set ps. m' \<le> int (length sn)))"
proof (induction ps m p s rule: minPeer.induct)
  case (2 peer sn rest m p s)
  show ?case
  proof (cases "int (length sn) < m")
    case True
    with "2.prems" "2.IH"(1) show ?thesis by auto
  next
    case False
    with "2.prems" "2.IH"(2) show ?thesis by auto
  qed
qed auto

lemma minPeer_member:
  assumes "ps \<noteq> []" "\<forall>(q, sn) \<in> set ps. int (length sn) < MaxInt32"
    "minPeer ps MaxInt32 '''' [] = (m', p', s')"
  shows "(p', s') \<in> set ps \<and> m' = int (length s') \<and> (\<forall>(q, sn) \<in> set ps. m' \<le> int (length sn))"
  using minPeer_spec [OF assms(3)] assms(1,2) by (cases ps) force+

lemma foldl_After:
  assumes "\<forall>t \<in> set ts. utc_time t" "utc_time z"
  shows "foldl (\<lambda>sel t. if time_After t sel then t else sel) z ts \<in> insert z (set ts)
    \<and> (\<forall>t \<in> insert z (set ts). wall t \<le> wall (foldl (\<lambda>sel t. if time_After t sel then t else sel) z ts))"
  using assms
proof (induction ts arbitrary: z)
  case (Cons t ts)
  let ?z = "if time_After t z then t else z"
  have "utc_time ?z" using Cons.prems by simp
  with Cons.IH [of ?z] Cons.prems show ?case by auto
qed simp

lemma selectTS_max:
  assumes "\<forall>t \<in> set ts. utc_time t" "t \<in> set ts" "\<forall>t \<in> set ts. wall t > 0"
  shows "selectTS ts \<in> set ts" "wall t \<le> wall (selectTS ts)"
proof -
  have *: "selectTS ts \<in> insert zero_time (set ts)" "\<forall>u \<in> set ts. wall u \<le> wall (selectTS ts)"
    using foldl_After [OF assms(1) utc_zero_time(1)] by (simp_all add: selectTS_def)
  from * assms(2) show "wall t \<le> wall (selectTS ts)" by blast
  with assms(2,3) have "wall (selectTS ts) \<noteq> 0" by fastforce
  with *(1) show "selectTS ts \<in> set ts" by fastforce
qed

subsection \<open>What the choice means on a well-formed store\<close>

text \<open>
  \<open>stamped\<close>: every snapshot of the namespace was taken after the zero time, and no peer has more
  snapshots than the \<open>int32\<close> range the code counts in. The commit timestamps of the database and the
  three changes per namespace that a node loads satisfy both.
\<close>

definition stamped :: "inmemPeerNamespaceConfigStore \<Rightarrow> string \<Rightarrow> bool" where
  "stamped p ns \<longleftrightarrow> (\<forall>peer \<in> known_peers p. int (length (snapshots_of p peer ns)) < MaxInt32 \<and>
     (\<forall>t \<in> set (keys (snapshots_of p peer ns)). wall t > 0))"

definition has_snapshot :: "inmemPeerNamespaceConfigStore \<Rightarrow> string \<Rightarrow> string \<Rightarrow> time \<Rightarrow> bool" where
  "has_snapshot p peer ns t \<longleftrightarrow> t \<in> set (keys (snapshots_of p peer ns))"

text \<open>The timestamps the documentation speaks of: those common to all peers.\<close>

definition common_to_all :: "inmemPeerNamespaceConfigStore \<Rightarrow> string \<Rightarrow> time \<Rightarrow> bool" where
  "common_to_all p ns t \<longleftrightarrow> (\<forall>peer \<in> known_peers p. has_snapshot p peer ns t)"

lemma has_snapshot_iff: "has_snapshot p peer ns t \<longleftrightarrow> snapshot_at p peer ns t \<noteq> None"
  by (simp only: has_snapshot_def snapshot_at_def keys_iff_map_of not_False_eq_True)

lemma has_snapshot_utc: "wf_peer_store p \<Longrightarrow> has_snapshot p peer ns t \<Longrightarrow> utc_time t"
  using wf_snapshots_of [of p peer ns] by (auto simp: has_snapshot_def wf_snapshots_def)

text \<open>
  The timestamps the code keeps: those of the chosen peer that are also at some other peer, or all
  of them when there is no other peer.
\<close>

definition candidate :: "inmemPeerNamespaceConfigStore \<Rightarrow> string \<Rightarrow> string \<Rightarrow> time \<Rightarrow> bool" where
  "candidate p ns mp t \<longleftrightarrow> has_snapshot p mp ns t \<and>
     (known_peers p = {mp} \<or> (\<exists>peer \<in> known_peers p - {mp}. has_snapshot p peer ns t))"

lemma listing:
  assumes "wf_peer_store p" "ListNamespaceConfigSnapshots p ns = Inr m"
  shows "distinct (keys m)" "set (keys m) = known_peers p"
    "(peer, sn) \<in> set m \<longleftrightarrow> peer \<in> known_peers p \<and> sn = snapshots_of p peer ns"
proof -
  show d: "distinct (keys m)" and k: "set (keys m) = known_peers p"
    using inmem.list_keys [OF assms] by auto
  from d have "(peer, sn) \<in> set m \<longleftrightarrow> map_of m peer = Some sn" by simp
  then show "(peer, sn) \<in> set m \<longleftrightarrow> peer \<in> known_peers p \<and> sn = snapshots_of p peer ns"
    by (auto simp: ListNamespaceConfigSnapshots_eq [OF assms(2)])
qed

lemma list_ex_Equal:
  assumes "wf_peer_store p" "utc_time t"
  shows "list_ex (time_Equal t) (keys (snapshots_of p peer ns)) \<longleftrightarrow> has_snapshot p peer ns t"
proof -
  have "\<forall>u \<in> set (keys (snapshots_of p peer ns)). utc_time u"
    using wf_snapshots_of [OF assms(1), of peer ns] by (simp add: wf_snapshots_def)
  with assms(2) show ?thesis by (auto simp: list_ex_iff has_snapshot_def)
qed

lemma listing_ex:
  assumes "wf_peer_store p" "ListNamespaceConfigSnapshots p ns = Inr m"
  shows "list_ex (\<lambda>(peer, sn). P peer sn) m \<longleftrightarrow> (\<exists>peer \<in> known_peers p. P peer (snapshots_of p peer ns))"
proof
  assume "list_ex (\<lambda>(peer, sn). P peer sn) m"
  then obtain peer sn where "(peer, sn) \<in> set m" "P peer sn" by (auto simp: list_ex_iff)
  then show "\<exists>peer \<in> known_peers p. P peer (snapshots_of p peer ns)"
    by (auto simp: listing(3) [OF assms])
next
  assume "\<exists>peer \<in> known_peers p. P peer (snapshots_of p peer ns)"
  then obtain peer where "(peer, snapshots_of p peer ns) \<in> set m" "P peer (snapshots_of p peer ns)"
    by (auto simp: listing(3) [OF assms])
  then show "list_ex (\<lambda>(peer, sn). P peer sn) m" by (force simp: list_ex_iff)
qed

lemma set_commonTimestamps:
  assumes wf: "wf_peer_store p" and l: "ListNamespaceConfigSnapshots p ns = Inr m"
  shows "t \<in> set (commonTimestamps m mp (snapshots_of p mp ns)) \<longleftrightarrow>
     has_snapshot p mp ns t \<and> (\<exists>peer \<in> known_peers p - {mp}. has_snapshot p peer ns t)"
proof (cases "has_snapshot p mp ns t")
  case True
  then have "utc_time t" by (rule has_snapshot_utc [OF wf])
  with True show ?thesis
    by (auto simp: commonTimestamps_def has_snapshot_def [symmetric] listing_ex [OF wf l] list_ex_Equal [OF wf]
        simp del: set_map)
next
  case False
  then show ?thesis by (simp add: commonTimestamps_def has_snapshot_def)
qed

lemma choose_cases:
  assumes wf: "wf_peer_store p" and st: "stamped p ns" and ne: "known_peers p \<noteq> {}"
  obtains mp where "mp \<in> known_peers p"
    "\<forall>peer \<in> known_peers p. length (snapshots_of p mp ns) \<le> length (snapshots_of p peer ns)"
    "\<nexists>t. candidate p ns mp t \<Longrightarrow> chooseNamespaceConfigSnapshot p ns = Inl ErrNoLocalNamespacesDefined"
    "\<And>t. candidate p ns mp t \<Longrightarrow> \<exists>ts. candidate p ns mp ts \<and> wall t \<le> wall ts \<and>
       chooseNamespaceConfigSnapshot p ns = Inr \<lparr>snap_Config = snapshot_at p mp ns ts, snap_Timestamp = ts\<rparr>"
proof -
  obtain m where l: "ListNamespaceConfigSnapshots p ns = Inr m" using inmem.list_ok by blast
  note list = listing [OF wf l]
  have m_ne: "m \<noteq> []" using ne list(2) by auto
  have small: "\<forall>(q, sn) \<in> set m. int (length sn) < MaxInt32"
    using st by (auto simp: list(3) stamped_def)
  obtain k mp s where mp: "minPeer m MaxInt32 '''' [] = (k, mp, s)" by (metis prod_cases3)
  note min = minPeer_member [OF m_ne small mp]
  then have in_m: "(mp, s) \<in> set m" by simp
  then have known: "mp \<in> known_peers p" and s: "s = snapshots_of p mp ns" by (simp_all add: list(3))
  have "\<forall>peer \<in> known_peers p. k \<le> int (length (snapshots_of p peer ns))" "k = int (length s)"
    using min list(3) by blast+
  then have minimal: "\<forall>peer \<in> known_peers p. length s \<le> length (snapshots_of p peer ns)" by simp
  have single: "length m > 1 \<longleftrightarrow> known_peers p \<noteq> {mp}"
  proof -
    have "length m = card (known_peers p)"
      using distinct_card [OF list(1)] list(2) by simp
    moreover have "card (known_peers p) = 1 \<longleftrightarrow> known_peers p = {mp}"
      using known by (metis card_1_singletonE is_singletonI is_singleton_altdef singletonD)
    moreover have "length m \<noteq> 0" using m_ne by simp
    ultimately show ?thesis by linarith
  qed
  define common where
    "common = (if length m > 1 then commonTimestamps m mp s else keys s)"
  have common: "t \<in> set common \<longleftrightarrow> candidate p ns mp t" for t
  proof (cases "known_peers p = {mp}")
    case True
    then have "common = keys s" using single by (simp add: common_def)
    with True show ?thesis by (simp add: candidate_def has_snapshot_def s)
  next
    case False
    then have "common = commonTimestamps m mp s" using single by (simp add: common_def)
    with False set_commonTimestamps [OF wf l, of t mp] show ?thesis by (simp add: candidate_def s)
  qed
  have found: "map_of m mp = Some s" using list(1) in_m by simp
  have choose: "chooseNamespaceConfigSnapshot p ns =
      (if common = [] then Inl ErrNoLocalNamespacesDefined
       else Inr \<lparr>snap_Config = map_of s (selectTS common), snap_Timestamp = selectTS common\<rparr>)"
    using m_ne by (simp add: chooseNamespaceConfigSnapshot_def l mp found common_def Let_def
        Suc_le_eq)
  have "has_snapshot p mp ns t \<Longrightarrow> wall t > 0" for t
    using st known unfolding stamped_def has_snapshot_def by blast
  moreover have "t \<in> set common \<Longrightarrow> has_snapshot p mp ns t" for t
    by (simp only: common candidate_def)
  ultimately have utc: "\<forall>t \<in> set common. utc_time t" "\<forall>t \<in> set common. wall t > 0"
    using has_snapshot_utc [OF wf, of mp ns] by auto
  show thesis
  proof (rule that [OF known])
    show "chooseNamespaceConfigSnapshot p ns = Inl ErrNoLocalNamespacesDefined"
      if "\<nexists>t. candidate p ns mp t"
    proof -
      have "common = []" using that common [of "hd common"] by (cases common) auto
      then show ?thesis by (simp add: choose)
    qed
    show "\<exists>ts. candidate p ns mp ts \<and> wall t \<le> wall ts \<and>
       chooseNamespaceConfigSnapshot p ns = Inr \<lparr>snap_Config = snapshot_at p mp ns ts, snap_Timestamp = ts\<rparr>"
      if "candidate p ns mp t" for t
    proof -
      have t: "t \<in> set common" using that common by simp
      then have "common \<noteq> []" by auto
      with selectTS_max [OF utc(1) t utc(2)] common show ?thesis
        by (intro exI [of _ "selectTS common"]) (simp add: choose snapshot_at_def s)
    qed
  qed (use minimal s in simp)
qed

subsection \<open>Properties\<close>

lemma candidate_two_peers:
  assumes "mp \<in> known_peers p" "card (known_peers p) \<le> 2" "finite (known_peers p)"
  shows "candidate p ns mp t \<longleftrightarrow> common_to_all p ns t"
proof (cases "known_peers p = {mp}")
  case False
  with assms have "card (known_peers p - {mp}) = 1"
    by (metis One_nat_def Suc_1 card_0_eq card_Diff_singleton card_gt_0_iff diff_Suc_1 diff_is_0_eq
        finite_Diff insert_Diff le_antisym less_one not_less_eq_eq)
  then obtain q where "known_peers p - {mp} = {q}" by (rule card_1_singletonE)
  then have "known_peers p = {mp, q}" "q \<noteq> mp" using assms(1) by auto
  then show ?thesis by (auto simp: candidate_def common_to_all_def)
qed (simp add: candidate_def common_to_all_def)

lemma finite_known_peers [simp]: "finite (known_peers p)"
  by (simp add: known_peers_def)

lemma choose_common_newest:
  assumes "wf_peer_store p" "stamped p ns" "known_peers p \<noteq> {}" "card (known_peers p) \<le> 2" "common_to_all p ns t"
  obtains ts peer c where "common_to_all p ns ts" "\<forall>t. common_to_all p ns t \<longrightarrow> wall t \<le> wall ts"
    "peer \<in> known_peers p" "snapshot_at p peer ns ts = Some c"
    "chooseNamespaceConfigSnapshot p ns = Inr \<lparr>snap_Config = Some c, snap_Timestamp = ts\<rparr>"
proof -
  obtain mp where mp: "mp \<in> known_peers p"
    and some: "\<And>t. candidate p ns mp t \<Longrightarrow> \<exists>ts. candidate p ns mp ts \<and> wall t \<le> wall ts \<and>
       chooseNamespaceConfigSnapshot p ns = Inr \<lparr>snap_Config = snapshot_at p mp ns ts, snap_Timestamp = ts\<rparr>"
    using choose_cases [OF assms(1-3)] by metis
  note cand = candidate_two_peers [OF mp assms(4) finite_known_peers, of ns]
  obtain ts where ts: "common_to_all p ns ts"
    "chooseNamespaceConfigSnapshot p ns = Inr \<lparr>snap_Config = snapshot_at p mp ns ts, snap_Timestamp = ts\<rparr>"
    using some cand assms(5) by blast
  moreover have "\<forall>t. common_to_all p ns t \<longrightarrow> wall t \<le> wall ts"
    using some cand ts(2) by fastforce
  moreover obtain c where "snapshot_at p mp ns ts = Some c"
    using ts(1) mp by (auto simp: common_to_all_def has_snapshot_iff)
  ultimately show thesis using mp that by auto
qed

lemma choose_common_none:
  assumes "wf_peer_store p" "stamped p ns" "known_peers p \<noteq> {}" "card (known_peers p) \<le> 2" "\<nexists>t. common_to_all p ns t"
  shows "chooseNamespaceConfigSnapshot p ns = Inl ErrNoLocalNamespacesDefined"
proof -
  obtain mp where mp: "mp \<in> known_peers p"
    and none: "\<nexists>t. candidate p ns mp t \<Longrightarrow> chooseNamespaceConfigSnapshot p ns = Inl ErrNoLocalNamespacesDefined"
    using choose_cases [OF assms(1-3)] by metis
  with candidate_two_peers [OF mp assms(4) finite_known_peers, of ns] assms(5) show ?thesis by blast
qed

text \<open>Whatever is chosen is a snapshot that some peer has.\<close>

lemma choose_snapshot:
  assumes "chooseNamespaceConfigSnapshot p ns = Inr s" "snap_Config s = Some c"
  obtains peer where "snapshot_at p peer ns (snap_Timestamp s) = Some c"
proof -
  obtain m where m: "ListNamespaceConfigSnapshots p ns = Inr m" using inmem.list_ok by blast
  obtain l q sn where "minPeer m MaxInt32 '''' [] = (l, q, sn)" by (metis prod_cases3)
  with assms m obtain sn' where "map_of m q = Some sn'" "map_of sn' (snap_Timestamp s) = Some c"
    by (auto simp: chooseNamespaceConfigSnapshot_def Let_def split: if_splits option.splits)
  with that [of q] ListNamespaceConfigSnapshots_eq [OF m, of q] show thesis
    by (simp add: snapshot_at_def split: if_splits)
qed

text \<open>C32: in a cluster of one or two nodes, \<open>chooseNamespaceConfigSnapshot\<close> does what its comment
  says: when some snapshot of the namespace is common to all peers it returns the newest such
  timestamp with the configuration stored there, and otherwise it reports that no local namespace
  is defined.\<close>

theorem choose_newest_common:
  assumes "wf_peer_store p" "stamped p ns" "known_peers p \<noteq> {}" "card (known_peers p) \<le> 2"
  shows "((\<nexists>t. common_to_all p ns t) \<and>
           chooseNamespaceConfigSnapshot p ns = Inl ErrNoLocalNamespacesDefined) \<or>
         (\<exists>ts peer c. common_to_all p ns ts \<and> (\<forall>t. common_to_all p ns t \<longrightarrow> wall t \<le> wall ts) \<and>
           peer \<in> known_peers p \<and> snapshot_at p peer ns ts = Some c \<and>
           chooseNamespaceConfigSnapshot p ns = Inr \<lparr>snap_Config = Some c, snap_Timestamp = ts\<rparr>)"
proof (cases "\<exists>t. common_to_all p ns t")
  case True
  then obtain t where "common_to_all p ns t" ..
  from choose_common_newest [OF assms this] show ?thesis by metis
next
  case False
  with choose_common_none [OF assms] show ?thesis by blast
qed

definition utc :: "int \<Rightarrow> time" where
  "utc n = \<lparr>wall = n, mono = None, loc = UTC\<rparr>"

definition store_of ::
  "(string \<times> string \<times> NamespaceConfig \<times> time) list \<Rightarrow> inmemPeerNamespaceConfigStore" where
  "store_of xs = fold (\<lambda>(peer, ns, c, t) p. snd (SetNamespaceConfigSnapshot peer ns c t p)) xs
     NewInMemoryPeerNamespaceConfigStore"

lemma wf_store_of [simp]: "wf_peer_store (store_of xs)"
proof -
  have "wf_peer_store p \<Longrightarrow>
      wf_peer_store (fold (\<lambda>(peer, ns, c, t) p. snd (SetNamespaceConfigSnapshot peer ns c t p)) xs p)" for p
    by (induction xs arbitrary: p) (auto simp: wf_peer_store_Set)
  then show ?thesis by (simp add: store_of_def)
qed

definition cfg_docs :: NamespaceConfig where
  "cfg_docs = \<lparr>cfg_Name = ''docs'', cfg_Relations = [\<lparr>rel_Name = ''viewer'', rel_Rewrite = None\<rparr>]\<rparr>"

lemmas store_eval = store_of_def utc_def SetNamespaceConfigSnapshot_def Let_def
  NewInMemoryPeerNamespaceConfigStore_def time_UTC_def time_Round0_def known_peers_def
  snapshots_of_def snapshot_at_def stamped_def MaxInt32_def common_to_all_def has_snapshot_iff

lemma one_peer:
  "chooseNamespaceConfigSnapshot (store_of [(i, ''docs'', cfg_docs, utc 1)]) ''docs'' =
     Inr \<lparr>snap_Config = Some cfg_docs, snap_Timestamp = utc 1\<rparr>"
  "GetNamespaceConfigSnapshot (store_of [(i, ''docs'', cfg_docs, utc 1)]) i ''docs'' (utc 1) = Inr (Some cfg_docs)"
  by (simp_all add: store_eval chooseNamespaceConfigSnapshot_def ListNamespaceConfigSnapshots_def GetNamespaceConfigSnapshot_def
      commonTimestamps_def selectTS_def time_Equal_def time_After_def zero_time_def)

definition two_peers :: inmemPeerNamespaceConfigStore where
  "two_peers = store_of [(''n1'', ''docs'', cfg_docs, utc 1), (''n1'', ''docs'', cfg_docs, utc 2),
     (''n1'', ''docs'', cfg_docs, utc 3), (''n2'', ''docs'', cfg_docs, utc 1), (''n2'', ''docs'', cfg_docs, utc 2)]"

theorem choose_newest_common_witness:
  "known_peers two_peers = {''n1'', ''n2''} \<and>
   chooseNamespaceConfigSnapshot two_peers ''docs'' = Inr \<lparr>snap_Config = Some cfg_docs, snap_Timestamp = utc 2\<rparr>"
proof -
  have peers: "known_peers two_peers = {''n1'', ''n2''}"
    by (simp add: two_peers_def store_eval insert_commute)
  have st: "stamped two_peers ''docs''"
    by (auto simp: two_peers_def store_eval)
  have com: "common_to_all two_peers ''docs'' t \<longleftrightarrow> t = utc 1 \<or> t = utc 2" for t
    by (auto simp: two_peers_def store_eval)
  have "snapshot_at two_peers peer ''docs'' t = Some c \<Longrightarrow> c = cfg_docs" for peer t c
    by (auto simp: two_peers_def store_eval split: if_splits)
  moreover have "wall (utc n) = n" for n by (simp add: utc_def)
  ultimately show ?thesis
    using choose_newest_common [of two_peers "''docs''"] st peers com
    by (auto simp: two_peers_def dest!: spec [of _ "utc 2"])
qed

text \<open>C33: with three or more peers the comment no longer holds: the code asks that \<^emph>\<open>some\<close> other
  peer has the timestamp, not that all have it. Here nodes \<open>n1\<close> and \<open>n2\<close> have loaded the change of
  instant 3 and \<open>n3\<close> still has those of instants 1 and 2: instant 1 is common to all, and instant
  3, which \<open>n3\<close> does not have, is chosen.\<close>

definition three_peers :: inmemPeerNamespaceConfigStore where
  "three_peers = store_of [(''n1'', ''docs'', cfg_docs, utc 1), (''n1'', ''docs'', cfg_docs, utc 3),
     (''n2'', ''docs'', cfg_docs, utc 1), (''n2'', ''docs'', cfg_docs, utc 3),
     (''n3'', ''docs'', cfg_docs, utc 1), (''n3'', ''docs'', cfg_docs, utc 2)]"


end
