(* ===== verification/Relation_Tuple.thy ===== *)
theory Relation_Tuple
  imports Acl_Proto
begin

section \<open>Subjects and relation tuples (\<open>internal/relation-tuple.go\<close>)\<close>

text \<open>
  The two implementations of the \<open>Subject\<close> interface, their string and protobuf forms, and the
  relation tuple built from them. Methods carry the name of their receiver as a prefix. The
  string form \<open>namespace:object#relation\<close> is how subject sets are stored, so the exact condition
  under which it can be read back matters to every store operation.
\<close>

subsection \<open>Definitions\<close>

record Object =
  obj_Namespace :: string
  obj_ID :: string

record SubjectID =
  ID :: string

record SubjectSet =
  ss_Namespace :: string
  ss_Object :: string
  ss_Relation :: string

text \<open>A value of the interface type \<open>Subject\<close>: a pointer to one of its two implementations.\<close>

datatype Subject = SubjID SubjectID | SubjSet SubjectSet

text \<open>The dynamic types an \<open>interface{}\<close> argument of \<open>Equals\<close> is switched on.\<close>

datatype iface = PtrSubjectID SubjectID | ValSubjectID SubjectID
  | PtrSubjectSet SubjectSet | ValSubjectSet SubjectSet | OtherValue

definition quoted :: "string \<Rightarrow> string" where
  "quoted s = CHR 0x22 # s @ [CHR 0x22]"

definition SubjectID_String :: "SubjectID \<Rightarrow> string" where
  "SubjectID_String s = ID s"

definition SubjectID_MarshalJSON :: "SubjectID \<Rightarrow> string result" where
  "SubjectID_MarshalJSON s = Inr (quoted (SubjectID_String s))"

fun SubjectID_Equals :: "SubjectID \<Rightarrow> iface \<Rightarrow> bool" where
  "SubjectID_Equals s (PtrSubjectID uv) = (ID uv = ID s)"
| "SubjectID_Equals s _ = False"

text \<open>\<open>FromString\<close> writes its receiver: the second component is the receiver afterwards.\<close>

definition SubjectID_FromString :: "SubjectID \<Rightarrow> string \<Rightarrow> Subject result \<times> SubjectID" where
  "SubjectID_FromString s str = (let s' = s\<lparr>ID := str\<rparr> in (Inr (SubjID s'), s'))"

definition SubjectID_ToProto :: "SubjectID option \<Rightarrow> pb_Subject option" where
  "SubjectID_ToProto s =
     (case s of None \<Rightarrow> None | Some x \<Rightarrow> Some \<lparr>pbs_Ref = Some (Subject_Id (ID x))\<rparr>)"

fun SubjectSet_Equals :: "SubjectSet \<Rightarrow> iface \<Rightarrow> bool" where
  "SubjectSet_Equals s (PtrSubjectSet ss) =
     (ss_Relation ss = ss_Relation s \<and> ss_Object ss = ss_Object s \<and> ss_Namespace ss = ss_Namespace s)"
| "SubjectSet_Equals s (ValSubjectSet ss) =
     (ss_Relation ss = ss_Relation s \<and> ss_Object ss = ss_Object s \<and> ss_Namespace ss = ss_Namespace s)"
| "SubjectSet_Equals s _ = False"

definition SubjectSet_String :: "SubjectSet \<Rightarrow> string" where
  "SubjectSet_String s = ss_Namespace s @ '':'' @ ss_Object s @ ''#'' @ ss_Relation s"

definition SubjectSet_MarshalJSON :: "SubjectSet \<Rightarrow> string result" where
  "SubjectSet_MarshalJSON s = Inr (quoted (SubjectSet_String s))"

definition SubjectSet_ToProto :: "SubjectSet option \<Rightarrow> pb_Subject option" where
  "SubjectSet_ToProto s =
     (case s of None \<Rightarrow> None
      | Some x \<Rightarrow> Some \<lparr>pbs_Ref = Some (Subject_Set
          \<lparr>pbss_Namespace = ss_Namespace x, pbss_Object = ss_Object x, pbss_Relation = ss_Relation x\<rparr>)\<rparr>)"

definition SubjectSet_FromString :: "SubjectSet \<Rightarrow> string \<Rightarrow> Subject result \<times> SubjectSet" where
  "SubjectSet_FromString s str =
     (case strings_Split (CHR ''#'') str of
        [p0, p1] \<Rightarrow>
          (case strings_Split (CHR '':'') p0 of
             [i0, i1] \<Rightarrow>
               (let s' = s\<lparr>ss_Namespace := i0, ss_Object := i1, ss_Relation := p1\<rparr>
                in (Inr (SubjSet s'), s'))
           | _ \<Rightarrow> (Inl ErrInvalidSubjectSetString, s))
      | _ \<Rightarrow> (Inl ErrInvalidSubjectSetString, s))"

definition Subject_String :: "Subject \<Rightarrow> string" where
  "Subject_String s =
     (case s of SubjID x \<Rightarrow> SubjectID_String x | SubjSet x \<Rightarrow> SubjectSet_String x)"

definition Subject_ToProto :: "Subject \<Rightarrow> pb_Subject option" where
  "Subject_ToProto s =
     (case s of SubjID x \<Rightarrow> SubjectID_ToProto (Some x) | SubjSet x \<Rightarrow> SubjectSet_ToProto (Some x))"

record InternalRelationTuple =
  irt_Namespace :: string
  irt_Object :: string
  irt_Relation :: string
  irt_Subject :: Subject

definition InternalRelationTuple_String :: "InternalRelationTuple \<Rightarrow> string" where
  "InternalRelationTuple_String r =
     irt_Namespace r @ '':'' @ irt_Object r @ ''#'' @ irt_Relation r @ ''@'' @
       Subject_String (irt_Subject r)"

definition InternalRelationTuple_ToProto ::
  "InternalRelationTuple option \<Rightarrow> pb_RelationTuple option" where
  "InternalRelationTuple_ToProto r =
     (case r of None \<Rightarrow> None
      | Some t \<Rightarrow> Some \<lparr>pbrt_Namespace = irt_Namespace t, pbrt_Object = irt_Object t,
          pbrt_Relation = irt_Relation t, pbrt_Subject = Subject_ToProto (irt_Subject t)\<rparr>)"

definition empty_SubjectSet :: SubjectSet where
  "empty_SubjectSet = \<lparr>ss_Namespace = '''', ss_Object = '''', ss_Relation = ''''\<rparr>"

definition SubjectSetFromString :: "string \<Rightarrow> SubjectSet result" where
  "SubjectSetFromString s =
     (case strings_Split (CHR ''#'') s of
        [p0, p1] \<Rightarrow>
          (case strings_Split (CHR '':'') p0 of
             [i0, i1] \<Rightarrow> Inr \<lparr>ss_Namespace = i0, ss_Object = i1, ss_Relation = p1\<rparr>
           | _ \<Rightarrow> Inl ErrInvalidSubjectSetString)
      | _ \<Rightarrow> Inl ErrInvalidSubjectSetString)"

definition SubjectFromString :: "string \<Rightarrow> Subject result" where
  "SubjectFromString s =
     (if strings_Contains s (CHR ''#'') then fst (SubjectSet_FromString empty_SubjectSet s)
      else fst (SubjectID_FromString \<lparr>ID = ''''\<rparr> s))"

definition SubjectFromProto :: "pb_Subject option \<Rightarrow> Subject option" where
  "SubjectFromProto sub =
     (case GetRef sub of
        Some (Subject_Id i) \<Rightarrow> Some (SubjID \<lparr>ID = i\<rparr>)
      | Some (Subject_Set s) \<Rightarrow>
          Some (SubjSet \<lparr>ss_Namespace = pbss_Namespace s, ss_Object = pbss_Object s,
            ss_Relation = pbss_Relation s\<rparr>)
      | None \<Rightarrow> None)"

record RelationTupleQuery =
  q_Object :: Object
  q_Relations :: "string list"
  q_Subject :: Subject

subsection \<open>Parsing and printing subject sets\<close>

text \<open>The components whose printed form can be read back.\<close>

definition wf_SubjectSet :: "SubjectSet \<Rightarrow> bool" where
  "wf_SubjectSet s \<longleftrightarrow> CHR ''#'' \<notin> set (ss_Namespace s) \<union> set (ss_Object s) \<union> set (ss_Relation s)
     \<and> CHR '':'' \<notin> set (ss_Namespace s) \<union> set (ss_Object s)"

definition wf_Subject :: "Subject \<Rightarrow> bool" where
  "wf_Subject s \<longleftrightarrow>
     (case s of SubjID x \<Rightarrow> CHR ''#'' \<notin> set (ID x) | SubjSet x \<Rightarrow> wf_SubjectSet x)"

lemma SubjectSetFromString_Inr_iff:
  "SubjectSetFromString str = Inr s \<longleftrightarrow> str = SubjectSet_String s \<and> wf_SubjectSet s"
proof
  assume "SubjectSetFromString str = Inr s"
  then obtain p0 p1 i0 i1 where split: "strings_Split (CHR ''#'') str = [p0, p1]"
      "strings_Split (CHR '':'') p0 = [i0, i1]"
    and s: "s = \<lparr>ss_Namespace = i0, ss_Object = i1, ss_Relation = p1\<rparr>"
    by (auto simp: SubjectSetFromString_def split: list.splits)
  then show "str = SubjectSet_String s \<and> wf_SubjectSet s"
    unfolding strings_Split_two by (auto simp: SubjectSet_String_def wf_SubjectSet_def)
next
  assume "str = SubjectSet_String s \<and> wf_SubjectSet s"
  moreover from this have "strings_Split (CHR ''#'') str =
      [ss_Namespace s @ CHR '':'' # ss_Object s, ss_Relation s]"
    unfolding strings_Split_two by (auto simp: SubjectSet_String_def wf_SubjectSet_def)
  moreover from calculation have "strings_Split (CHR '':'') (ss_Namespace s @ CHR '':'' # ss_Object s) =
      [ss_Namespace s, ss_Object s]"
    unfolding strings_Split_two by (auto simp: wf_SubjectSet_def)
  ultimately show "SubjectSetFromString str = Inr s"
    by (simp add: SubjectSetFromString_def)
qed

lemma SubjectSetFromString_error:
  "SubjectSetFromString str = Inl e \<Longrightarrow> e = ErrInvalidSubjectSetString"
  by (auto simp: SubjectSetFromString_def split: list.splits)

lemma SubjectSet_String_inject:
  "wf_SubjectSet s \<Longrightarrow> wf_SubjectSet t \<Longrightarrow> SubjectSet_String s = SubjectSet_String t \<Longrightarrow> s = t"
  using SubjectSetFromString_Inr_iff by (metis sum.inject(2))

text \<open>The method and the package function parse alike; the method keeps its receiver on an error.\<close>

lemma SubjectSet_FromString_eq:
  "SubjectSet_FromString r str =
     (case SubjectSetFromString str of Inl e \<Rightarrow> (Inl e, r) | Inr s \<Rightarrow> (Inr (SubjSet s), s))"
  by (auto simp: SubjectSet_FromString_def SubjectSetFromString_def Let_def split: list.splits)

lemma SubjectFromString_cases:
  "SubjectFromString str =
     (if CHR ''#'' \<in> set str then map_sum id SubjSet (SubjectSetFromString str)
      else Inr (SubjID \<lparr>ID = str\<rparr>))"
  by (simp add: SubjectFromString_def strings_Contains_def SubjectSet_FromString_eq
      SubjectID_FromString_def Let_def split: sum.splits)

lemma hash_in_SubjectSet_String [simp]: "CHR ''#'' \<in> set (SubjectSet_String s)"
  by (simp add: SubjectSet_String_def)

lemma SubjectFromString_Inr_iff:
  "SubjectFromString str = Inr s \<longleftrightarrow> str = Subject_String s \<and> wf_Subject s"
proof (cases "CHR ''#'' \<in> set str")
  case True
  then have "SubjectFromString str = Inr s \<longleftrightarrow> (\<exists>x. s = SubjSet x \<and> SubjectSetFromString str = Inr x)"
    by (cases "SubjectSetFromString str") (auto simp: SubjectFromString_cases)
  with True show ?thesis
    by (cases s) (auto simp: SubjectSetFromString_Inr_iff Subject_String_def wf_Subject_def
        SubjectID_String_def)
next
  case False
  then show ?thesis
    by (cases s) (auto simp: SubjectFromString_cases Subject_String_def wf_Subject_def
        SubjectID_String_def)
qed

subsection \<open>Protobuf forms\<close>

lemma SubjectFromProto_ToProto [simp]: "SubjectFromProto (Subject_ToProto s) = Some s"
  by (cases s) (simp_all add: SubjectFromProto_def Subject_ToProto_def GetRef_def
      SubjectID_ToProto_def SubjectSet_ToProto_def)

lemma SubjectFromProto_nil [simp]: "SubjectFromProto None = None"
  by (simp add: SubjectFromProto_def GetRef_def)

lemma SubjectToProto_FromProto:
  "SubjectFromProto p = Some s \<Longrightarrow> Subject_ToProto s = p"
  by (cases p) (auto simp: SubjectFromProto_def Subject_ToProto_def GetRef_def
      SubjectID_ToProto_def SubjectSet_ToProto_def split: option.splits pb_Ref.splits)

subsection \<open>The \<open>Subject\<close> interface\<close>

text \<open>
  What a client of the interface relies on, for either implementation: the protobuf form can be
  read back, the string form can be read back on well-formed subjects, and \<open>Equals\<close> on a pointer
  of the same type is equality.
\<close>

locale subject_impl =
  fixes wrap :: "'s \<Rightarrow> Subject"
    and box :: "'s \<Rightarrow> iface"
    and str :: "'s \<Rightarrow> string"
    and from_str :: "'s \<Rightarrow> string \<Rightarrow> Subject result \<times> 's"
    and proto :: "'s option \<Rightarrow> pb_Subject option"
    and eq :: "'s \<Rightarrow> iface \<Rightarrow> bool"
    and wf :: "'s \<Rightarrow> bool"
  assumes wrap_inject: "wrap s = wrap t \<longleftrightarrow> s = t"
    and proto_nil: "proto None = None"
    and from_proto: "SubjectFromProto (proto (Some s)) = Some (wrap s)"
    and parse_str: "wf s \<Longrightarrow> from_str r (str s) = (Inr (wrap s), s)"
    and eq_box: "eq s (box t) \<longleftrightarrow> s = t"
begin

lemma proto_inject: "proto s = proto t \<longleftrightarrow> s = t"
proof
  assume "proto s = proto t"
  then have "SubjectFromProto (proto s) = SubjectFromProto (proto t)" by simp
  then show "s = t"
    by (cases s; cases t) (simp_all add: from_proto proto_nil wrap_inject)
qed simp

lemma str_inject: "wf s \<Longrightarrow> wf t \<Longrightarrow> str s = str t \<Longrightarrow> eq s (box t)"
proof -
  assume wf: "wf s" "wf t" and eq: "str s = str t"
  have "from_str s (str s) = from_str s (str t)" by (simp only: eq)
  then show ?thesis using wf by (simp only: parse_str prod.inject eq_box)
qed

end

lemma SubjectSet_FromString_String:
  "wf_SubjectSet s \<Longrightarrow> SubjectSet_FromString r (SubjectSet_String s) = (Inr (SubjSet s), s)"
proof -
  assume "wf_SubjectSet s"
  then have "SubjectSetFromString (SubjectSet_String s) = Inr s"
    by (simp add: SubjectSetFromString_Inr_iff)
  then show ?thesis by (simp add: SubjectSet_FromString_eq)
qed

interpretation subject_id: subject_impl SubjID PtrSubjectID SubjectID_String SubjectID_FromString
  SubjectID_ToProto SubjectID_Equals "\<lambda>_. True"
proof unfold_locales
  show "SubjectFromProto (SubjectID_ToProto (Some s)) = Some (SubjID s)" for s
    using SubjectFromProto_ToProto [of "SubjID s"] by (simp add: Subject_ToProto_def)
qed (auto simp: SubjectID_ToProto_def SubjectID_FromString_def SubjectID_String_def Let_def)

interpretation subject_set: subject_impl SubjSet PtrSubjectSet SubjectSet_String
  SubjectSet_FromString SubjectSet_ToProto SubjectSet_Equals wf_SubjectSet
proof unfold_locales
  show "SubjectFromProto (SubjectSet_ToProto (Some s)) = Some (SubjSet s)" for s
    using SubjectFromProto_ToProto [of "SubjSet s"] by (simp add: Subject_ToProto_def)
qed (auto simp: SubjectSet_ToProto_def SubjectSet_FromString_String)

subsection \<open>Printed tuples\<close>

text \<open>
  The printed tuple is the key of the \<open>namespace-relation-lookup\<close> table. It determines the tuple
  only when the names keep clear of the separators.
\<close>

definition plain_name :: "string \<Rightarrow> bool" where
  "plain_name s \<longleftrightarrow> CHR '':'' \<notin> set s \<and> CHR ''#'' \<notin> set s \<and> CHR ''@'' \<notin> set s"

definition wf_tuple :: "InternalRelationTuple \<Rightarrow> bool" where
  "wf_tuple t \<longleftrightarrow> plain_name (irt_Namespace t) \<and> plain_name (irt_Object t)
     \<and> plain_name (irt_Relation t) \<and> wf_Subject (irt_Subject t)"

lemma append_sep_inject:
  "c \<notin> set a \<Longrightarrow> c \<notin> set b \<Longrightarrow> a @ c # xs = b @ c # ys \<longleftrightarrow> a = b \<and> xs = ys"
  by (induction a arbitrary: b) (auto simp: Cons_eq_append_conv append_eq_Cons_conv, metis+)

lemma Subject_String_inject:
  "wf_Subject s \<Longrightarrow> wf_Subject t \<Longrightarrow> Subject_String s = Subject_String t \<longleftrightarrow> s = t"
  using SubjectFromString_Inr_iff by (metis sum.inject(2))

lemma InternalRelationTuple_String_inject:
  assumes "wf_tuple t" "wf_tuple u"
  shows "InternalRelationTuple_String t = InternalRelationTuple_String u \<longleftrightarrow> t = u"
  using assms
  by (cases t; cases u) (auto simp: wf_tuple_def plain_name_def InternalRelationTuple_String_def
      append_sep_inject Subject_String_inject)

subsection \<open>Properties\<close>

text \<open>C40: parsing inverts printing, exactly on the subjects that the separators do not confuse:
  \<open>SubjectFromString\<close> of a printed subject gives the subject back if and only if a subject id has no
  \<open>#\<close> and the parts of a subject set have no \<open>#\<close> (and its namespace and object no \<open>:\<close>).\<close>

theorem subject_string_roundtrip:
  "SubjectFromString (Subject_String s) = Inr s \<longleftrightarrow> wf_Subject s"
  by (simp add: SubjectFromString_Inr_iff)

text \<open>The string under which a tuple is logged and looked up identifies it: two tuples whose names
  are free of the separators have the same string only if they are the same tuple.\<close>

theorem tuple_string_injective:
  assumes "wf_tuple t" "wf_tuple u" "InternalRelationTuple_String t = InternalRelationTuple_String u"
  shows "t = u"
  using assms by (simp add: InternalRelationTuple_String_inject)

theorem tuple_string_injective_witness:
  "InternalRelationTuple_String \<lparr>irt_Namespace = ''docs'', irt_Object = ''a'', irt_Relation = ''viewer'', irt_Subject = SubjID \<lparr>ID = ''u1''\<rparr>\<rparr> \<noteq>
   InternalRelationTuple_String \<lparr>irt_Namespace = ''docs'', irt_Object = ''a'', irt_Relation = ''viewer'', irt_Subject = SubjID \<lparr>ID = ''u2''\<rparr>\<rparr>"
proof
  let ?t = "\<lambda>u. \<lparr>irt_Namespace = ''docs'', irt_Object = ''a'', irt_Relation = ''viewer'', irt_Subject = SubjID \<lparr>ID = u\<rparr>\<rparr>"
  have wf: "wf_tuple (?t ''u1'')" "wf_tuple (?t ''u2'')"
    by (simp_all add: wf_tuple_def plain_name_def wf_Subject_def)
  assume "InternalRelationTuple_String (?t ''u1'') = InternalRelationTuple_String (?t ''u2'')"
  from tuple_string_injective [OF wf this] show False by simp
qed

text \<open>The protobuf form of a subject loses nothing: reading it back gives the subject, and a protobuf
  subject that can be read is the form of what was read.\<close>

theorem subject_proto_roundtrip:
  "SubjectFromProto (Subject_ToProto s) = Some s \<and>
   (SubjectFromProto p = Some s \<longrightarrow> Subject_ToProto s = p)"
  using SubjectToProto_FromProto by simp

theorem subject_proto_roundtrip_witness:
  "Subject_ToProto (SubjID \<lparr>ID = ''alice''\<rparr>) = Some \<lparr>pbs_Ref = Some (Subject_Id ''alice'')\<rparr>"
proof -
  have "SubjectFromProto (Some \<lparr>pbs_Ref = Some (Subject_Id ''alice'')\<rparr>) = Some (SubjID \<lparr>ID = ''alice''\<rparr>)"
    by (simp add: SubjectFromProto_def GetRef_def)
  with subject_proto_roundtrip [of "SubjID \<lparr>ID = ''alice''\<rparr>" "Some \<lparr>pbs_Ref = Some (Subject_Id ''alice'')\<rparr>"]
  show ?thesis by simp
qed

end
