(* ===== verification/Controller_State.thy ===== *)
theory Controller_State
  imports Client_Router Hash_Ring Snapshot_Choice Relation_Tuple
begin

section \<open>The state of an access controller (\<open>internal/node.go\<close>, \<open>AccessController\<close>)\<close>

text \<open>
  One node of the cluster: its configuration, its RPC clients, its hash ring and its store of config
  snapshots. The memberlist handle, the shutdown channel and the database handles behind the store
  interfaces hold no state that the modelled operations read.
\<close>

record NodeConfigs =
  ServerID :: string
  Advertise :: string
  Join :: string
  NodePort :: int
  ServerPort :: int

text \<open>\<open>NodeMetadata\<close>, with the namespace config snapshots in serialised form.\<close>

record NodeMetadata =
  meta_NodeID :: string
  meta_ServerPort :: int
  meta_NamespaceConfigSnapshots :: "(string, (time, string) gomap) gomap"

record 'r AccessController =
  RPCRouter :: mapClientRouter
  Hashring :: "'r ConsistentHashring"
  PeerStore :: inmemPeerNamespaceConfigStore
  Configs :: NodeConfigs

abbreviation server_id :: "'r AccessController \<Rightarrow> string" where
  "server_id a \<equiv> ServerID (Configs a)"

end
