(* ===== verification/Rewrite_Rules.thy ===== *)
theory Rewrite_Rules
  imports Acl_Proto
begin

section \<open>Rewrite rules of a namespace configuration\<close>

text \<open>
  The two helper functions at the end of \<open>internal/access-controller.go\<close>: looking up the rewrite of
  a relation, with the self-referencing default, and validating that a proposed rewrite refers to
  relations of the configuration only.
\<close>

subsection \<open>Definitions\<close>

text \<open>The rewrite of a relation without one: the union of \<open>_this\<close>.\<close>

definition this_rewrite :: Rewrite where
  "this_rewrite = Rewrite_Union [Child_This]"

fun rewriteFromRelations :: "string \<Rightarrow> Relation list \<Rightarrow> Rewrite option" where
  "rewriteFromRelations relation [] = None"
| "rewriteFromRelations relation (r # rs) =
     (if rel_Name r = relation
      then Some (case rel_Rewrite r of None \<Rightarrow> this_rewrite | Some rewrite \<Rightarrow> rewrite)
      else rewriteFromRelations relation rs)"

definition rewriteFromNamespaceConfig :: "string \<Rightarrow> NamespaceConfig option \<Rightarrow> Rewrite option" where
  "rewriteFromNamespaceConfig relation config = rewriteFromRelations relation (GetRelations config)"

text \<open>
  The loop over the children returns as soon as it meets a nested rewrite, with the outcome of
  validating that rewrite. A tuple-to-subjectset child without a tupleset dereferences a nil
  pointer (\<open>so.TupleToSubjectset.Tupleset.Relation\<close>).
\<close>

fun validateRewriteRelations :: "string list \<Rightarrow> Rewrite \<Rightarrow> unit result"
  and validateChildren :: "string list \<Rightarrow> SetOperation_Child list \<Rightarrow> unit result" where
  "validateRewriteRelations defined RewriteNil = Inl (ErrPlain MsgUnexpectedRewriteOperation)"
| "validateRewriteRelations defined (Rewrite_Intersection cs) = validateChildren defined cs"
| "validateRewriteRelations defined (Rewrite_Union cs) = validateChildren defined cs"
| "validateChildren defined [] = Inr ()"
| "validateChildren defined (Child_Rewrite rewr # cs) = validateRewriteRelations defined rewr"
| "validateChildren defined (Child_This # cs) = validateChildren defined cs"
| "validateChildren defined (Child_ComputedSubjectset relation # cs) =
     (if relation \<in> set defined then validateChildren defined cs
      else Inl (ErrPlain (MsgRelationReferencedUndefined relation)))"
| "validateChildren defined (Child_TupleToSubjectset tupleset _ # cs) =
     (case tupleset of
        None \<Rightarrow> Inl (Panic ''nil pointer dereference'')
      | Some relation \<Rightarrow>
          if relation \<in> set defined then validateChildren defined cs
          else Inl (ErrPlain (MsgRelationReferencedUndefined relation)))"
| "validateChildren defined (ChildNil # cs) = Inl (ErrPlain MsgUnexpectedRewriteChild)"

subsection \<open>Lookup\<close>

lemma rewriteFromRelations_None:
  "rewriteFromRelations relation rs = None \<longleftrightarrow> relation \<notin> rel_Name ` set rs"
  by (induction rs) auto

lemma rewriteFromRelations_Some:
  "rewriteFromRelations relation rs = Some rw \<Longrightarrow>
     \<exists>r \<in> set rs. rel_Name r = relation \<and>
       rw = (case rel_Rewrite r of None \<Rightarrow> this_rewrite | Some rewrite \<Rightarrow> rewrite)"
  by (induction rs) (auto split: if_splits)

lemma rewriteFromNamespaceConfig_None:
  "rewriteFromNamespaceConfig relation config = None \<longleftrightarrow> relation \<notin> rel_Name ` set (GetRelations config)"
  by (simp add: rewriteFromNamespaceConfig_def rewriteFromRelations_None)

lemma rewriteFromNamespaceConfig_nil [simp]: "rewriteFromNamespaceConfig relation None = None"
  by (simp add: rewriteFromNamespaceConfig_def GetRelations_def)

subsection \<open>Well-formed rewrites\<close>

text \<open>
  The specification of validation: every reference, at every level, names a defined relation, and
  no oneof of the rewrite is unset.
\<close>

fun rewrite_defined :: "string list \<Rightarrow> Rewrite \<Rightarrow> bool"
  and child_defined :: "string list \<Rightarrow> SetOperation_Child \<Rightarrow> bool" where
  "rewrite_defined d RewriteNil = False"
| "rewrite_defined d (Rewrite_Union cs) = list_all (child_defined d) cs"
| "rewrite_defined d (Rewrite_Intersection cs) = list_all (child_defined d) cs"
| "child_defined d ChildNil = False"
| "child_defined d Child_This = True"
| "child_defined d (Child_ComputedSubjectset relation) = (relation \<in> set d)"
| "child_defined d (Child_TupleToSubjectset tupleset _) = (\<exists>relation \<in> set d. tupleset = Some relation)"
| "child_defined d (Child_Rewrite r) = rewrite_defined d r"

text \<open>Rewrites whose nested rewrites stand last among their siblings.\<close>

fun nested_last :: "Rewrite \<Rightarrow> bool" and nested_last_child :: "SetOperation_Child \<Rightarrow> bool" where
  "nested_last RewriteNil = True"
| "nested_last (Rewrite_Union cs) =
     (list_all (\<lambda>c. GetRewrite c = None) (butlast cs) \<and> list_all nested_last_child cs)"
| "nested_last (Rewrite_Intersection cs) =
     (list_all (\<lambda>c. GetRewrite c = None) (butlast cs) \<and> list_all nested_last_child cs)"
| "nested_last_child (Child_Rewrite r) = nested_last r"
| "nested_last_child c = True"

lemma validateChildren_prefix:
  "list_all (\<lambda>c. GetRewrite c = None) pre \<Longrightarrow> list_all (child_defined d) pre \<Longrightarrow>
     validateChildren d (pre @ cs) = validateChildren d cs"
proof (induction pre)
  case (Cons c pre)
  then show ?case by (cases c) auto
qed simp

lemma validate_complete:
  "rewrite_defined d r \<Longrightarrow> validateRewriteRelations d r = Inr ()"
  "list_all (child_defined d) cs \<Longrightarrow> validateChildren d cs = Inr ()"
  by (induction d r and d cs rule: validateRewriteRelations_validateChildren.induct)
    (auto split: option.splits)

lemma validate_sound:
  "validateRewriteRelations d r = Inr () \<Longrightarrow> nested_last r \<Longrightarrow> rewrite_defined d r"
  "validateChildren d cs = Inr () \<Longrightarrow> list_all (\<lambda>c. GetRewrite c = None) (butlast cs) \<Longrightarrow>
     list_all nested_last_child cs \<Longrightarrow> list_all (child_defined d) cs"
proof (induction d r and d cs rule: validateRewriteRelations_validateChildren.induct)
  case (5 d rewr cs)
  then show ?case by (cases cs) auto
qed (auto split: if_splits option.splits)

subsection \<open>Properties\<close>

text \<open>C34: on rewrites whose nested rewrites stand last among their siblings, at every level,
  \<open>validateRewriteRelations\<close> accepts exactly the rewrites all of whose references are defined.\<close>

theorem validate_iff_defined:
  "nested_last r \<Longrightarrow> validateRewriteRelations d r = Inr () \<longleftrightarrow> rewrite_defined d r"
  using validate_complete(1) validate_sound(1) by blast

definition editor_rewrite :: Rewrite where
  "editor_rewrite = Rewrite_Union [Child_This, Child_ComputedSubjectset ''owner'',
     Child_Rewrite (Rewrite_Intersection [Child_TupleToSubjectset (Some ''parent'') (Some ''editor'')])]"

theorem validate_iff_defined_witness:
  "nested_last editor_rewrite \<and>
   (validateRewriteRelations [''owner'', ''parent''] editor_rewrite = Inr ()) =
     rewrite_defined [''owner'', ''parent''] editor_rewrite"
  using validate_iff_defined [of editor_rewrite "[''owner'', ''parent'']"]
  by (simp add: editor_rewrite_def)

lemma validateChildren_stops:
  "validateChildren d (pre @ Child_Rewrite r # cs) = validateChildren d (pre @ [Child_Rewrite r])"
proof (induction pre)
  case (Cons c pre)
  then show ?case by (cases c) (auto split: option.split)
qed simp

text \<open>C35: validation stops at the first nested rewrite: whatever children follow it, of a union or of
  an intersection, are not looked at, so the outcome does not depend on them and undefined relations
  among them are accepted.\<close>

theorem validate_ignores_siblings:
  "validateRewriteRelations d (Rewrite_Union (pre @ Child_Rewrite r # cs)) =
     validateRewriteRelations d (Rewrite_Union (pre @ [Child_Rewrite r]))
   \<and> validateRewriteRelations d (Rewrite_Intersection (pre @ Child_Rewrite r # cs)) =
     validateRewriteRelations d (Rewrite_Intersection (pre @ [Child_Rewrite r]))"
  using validateChildren_stops by simp

text \<open>A tuple-to-subjectset child without a tupleset, behind children that validate, makes
  validation dereference a nil pointer.\<close>

theorem validate_panics_without_tupleset:
  assumes "list_all (\<lambda>c. GetRewrite c = None) pre" "list_all (child_defined d) pre"
  shows "validateRewriteRelations d (Rewrite_Union (pre @ Child_TupleToSubjectset None computed # cs)) =
     Inl (Panic ''nil pointer dereference'')"
  using validateChildren_prefix [OF assms] by simp

theorem validate_panics_without_tupleset_witness:
  "validateRewriteRelations [''viewer''] (Rewrite_Union [Child_This, Child_TupleToSubjectset None (Some ''viewer'')]) =
     Inl (Panic ''nil pointer dereference'')"
  using validate_panics_without_tupleset [of "[Child_This]" "[''viewer'']" "Some ''viewer''" "[]"] by simp

end
