(* ===== verification/Check_Engine.thy ===== *)
theory Check_Engine
  imports Controller_State Rewrite_Rules
begin

section \<open>Evaluating checks (\<open>checkLeaf\<close>, \<open>checkRewrite\<close>, \<open>check\<close>, \<open>Check\<close>)\<close>

text \<open>
  A check is not deterministic: the children of a rewrite run concurrently and the first decisive
  message wins, a store read or an RPC may fail, and a context may be cancelled at any moment. Each
  operation therefore computes the \<^emph>\<open>list of its possible outcomes\<close>. An operation that has not
  returned within the given fuel has no outcome: the list is empty where the code is still running.

  \<^item> The relation tuple store is a record of its read operations, each with the results one call can
    have (the store may answer, or fail).
  \<^item> The recursive call \<open>a.check\<close> is the parameter \<open>chk\<close> of \<open>checkLeaf\<close>, \<open>checkRewrite\<close> and
    \<open>check_body\<close>; \<open>check\<close> ties the knot with fuel. One unit of fuel pays for one nested call of
    \<open>a.check\<close>, local or on a peer.
  \<^item> A peer is reached through \<open>cluster\<close>: the node listening at an address, the transport errors a
    call there may end in, and what a context is on the server's side of an RPC (\<open>cl_wire\<close>).
  \<^item> A panic is an error outcome: no code of the repository recovers from one.
\<close>

subsection \<open>Definitions\<close>

type_synonym outcome = "bool result"

type_synonym check_fun = "go_context \<Rightarrow> string \<Rightarrow> string \<Rightarrow> string \<Rightarrow> string \<Rightarrow> outcome list"

record tuple_store =
  store_RowCount :: "RelationTupleQuery \<Rightarrow> int result list"
  store_SubjectSets :: "Object \<Rightarrow> string list \<Rightarrow> SubjectSet list result list"

text \<open>The loop over subject sets: stop at the first error or the first permission.\<close>

fun anyPermitted :: "(SubjectSet \<Rightarrow> outcome list) \<Rightarrow> SubjectSet list \<Rightarrow> outcome list" where
  "anyPermitted chk [] = [Inr False]"
| "anyPermitted chk (s # ss) =
     onResult (chk s) (\<lambda>err. [Inl err])
       (\<lambda>permitted. if permitted then [Inr True] else anyPermitted chk ss)"

definition checkSubjects :: "SubjectSet list result list \<Rightarrow> (SubjectSet \<Rightarrow> outcome list) \<Rightarrow> outcome list" where
  "checkSubjects reads chk =
     onResult reads (\<lambda>_. [Inl internalErrorStatus]) (\<lambda>subjects. anyPermitted chk subjects)"

definition checkLeaf ::
  "tuple_store \<Rightarrow> check_fun \<Rightarrow> go_context \<Rightarrow> SetOperation_Child \<Rightarrow> string \<Rightarrow> string \<Rightarrow> string \<Rightarrow> string \<Rightarrow> outcome list" where
  "checkLeaf store chk ctx op namespace object relation user =
     (let obj = \<lparr>obj_Namespace = namespace, obj_ID = object\<rparr> in
      case op of
        Child_This \<Rightarrow>
          (let query = \<lparr>q_Object = obj, q_Relations = [relation], q_Subject = SubjID \<lparr>ID = user\<rparr>\<rparr> in
           onResult (store_RowCount store query) (\<lambda>_. [Inl internalErrorStatus])
             (\<lambda>count. if count > 0 then [Inr True]
                else checkSubjects (store_SubjectSets store obj [relation])
                  (\<lambda>s. chk ctx (ss_Namespace s) (ss_Object s) (ss_Relation s) user)))
      | Child_ComputedSubjectset r \<Rightarrow> chk ctx namespace object r user
      | Child_TupleToSubjectset tupleset computed \<Rightarrow>
          checkSubjects (store_SubjectSets store obj [GetString tupleset])
            (\<lambda>s. chk ctx (ss_Namespace s) (ss_Object s)
               (if ss_Relation s = ''...'' then GetString computed else ss_Relation s) user)
      | _ \<Rightarrow> [Inr False])"

text \<open>
  The \<open>select\<close> of \<open>checkRewrite\<close>: the outcome is the first message received, from a child that
  failed, from a child whose answer decides the operation, or from the goroutine that waits until
  every child has finished without either; or the context's error. \<open>Rewrite_Race\<close> derives these
  outcomes from the steps of the goroutines.
\<close>

definition ctxOutcomes :: "go_context \<Rightarrow> outcome list" where
  "ctxOutcomes ctx = (case ctx_done ctx of None \<Rightarrow> [] | Some c \<Rightarrow> [Inl (ErrContext c)])"

definition childErrors :: "outcome list list \<Rightarrow> outcome list" where
  "childErrors rs = filter (\<lambda>r. \<not> is_ok r) (concat rs)"

definition selectOutcomes :: "bool \<Rightarrow> go_context \<Rightarrow> outcome list list \<Rightarrow> outcome list" where
  "selectOutcomes decisive ctx rs =
     childErrors rs
     @ (if list_ex (\<lambda>r. Inr decisive \<in> set r) rs then [Inr decisive] else [])
     @ (if list_all (\<lambda>r. Inr (\<not> decisive) \<in> set r) rs then [Inr (\<not> decisive)] else [])
     @ ctxOutcomes ctx"

fun checkRewrite ::
  "tuple_store \<Rightarrow> check_fun \<Rightarrow> go_context \<Rightarrow> Rewrite \<Rightarrow> string \<Rightarrow> string \<Rightarrow> string \<Rightarrow> string \<Rightarrow> outcome list"
  and checkChild ::
  "tuple_store \<Rightarrow> check_fun \<Rightarrow> go_context \<Rightarrow> SetOperation_Child \<Rightarrow> string \<Rightarrow> string \<Rightarrow> string \<Rightarrow> string \<Rightarrow> outcome list"
where
  "checkRewrite store chk ctx (Rewrite_Intersection cs) namespace object relation user =
     selectOutcomes False ctx (map (\<lambda>c. checkChild store chk ctx c namespace object relation user) cs)"
| "checkRewrite store chk ctx (Rewrite_Union cs) namespace object relation user =
     selectOutcomes True ctx (map (\<lambda>c. checkChild store chk ctx c namespace object relation user) cs)"
| "checkRewrite store chk ctx RewriteNil namespace object relation user = [Inr False]"
| "checkChild store chk ctx (Child_Rewrite rewrite) namespace object relation user =
     checkRewrite store chk ctx rewrite namespace object relation user"
| "checkChild store chk ctx c namespace object relation user =
     checkLeaf store chk ctx c namespace object relation user"

subsubsection \<open>The configuration a check is evaluated at\<close>

definition nsUndefinedStatus :: "string \<Rightarrow> error" where
  "nsUndefinedStatus namespace =
     NamespaceConfigError_ToStatus (MsgNamespaceUndefined namespace) NamespaceDoesntExist"

definition checkConfig ::
  "'r AccessController \<Rightarrow> go_context \<Rightarrow> string \<Rightarrow> (NamespaceConfig \<times> go_context) result" where
  "checkConfig a ctx namespace =
     (case (case NamespaceConfigTimestampFromContext ctx namespace of
              Some peerNamespaceCfgTs \<Rightarrow> Inr (peerNamespaceCfgTs, ctx)
            | None \<Rightarrow>
                (case chooseNamespaceConfigSnapshot (PeerStore a) namespace of
                   Inl err \<Rightarrow> Inl (if err = ErrNoLocalNamespacesDefined then nsUndefinedStatus namespace
                                  else internalErrorStatus)
                 | Inr snapshot \<Rightarrow> Inr (snap_Timestamp snapshot,
                     NewContextWithNamespaceConfigTimestamp ctx namespace (snap_Timestamp snapshot)))) of
        Inl err \<Rightarrow> Inl err
      | Inr (snapshotTimestamp, ctx') \<Rightarrow>
          (case GetNamespaceConfigSnapshot (PeerStore a) (server_id a) namespace snapshotTimestamp of
             Inl _ \<Rightarrow> Inl internalErrorStatus
           | Inr None \<Rightarrow> Inl (nsUndefinedStatus namespace)
           | Inr (Some cfg) \<Rightarrow> Inr (cfg, ctx')))"

subsubsection \<open>Proxying to the owner of the object\<close>

text \<open>
  The retry loop, entered with the result of the first call. \<open>locate\<close> and \<open>getClient\<close> are the hash
  ring and the router as the loop finds them on its \<open>retries\<close>-th turn. An outcome carries the log of
  the nodes that were called on the way.
\<close>

datatype proxied = Answer bool | Evaluate | Crash string

function proxyRetries ::
  "string \<Rightarrow> (nat \<Rightarrow> string option) \<Rightarrow> (nat \<Rightarrow> string \<Rightarrow> rpc_client result) \<Rightarrow> (string \<Rightarrow> outcome list)
     \<Rightarrow> nat \<Rightarrow> string list \<Rightarrow> outcome \<Rightarrow> (string list \<times> proxied) list" where
  "proxyRetries self locate getClient call retries log res =
     (case res of
        Inr allowed \<Rightarrow> [(log, Answer allowed)]
      | Inl err \<Rightarrow>
          if status_Code err = Canceled then [(log, Evaluate)]
          else if retries > 5 then [(log, Evaluate)]
          else
            (case locate retries of
               None \<Rightarrow> [(log, Crash ''nil hashring member'')]
             | Some forwardingNodeID \<Rightarrow>
                 if forwardingNodeID = self then [(log, Evaluate)]
                 else
                   (case getClient retries forwardingNodeID of
                      Inl err' \<Rightarrow> proxyRetries self locate getClient call (Suc retries) log (Inl err')
                    | Inr OtherClient \<Rightarrow> [(log, Crash ''unexpected RPC client type encountered'')]
                    | Inr (CheckServiceClient addr) \<Rightarrow>
                        concat (map (proxyRetries self locate getClient call (Suc retries)
                          (log @ [forwardingNodeID])) (call addr)))))"
  by pat_completeness auto
termination
  by (relation "measure (\<lambda>(_, _, _, _, retries, _, _). 7 - retries)") auto

declare proxyRetries.simps [simp del]

definition proxyOutcomes :: "(string list \<times> proxied) list \<Rightarrow> outcome list \<Rightarrow> outcome list" where
  "proxyOutcomes ps evaluate =
     concat (map (\<lambda>lp. case snd lp of
        Answer allowed \<Rightarrow> [Inr allowed]
      | Crash m \<Rightarrow> [Inl (Panic m)]
      | Evaluate \<Rightarrow> evaluate) ps)"

definition check_body ::
  "'r consistent_lib \<Rightarrow> 'r AccessController \<Rightarrow> tuple_store \<Rightarrow> check_fun
     \<Rightarrow> (string \<Rightarrow> go_context \<Rightarrow> CheckRequest \<Rightarrow> outcome list) \<Rightarrow> check_fun" where
  "check_body L a store chk remote ctx namespace object relation subject =
     (if (case ChecksumFromContext ctx of Some peerChecksum \<Rightarrow> ring_Checksum L (Hashring a) \<noteq> peerChecksum
          | None \<Rightarrow> False)
      then [Inl internalErrorStatus]
      else
        (case checkConfig a ctx namespace of
           Inl err \<Rightarrow> [Inl err]
         | Inr (cfg, ctx1) \<Rightarrow>
             (case rewriteFromNamespaceConfig relation (Some cfg) of
                None \<Rightarrow> [Inr False]
              | Some rewrite \<Rightarrow>
                  (case ring_LocateKey L (Hashring a) object of
                     None \<Rightarrow> [Inl (Panic ''nil hashring member'')]
                   | Some forwardingNodeID \<Rightarrow>
                       if forwardingNodeID \<noteq> server_id a then
                         (case GetClient (RPCRouter a) forwardingNodeID of
                            Inl _ \<Rightarrow> [Inl internalErrorStatus]
                          | Inr OtherClient \<Rightarrow> [Inl (Panic ''unexpected rpc client type encountered'')]
                          | Inr (CheckServiceClient addr) \<Rightarrow>
                              (let ctx2 = NewContextWithChecksum ctx1 (ring_Checksum L (Hashring a));
                                   req = \<lparr>chk_Namespace = namespace, chk_Object = object,
                                     chk_Relation = relation,
                                     chk_Subject = SubjectID_ToProto (Some \<lparr>ID = subject\<rparr>)\<rparr>
                               in proxyOutcomes
                                    (concat (map (proxyRetries (server_id a)
                                        (\<lambda>_. ring_LocateKey L (Hashring a) object)
                                        (\<lambda>_. GetClient (RPCRouter a)) (\<lambda>ad. remote ad ctx2 req)
                                        0 [forwardingNodeID]) (remote addr ctx2 req)))
                                    (checkRewrite store chk ctx2 rewrite namespace object relation subject)))
                       else checkRewrite store chk ctx1 rewrite namespace object relation subject))))"

text \<open>The RPC handler; the response carries the one field \<open>allowed\<close>.\<close>

definition requiredStatus :: "string \<Rightarrow> error" where
  "requiredStatus field = Status InvalidArgument (MsgRequired field)"

definition Check :: "check_fun \<Rightarrow> go_context \<Rightarrow> CheckRequest \<Rightarrow> outcome list" where
  "Check chk ctx req =
     (if chk_Namespace req = '''' then [Inl (requiredStatus ''namespace'')]
      else if chk_Object req = '''' then [Inl (requiredStatus ''object'')]
      else if chk_Relation req = '''' then [Inl (requiredStatus ''relation'')]
      else
        (case SubjectFromProto (chk_Subject req) of
           None \<Rightarrow> [Inl (requiredStatus ''subject'')]
         | Some subject \<Rightarrow>
             chk ctx (chk_Namespace req) (chk_Object req) (chk_Relation req) (Subject_String subject)))"

subsubsection \<open>The cluster\<close>

record 'r cluster =
  cl_lib :: "'r consistent_lib"
  cl_store :: tuple_store
  cl_server :: "string \<Rightarrow> 'r AccessController option"
  cl_transport :: "string \<Rightarrow> error list"
  cl_wire :: "go_context \<Rightarrow> go_context"

text \<open>
  An error of a handler as its client sees it: a context error becomes the status with its code, a
  crash is an unavailable server, and what is no status has the code \<open>Unknown\<close>.
\<close>

fun rpc_error :: "error \<Rightarrow> error" where
  "rpc_error (Status c m) = Status c m"
| "rpc_error (ErrContext c) = Status c MsgInternal"
| "rpc_error (Panic m) = Status Unavailable MsgInternal"
| "rpc_error e = Status Unknown MsgInternal"

text \<open>The \<open>Check\<close> method of a gRPC client, with the node's own \<open>check\<close> behind the handler.\<close>

definition callPeer ::
  "'r cluster \<Rightarrow> ('r AccessController \<Rightarrow> check_fun) \<Rightarrow> string \<Rightarrow> go_context \<Rightarrow> CheckRequest \<Rightarrow> outcome list" where
  "callPeer C chk addr ctx req =
     map Inl (cl_transport C addr) @
     (case cl_server C addr of
        None \<Rightarrow> []
      | Some b \<Rightarrow> map (map_sum rpc_error id) (Check (chk b) (cl_wire C ctx) req))"

fun check :: "'r cluster \<Rightarrow> nat \<Rightarrow> 'r AccessController \<Rightarrow> check_fun" where
  "check C 0 a ctx namespace object relation subject = []"
| "check C (Suc k) a ctx namespace object relation subject =
     check_body (cl_lib C) a (cl_store C) (check C k a) (callPeer C (check C k))
       ctx namespace object relation subject"

end
