(* ===== verification/Check_Spec.thy ===== *)
theory Check_Spec
  imports Check_Engine
begin

section \<open>What a check decides\<close>

text \<open>
  The specification of \<open>Check\<close>: the least relation between subjects and objects that the relation
  tuples and the rewrite rules generate. \<open>acl\<close> is what the specification is about: the rewrite of
  each relation of each namespace, the subjects stored with an object and a relation, and the subject
  sets among them.

  The client side of the \<open>RelationTupleStore\<close> interface is the locale \<open>tuple_reader\<close>: a successful
  read of the store answers from the tuples. In it the evaluation functions are proved to decide the
  specification, for every possible outcome.
\<close>

subsection \<open>The relation that tuples and rewrites define\<close>

record acl =
  acl_rules :: "string \<Rightarrow> string \<Rightarrow> Rewrite option"
  acl_direct :: "string \<Rightarrow> string \<Rightarrow> string \<Rightarrow> string set"
  acl_sets :: "string \<Rightarrow> string \<Rightarrow> string \<Rightarrow> SubjectSet set"

inductive related :: "acl \<Rightarrow> string \<Rightarrow> string \<Rightarrow> string \<Rightarrow> string \<Rightarrow> bool"
  and sat_rewrite :: "acl \<Rightarrow> string \<Rightarrow> Rewrite \<Rightarrow> string \<Rightarrow> string \<Rightarrow> string \<Rightarrow> bool"
  and sat_child :: "acl \<Rightarrow> string \<Rightarrow> SetOperation_Child \<Rightarrow> string \<Rightarrow> string \<Rightarrow> string \<Rightarrow> bool"
  for A u where
  by_rule: "acl_rules A ns rel = Some rw \<Longrightarrow> sat_rewrite A u rw ns obj rel \<Longrightarrow> related A u ns obj rel"
| by_union: "c \<in> set cs \<Longrightarrow> sat_child A u c ns obj rel \<Longrightarrow> sat_rewrite A u (Rewrite_Union cs) ns obj rel"
| by_intersection: "(\<forall>c \<in> set cs. sat_child A u c ns obj rel) \<Longrightarrow>
    sat_rewrite A u (Rewrite_Intersection cs) ns obj rel"
| this_direct: "u \<in> acl_direct A ns obj rel \<Longrightarrow> sat_child A u Child_This ns obj rel"
| this_indirect: "s \<in> acl_sets A ns obj rel \<Longrightarrow>
    related A u (ss_Namespace s) (ss_Object s) (ss_Relation s) \<Longrightarrow> sat_child A u Child_This ns obj rel"
| computed: "related A u ns obj r \<Longrightarrow> sat_child A u (Child_ComputedSubjectset r) ns obj rel"
| tuple_to: "s \<in> acl_sets A ns obj (GetString tupleset) \<Longrightarrow>
    related A u (ss_Namespace s) (ss_Object s)
      (if ss_Relation s = ''...'' then GetString cset else ss_Relation s) \<Longrightarrow>
    sat_child A u (Child_TupleToSubjectset tupleset cset) ns obj rel"
| nested: "sat_rewrite A u rw ns obj rel \<Longrightarrow> sat_child A u (Child_Rewrite rw) ns obj rel"

inductive_simps related_iff: "related A u ns obj rel"
inductive_simps sat_rewrite_simps [simp]:
  "sat_rewrite A u (Rewrite_Union cs) ns obj rel"
  "sat_rewrite A u (Rewrite_Intersection cs) ns obj rel"
  "sat_rewrite A u RewriteNil ns obj rel"
inductive_simps sat_child_simps [simp]:
  "sat_child A u Child_This ns obj rel"
  "sat_child A u (Child_ComputedSubjectset r) ns obj rel"
  "sat_child A u (Child_TupleToSubjectset tupleset cset) ns obj rel"
  "sat_child A u (Child_Rewrite rw) ns obj rel"
  "sat_child A u ChildNil ns obj rel"

lemmas nested_iff = sat_child_simps(4)

text \<open>No rule subtracts: more tuples relate more subjects.\<close>

lemma related_mono:
  assumes "acl_rules B = acl_rules A" "\<And>ns obj rel. acl_direct A ns obj rel \<subseteq> acl_direct B ns obj rel"
    and "\<And>ns obj rel. acl_sets A ns obj rel \<subseteq> acl_sets B ns obj rel"
  shows "related A u ns obj rel \<Longrightarrow> related B u ns obj rel"
    and "sat_rewrite A u rw ns obj rel \<Longrightarrow> sat_rewrite B u rw ns obj rel"
    and "sat_child A u c ns obj rel \<Longrightarrow> sat_child B u c ns obj rel"
proof (induction rule: related_sat_rewrite_sat_child.inducts)
  case (this_direct ns obj rel)
  with assms(2) [of ns obj rel] show ?case by auto
next
  case (this_indirect s ns obj rel)
  with assms(3) [of ns obj rel] show ?case by auto
next
  case (tuple_to s ns obj tupleset cset rel)
  with assms(3) [of ns obj "GetString tupleset"] show ?case by auto
qed (auto simp: assms(1) related_iff [of B])

subsection \<open>Possible outcomes\<close>

lemma childErrors_iff [outcome_simps]:
  "Inr b \<notin> set (childErrors rs)" "Inl e \<in> set (childErrors rs) \<longleftrightarrow> (\<exists>r \<in> set rs. Inl e \<in> set r)"
  by (auto simp: childErrors_def)

lemma ctxOutcomes_iff [outcome_simps]:
  "Inr b \<notin> set (ctxOutcomes ctx)"
  "Inl e \<in> set (ctxOutcomes ctx) \<longleftrightarrow> (\<exists>c. ctx_done ctx = Some c \<and> e = ErrContext c)"
  by (auto simp: ctxOutcomes_def split: option.splits)

lemma selectOutcomes_Inr [outcome_simps]:
  "Inr b \<in> set (selectOutcomes d ctx rs) \<longleftrightarrow>
     (b = d \<and> (\<exists>r \<in> set rs. Inr d \<in> set r)) \<or> (b = (\<not> d) \<and> (\<forall>r \<in> set rs. Inr (\<not> d) \<in> set r))"
  by (auto simp: selectOutcomes_def list_ex_iff list_all_iff childErrors_iff ctxOutcomes_iff)

lemma selectOutcomes_Inl [outcome_simps]:
  "Inl e \<in> set (selectOutcomes d ctx rs) \<longleftrightarrow>
     (\<exists>r \<in> set rs. Inl e \<in> set r) \<or> (\<exists>c. ctx_done ctx = Some c \<and> e = ErrContext c)"
  by (auto simp: selectOutcomes_def childErrors_iff ctxOutcomes_iff)

lemma anyPermitted_Inr:
  assumes "\<And>s b. s \<in> set ss \<Longrightarrow> Inr b \<in> set (chk s) \<Longrightarrow> b = P s"
  shows "Inr b \<in> set (anyPermitted chk ss) \<Longrightarrow> b = (\<exists>s \<in> set ss. P s)"
  using assms
proof (induction ss)
  case (Cons s ss)
  from Cons.prems(1) obtain p where p: "Inr p \<in> set (chk s)"
    "Inr b \<in> set (if p then [Inr True] else anyPermitted chk ss)"
    by (auto simp: outcome_simps)
  with Cons.prems(2) [of s p] have "p = P s" by simp
  moreover have "b = (\<exists>s \<in> set ss. P s)" if "Inr b \<in> set (anyPermitted chk ss)"
    by (rule Cons.IH [OF that]) (simp add: Cons.prems(2))
  ultimately show ?case using p(2) by (cases p) simp_all
qed simp

lemma anyPermitted_True:
  "Inr True \<in> set (anyPermitted chk ss) \<Longrightarrow> \<exists>s \<in> set ss. Inr True \<in> set (chk s)"
proof (induction ss)
  case (Cons s ss)
  then consider p where "Inr p \<in> set (chk s)" "p" | "Inr True \<in> set (anyPermitted chk ss)"
    by (auto simp: outcome_simps split: if_splits)
  then show ?case using Cons.IH by cases auto
qed simp

lemma checkSubjects_Inr:
  "Inr b \<in> set (checkSubjects reads chk) \<longleftrightarrow> (\<exists>ss. Inr ss \<in> set reads \<and> Inr b \<in> set (anyPermitted chk ss))"
  by (simp add: checkSubjects_def outcome_simps)

lemma proxyOutcomes_Inr [outcome_simps]:
  "Inr b \<in> set (proxyOutcomes ps ev) \<longleftrightarrow>
     (\<exists>log. (log, Answer b) \<in> set ps) \<or> ((\<exists>log. (log, Evaluate) \<in> set ps) \<and> Inr b \<in> set ev)"
proof (induction ps)
  case (Cons p ps)
  then show ?case
    by (cases p; cases "snd p") (auto simp: proxyOutcomes_def)
qed (simp add: proxyOutcomes_def)

text \<open>One turn of the retry loop: it ends, or it goes on after one more call or a missing client.\<close>

lemma proxyRetries_turn:
  assumes "(log', p) \<in> set (proxyRetries self locate getClient call n log res)"
  obtains (stop) "log' = log" "\<And>b. p = Answer b \<Longrightarrow> res = Inr b"
  | (no_client) err' where "n \<le> 5" "(log', p) \<in> set (proxyRetries self locate getClient call (Suc n) log (Inl err'))"
  | (called) m addr r where "n \<le> 5" "r \<in> set (call addr)"
      "(log', p) \<in> set (proxyRetries self locate getClient call (Suc n) (log @ [m]) r)"
  using assms
  by (subst (asm) proxyRetries.simps)
    (auto split: sum.splits if_splits option.splits rpc_client.splits)

lemma proxyRetries_Answer:
  "(log', Answer b) \<in> set (proxyRetries self locate getClient call n log res) \<Longrightarrow>
     res = Inr b \<or> (\<exists>addr. Inr b \<in> set (call addr))"
proof (induction "6 - n" arbitrary: n log res rule: less_induct)
  case less
  from less.prems show ?case
  proof (cases rule: proxyRetries_turn)
    case (no_client err')
    with less.hyps [of "Suc n" log "Inl err'"] show ?thesis by auto
  next
    case (called m addr r)
    with less.hyps [of "Suc n" "log @ [m]" r] show ?thesis by auto
  qed simp
qed

lemma proxyRetries_log:
  "(log', p) \<in> set (proxyRetries self locate getClient call n log res) \<Longrightarrow> length log' \<le> length log + (6 - n)"
proof (induction "6 - n" arbitrary: n log res rule: less_induct)
  case less
  from less.prems show ?case
  proof (cases rule: proxyRetries_turn)
    case (no_client err')
    with less.hyps [of "Suc n" log "Inl err'"] have "length log' \<le> length log + (6 - Suc n)" by simp
    with no_client(1) show ?thesis by simp
  next
    case (called m addr r)
    with less.hyps [of "Suc n" "log @ [m]" r] have "length log' \<le> length (log @ [m]) + (6 - Suc n)" by simp
    with called(1) show ?thesis by simp
  qed simp
qed

subsection \<open>The configuration of a node\<close>

text \<open>
  \<open>node_config\<close> is the configuration a request without a timestamp in its context is evaluated at.
  The contexts that a check passes on carry no other timestamps (\<open>snapshot_ctx\<close>).
\<close>

definition node_config :: "'r AccessController \<Rightarrow> string \<Rightarrow> NamespaceConfig option" where
  "node_config a ns =
     (case chooseNamespaceConfigSnapshot (PeerStore a) ns of
        Inl _ \<Rightarrow> None
      | Inr s \<Rightarrow> snapshot_at (PeerStore a) (server_id a) ns (snap_Timestamp s))"

definition snapshot_ctx :: "'r AccessController \<Rightarrow> go_context \<Rightarrow> bool" where
  "snapshot_ctx a ctx \<longleftrightarrow>
     (\<forall>ns ts. NamespaceConfigTimestampFromContext ctx ns = Some ts \<longrightarrow>
        (\<exists>s. chooseNamespaceConfigSnapshot (PeerStore a) ns = Inr s \<and> snap_Timestamp s = ts))"

definition checksum_ctx :: "'r consistent_lib \<Rightarrow> 'r AccessController \<Rightarrow> go_context \<Rightarrow> bool" where
  "checksum_ctx L a ctx \<longleftrightarrow>
     (\<forall>c. ChecksumFromContext ctx = Some c \<longrightarrow> c = ring_Checksum L (Hashring a))"

lemma TimestampFromContext_NewChecksum [simp]:
  "NamespaceConfigTimestampFromContext (NewContextWithChecksum ctx c) ns = NamespaceConfigTimestampFromContext ctx ns"
  by (simp add: NamespaceConfigTimestampFromContext_def NewContextWithChecksum_def)

lemma ChecksumFromContext_NewTimestamp [simp]:
  "ChecksumFromContext (NewContextWithNamespaceConfigTimestamp ctx n t) = ChecksumFromContext ctx"
  by (simp add: ChecksumFromContext_def NewContextWithNamespaceConfigTimestamp_def)

lemma snapshot_ctx_NewChecksum [simp]:
  "snapshot_ctx a (NewContextWithChecksum ctx c) = snapshot_ctx a ctx"
  by (simp add: snapshot_ctx_def)

lemma empty_ctx [simp]:
  "ctx_values ctx = [] \<Longrightarrow> snapshot_ctx a ctx" "ctx_values ctx = [] \<Longrightarrow> checksum_ctx L a ctx"
  by (simp_all add: snapshot_ctx_def checksum_ctx_def NamespaceConfigTimestampFromContext_def
      ChecksumFromContext_def context_Value_def)

lemma checkConfig_snapshot:
  assumes "snapshot_ctx a ctx" "checkConfig a ctx ns = Inr (cfg, ctx')"
  shows "node_config a ns = Some cfg \<and> snapshot_ctx a ctx' \<and> ctx_done ctx' = ctx_done ctx
    \<and> ChecksumFromContext ctx' = ChecksumFromContext ctx"
proof (cases "NamespaceConfigTimestampFromContext ctx ns")
  case None
  with assms(2) obtain s where s: "chooseNamespaceConfigSnapshot (PeerStore a) ns = Inr s"
    "snapshot_at (PeerStore a) (server_id a) ns (snap_Timestamp s) = Some cfg"
    "ctx' = NewContextWithNamespaceConfigTimestamp ctx ns (snap_Timestamp s)"
    by (auto simp: checkConfig_def GetNamespaceConfigSnapshot_eq split: sum.splits option.splits)
  with assms(1) show ?thesis by (auto simp: node_config_def snapshot_ctx_def)
next
  case (Some ts)
  with assms(1) obtain s where s: "chooseNamespaceConfigSnapshot (PeerStore a) ns = Inr s" "snap_Timestamp s = ts"
    unfolding snapshot_ctx_def by blast
  with Some assms show ?thesis
    by (auto simp: checkConfig_def node_config_def GetNamespaceConfigSnapshot_eq split: option.splits)
qed

lemma checkConfig_defined:
  assumes "snapshot_ctx a ctx" "node_config a ns = Some cfg"
  shows "\<exists>ctx'. checkConfig a ctx ns = Inr (cfg, ctx')"
proof -
  obtain s where s: "chooseNamespaceConfigSnapshot (PeerStore a) ns = Inr s"
    "snapshot_at (PeerStore a) (server_id a) ns (snap_Timestamp s) = Some cfg"
    using assms(2) by (auto simp: node_config_def split: sum.splits)
  show ?thesis
  proof (cases "NamespaceConfigTimestampFromContext ctx ns")
    case (Some ts)
    with assms(1) s(1) have "ts = snap_Timestamp s" by (fastforce simp: snapshot_ctx_def)
    with Some s show ?thesis by (simp add: checkConfig_def GetNamespaceConfigSnapshot_eq)
  qed (simp add: checkConfig_def GetNamespaceConfigSnapshot_eq s)
qed

text \<open>
  Where a verdict comes from: the relation has no rewrite, the rewrite was evaluated here, or a peer
  answered.
\<close>

definition check_request :: "string \<Rightarrow> string \<Rightarrow> string \<Rightarrow> string \<Rightarrow> CheckRequest" where
  "check_request ns obj rel u = \<lparr>chk_Namespace = ns, chk_Object = obj, chk_Relation = rel,
     chk_Subject = SubjectID_ToProto (Some \<lparr>ID = u\<rparr>)\<rparr>"

lemma check_body_cases:
  assumes out: "Inr b \<in> set (check_body L a store chk remote ctx ns obj rel u)" and ctx: "snapshot_ctx a ctx"
  obtains (undefined) cfg where "node_config a ns = Some cfg" "rewriteFromNamespaceConfig rel (Some cfg) = None"
      "b = False"
  | (evaluated) cfg rw ctx' where "node_config a ns = Some cfg" "rewriteFromNamespaceConfig rel (Some cfg) = Some rw"
      "snapshot_ctx a ctx'" "Inr b \<in> set (checkRewrite store chk ctx' rw ns obj rel u)"
  | (answered) addr ctx' where "Inr b \<in> set (remote addr ctx' (check_request ns obj rel u))"
proof -
  obtain cfg ctx1 where cfg: "checkConfig a ctx ns = Inr (cfg, ctx1)"
    using out by (auto simp: check_body_def split: if_splits sum.splits)
  note c = checkConfig_snapshot [OF ctx cfg]
  let ?ctx2 = "NewContextWithChecksum ctx1 (ring_Checksum L (Hashring a))"
  show ?thesis
  proof (cases "rewriteFromNamespaceConfig rel (Some cfg)")
    case None
    with out cfg c undefined show ?thesis by (auto simp: check_body_def split: if_splits)
  next
    case (Some rw)
    with out cfg consider "Inr b \<in> set (checkRewrite store chk ctx1 rw ns obj rel u)"
      | "Inr b \<in> set (checkRewrite store chk ?ctx2 rw ns obj rel u)"
      | addr where "Inr b \<in> set (remote addr ?ctx2 (check_request ns obj rel u))"
      by (auto simp: check_body_def Let_def outcome_simps check_request_def
          split: if_splits sum.splits option.splits rpc_client.splits dest!: proxyRetries_Answer)
    then show ?thesis
      using evaluated [of cfg rw ctx1] evaluated [of cfg rw ?ctx2] answered [of _ ?ctx2] c Some by cases simp_all
  qed
qed

subsection \<open>The store interface\<close>

text \<open>
  \<open>tuple_source\<close>: counts are exact, and every subject set that is read is stored. \<open>tuple_reader\<close>: in
  addition a successful read has every stored subject set. The first is enough for a permission to be
  justified, the second for a denial.
\<close>

locale tuple_source =
  fixes store :: tuple_store
    and A :: acl
  assumes row_count: "Inr n \<in> set (store_RowCount store
      \<lparr>q_Object = \<lparr>obj_Namespace = ns, obj_ID = obj\<rparr>, q_Relations = [rel], q_Subject = SubjID \<lparr>ID = u\<rparr>\<rparr>)
      \<Longrightarrow> (n > 0 \<longleftrightarrow> u \<in> acl_direct A ns obj rel)"
    and subject_sets_stored: "Inr ss \<in> set (store_SubjectSets store \<lparr>obj_Namespace = ns, obj_ID = obj\<rparr> [rel])
      \<Longrightarrow> set ss \<subseteq> acl_sets A ns obj rel"
begin

definition grants :: "check_fun \<Rightarrow> go_context \<Rightarrow> string \<Rightarrow> bool" where
  "grants chk ctx u \<longleftrightarrow> (\<forall>ns obj rel. Inr True \<in> set (chk ctx ns obj rel u) \<longrightarrow> related A u ns obj rel)"

lemma checkSubjects_grants:
  assumes "grants chk ctx u"
    and "Inr True \<in> set (checkSubjects (store_SubjectSets store \<lparr>obj_Namespace = ns, obj_ID = obj\<rparr> [rel])
          (\<lambda>s. chk ctx (ss_Namespace s) (ss_Object s) (f s) u))"
  shows "\<exists>s \<in> acl_sets A ns obj rel. related A u (ss_Namespace s) (ss_Object s) (f s)"
proof -
  obtain ss where ss: "Inr ss \<in> set (store_SubjectSets store \<lparr>obj_Namespace = ns, obj_ID = obj\<rparr> [rel])"
    and "Inr True \<in> set (anyPermitted (\<lambda>s. chk ctx (ss_Namespace s) (ss_Object s) (f s) u) ss)"
    using assms(2) by (auto simp: checkSubjects_Inr)
  then obtain s where "s \<in> set ss" "Inr True \<in> set (chk ctx (ss_Namespace s) (ss_Object s) (f s) u)"
    using anyPermitted_True by blast
  with assms(1) subject_sets_stored [OF ss] show ?thesis unfolding grants_def by blast
qed

lemma checkLeaf_grants:
  assumes chk: "grants chk ctx u" and "GetRewrite c = None"
    and out: "Inr True \<in> set (checkLeaf store chk ctx c ns obj rel u)"
  shows "sat_child A u c ns obj rel"
proof (cases c)
  case Child_This
  with out obtain n where n: "Inr n \<in> set (store_RowCount store
      \<lparr>q_Object = \<lparr>obj_Namespace = ns, obj_ID = obj\<rparr>, q_Relations = [rel], q_Subject = SubjID \<lparr>ID = u\<rparr>\<rparr>)"
    and b: "Inr True \<in> set (if n > 0 then [Inr True]
      else checkSubjects (store_SubjectSets store \<lparr>obj_Namespace = ns, obj_ID = obj\<rparr> [rel])
        (\<lambda>s. chk ctx (ss_Namespace s) (ss_Object s) (ss_Relation s) u))"
    by (auto simp: checkLeaf_def Let_def outcome_simps)
  then show ?thesis
    using row_count [OF n] checkSubjects_grants [OF chk, of ns obj rel ss_Relation] Child_This
    by (cases "n > 0") auto
next
  case (Child_TupleToSubjectset ts cset)
  with out checkSubjects_grants [OF chk, of ns obj "GetString ts"
      "\<lambda>s. if ss_Relation s = ''...'' then GetString cset else ss_Relation s"]
  show ?thesis by (auto simp: checkLeaf_def Let_def)
qed (use assms in \<open>auto simp: checkLeaf_def Let_def grants_def\<close>)

lemma checkRewrite_grants:
  assumes chk: "grants chk ctx u"
  shows "Inr True \<in> set (checkRewrite store chk ctx rw ns obj rel u) \<Longrightarrow> sat_rewrite A u rw ns obj rel"
    and "Inr True \<in> set (checkChild store chk ctx c ns obj rel u) \<Longrightarrow> sat_child A u c ns obj rel"
proof (induction rw and c)
  case (Rewrite_Union cs)
  then show ?case by (auto simp: outcome_simps)
next
  case (Rewrite_Intersection cs)
  then show ?case by (auto simp: outcome_simps)
qed (use checkLeaf_grants [OF chk] in \<open>simp_all del: sat_child_simps add: nested_iff\<close>)

end

locale tuple_reader = tuple_source +
  assumes subject_sets_all: "Inr ss \<in> set (store_SubjectSets store \<lparr>obj_Namespace = ns, obj_ID = obj\<rparr> [rel])
      \<Longrightarrow> acl_sets A ns obj rel \<subseteq> set ss"
begin

lemma subject_sets:
  "Inr ss \<in> set (store_SubjectSets store \<lparr>obj_Namespace = ns, obj_ID = obj\<rparr> [rel]) \<Longrightarrow>
     set ss = acl_sets A ns obj rel"
  by (intro equalityI subject_sets_stored subject_sets_all)

text \<open>The recursive call decides the relation: what the induction on fuel provides.\<close>

definition decides :: "check_fun \<Rightarrow> go_context \<Rightarrow> string \<Rightarrow> bool" where
  "decides chk ctx u \<longleftrightarrow> (\<forall>ns obj rel b. Inr b \<in> set (chk ctx ns obj rel u) \<longrightarrow> b = related A u ns obj rel)"

lemma checkSubjects_decides:
  assumes "decides chk ctx u"
    and "Inr b \<in> set (checkSubjects (store_SubjectSets store \<lparr>obj_Namespace = ns, obj_ID = obj\<rparr> [rel])
          (\<lambda>s. chk ctx (ss_Namespace s) (ss_Object s) (f s) u))"
  shows "b = (\<exists>s \<in> acl_sets A ns obj rel. related A u (ss_Namespace s) (ss_Object s) (f s))"
proof -
  obtain ss where ss: "Inr ss \<in> set (store_SubjectSets store \<lparr>obj_Namespace = ns, obj_ID = obj\<rparr> [rel])"
    and b: "Inr b \<in> set (anyPermitted (\<lambda>s. chk ctx (ss_Namespace s) (ss_Object s) (f s) u) ss)"
    using assms(2) by (auto simp: checkSubjects_Inr)
  have "b = (\<exists>s \<in> set ss. related A u (ss_Namespace s) (ss_Object s) (f s))"
    by (rule anyPermitted_Inr [OF _ b]) (use assms(1) in \<open>auto simp: decides_def\<close>)
  then show ?thesis by (simp add: subject_sets [OF ss])
qed

lemma checkLeaf_decides:
  assumes chk: "decides chk ctx u" and "GetRewrite c = None"
    and out: "Inr b \<in> set (checkLeaf store chk ctx c ns obj rel u)"
  shows "b = sat_child A u c ns obj rel"
proof (cases c)
  case Child_This
  with out obtain n where n: "Inr n \<in> set (store_RowCount store
      \<lparr>q_Object = \<lparr>obj_Namespace = ns, obj_ID = obj\<rparr>, q_Relations = [rel], q_Subject = SubjID \<lparr>ID = u\<rparr>\<rparr>)"
    and b: "Inr b \<in> set (if n > 0 then [Inr True]
      else checkSubjects (store_SubjectSets store \<lparr>obj_Namespace = ns, obj_ID = obj\<rparr> [rel])
        (\<lambda>s. chk ctx (ss_Namespace s) (ss_Object s) (ss_Relation s) u))"
    by (auto simp: checkLeaf_def Let_def outcome_simps)
  show ?thesis
  proof (cases "n > 0")
    case True
    with b row_count [OF n] Child_This show ?thesis by simp
  next
    case False
    with b checkSubjects_decides [OF chk, of b ns obj rel ss_Relation] row_count [OF n] Child_This
    show ?thesis by auto
  qed
next
  case (Child_TupleToSubjectset ts cset)
  with out checkSubjects_decides [OF chk, of b ns obj "GetString ts"
      "\<lambda>s. if ss_Relation s = ''...'' then GetString cset else ss_Relation s"]
  show ?thesis by (auto simp: checkLeaf_def Let_def)
qed (use assms in \<open>auto simp: checkLeaf_def Let_def decides_def\<close>)

lemma checkRewrite_decides:
  assumes chk: "decides chk ctx u"
  shows "Inr b \<in> set (checkRewrite store chk ctx rw ns obj rel u) \<Longrightarrow> b = sat_rewrite A u rw ns obj rel"
    and "Inr b \<in> set (checkChild store chk ctx c ns obj rel u) \<Longrightarrow> b = sat_child A u c ns obj rel"
proof (induction rw and c arbitrary: b and b)
  case (Rewrite_Union cs)
  then show ?case by (force simp: outcome_simps)
next
  case (Rewrite_Intersection cs)
  then show ?case by (force simp: outcome_simps)
qed (use checkLeaf_decides [OF chk] in \<open>simp_all del: sat_child_simps add: nested_iff\<close>)

end

end
