(* ===== verification/Rewrite_Race.thy ===== *)
theory Rewrite_Race
  imports Check_Spec
begin

section \<open>The goroutines of \<open>checkRewrite\<close>\<close>

text \<open>
  One evaluation of a union or an intersection as the code runs it: a goroutine per child, a
  goroutine that waits for all of them, two unbuffered channels, and the \<open>select\<close> of the caller. A
  send on an unbuffered channel and the receive that takes it are one step; the caller receives once
  and returns. \<open>decisive\<close> is the answer of a child that settles the operation (\<open>true\<close> for a union,
  \<open>false\<close> for an intersection), and \<open>rs\<close> lists the results that the evaluation of each child can have.

  The results of the caller over all interleavings are the outcomes that \<open>Check_Engine\<close> computes
  with \<open>selectOutcomes\<close>.
\<close>

subsection \<open>Definitions\<close>

datatype child_state = Running | SendErr error | SendOutcome | Finished

datatype waiter_state = Waiting | WaiterSends | WaiterDone

record race =
  children :: "child_state list"
  waiter :: waiter_state
  returned :: "outcome option"

definition race_start :: "outcome list list \<Rightarrow> race" where
  "race_start rs = \<lparr>children = map (\<lambda>_. Running) rs, waiter = Waiting, returned = None\<rparr>"

inductive race_step :: "bool \<Rightarrow> go_context \<Rightarrow> outcome list list \<Rightarrow> race \<Rightarrow> race \<Rightarrow> bool"
  for decisive ctx rs where
  child_fails: "i < length rs \<Longrightarrow> children s ! i = Running \<Longrightarrow> Inl e \<in> set (rs ! i) \<Longrightarrow>
    race_step decisive ctx rs s (s\<lparr>children := (children s)[i := SendErr e]\<rparr>)"
| child_decides: "i < length rs \<Longrightarrow> children s ! i = Running \<Longrightarrow> Inr decisive \<in> set (rs ! i) \<Longrightarrow>
    race_step decisive ctx rs s (s\<lparr>children := (children s)[i := SendOutcome]\<rparr>)"
| child_passes: "i < length rs \<Longrightarrow> children s ! i = Running \<Longrightarrow> Inr (\<not> decisive) \<in> set (rs ! i) \<Longrightarrow>
    race_step decisive ctx rs s (s\<lparr>children := (children s)[i := Finished]\<rparr>)"
| all_done: "waiter s = Waiting \<Longrightarrow> \<forall>c \<in> set (children s). c = Finished \<Longrightarrow>
    race_step decisive ctx rs s (s\<lparr>waiter := WaiterSends\<rparr>)"
| receive_err: "returned s = None \<Longrightarrow> i < length rs \<Longrightarrow> children s ! i = SendErr e \<Longrightarrow>
    race_step decisive ctx rs s (s\<lparr>children := (children s)[i := Finished], returned := Some (Inl e)\<rparr>)"
| receive_outcome: "returned s = None \<Longrightarrow> i < length rs \<Longrightarrow> children s ! i = SendOutcome \<Longrightarrow>
    race_step decisive ctx rs s (s\<lparr>children := (children s)[i := Finished], returned := Some (Inr decisive)\<rparr>)"
| receive_waiter: "returned s = None \<Longrightarrow> waiter s = WaiterSends \<Longrightarrow>
    race_step decisive ctx rs s (s\<lparr>waiter := WaiterDone, returned := Some (Inr (\<not> decisive))\<rparr>)"
| context_done: "returned s = None \<Longrightarrow> ctx_done ctx = Some c \<Longrightarrow>
    race_step decisive ctx rs s (s\<lparr>returned := Some (Inl (ErrContext c))\<rparr>)"

inductive_cases race_stepE: "race_step decisive ctx rs s s'"

definition race_reachable :: "bool \<Rightarrow> go_context \<Rightarrow> outcome list list \<Rightarrow> race \<Rightarrow> bool" where
  "race_reachable decisive ctx rs s \<longleftrightarrow> (race_step decisive ctx rs)\<^sup>*\<^sup>* (race_start rs) s"

subsection \<open>The invariant\<close>

definition child_ok :: "bool \<Rightarrow> outcome list \<Rightarrow> child_state \<Rightarrow> bool \<Rightarrow> bool" where
  "child_ok decisive r c unanswered \<longleftrightarrow>
     (case c of
        Running \<Rightarrow> True
      | SendErr e \<Rightarrow> Inl e \<in> set r
      | SendOutcome \<Rightarrow> Inr decisive \<in> set r
      | Finished \<Rightarrow> unanswered \<longrightarrow> Inr (\<not> decisive) \<in> set r)"

definition race_inv :: "bool \<Rightarrow> go_context \<Rightarrow> outcome list list \<Rightarrow> race \<Rightarrow> bool" where
  "race_inv decisive ctx rs s \<longleftrightarrow>
     length (children s) = length rs
   \<and> (\<forall>i < length rs. child_ok decisive (rs ! i) (children s ! i) (returned s = None))
   \<and> (waiter s \<noteq> Waiting \<longrightarrow> (\<forall>c \<in> set (children s). c = Finished))
   \<and> (waiter s = WaiterDone \<longrightarrow> returned s \<noteq> None)
   \<and> (\<forall>r. returned s = Some r \<longrightarrow> r \<in> set (selectOutcomes decisive ctx rs))"

lemma race_inv_start: "race_inv decisive ctx rs (race_start rs)"
  by (simp add: race_inv_def race_start_def child_ok_def)

lemma child_ok_weaken: "child_ok d r c True \<Longrightarrow> child_ok d r c b"
  by (auto simp: child_ok_def split: child_state.splits)

lemma race_inv_child:
  assumes inv: "race_inv d ctx rs s" and i: "i < length rs" "children s ! i = Running"
    and ok: "child_ok d (rs ! i) c (returned s = None)"
  shows "race_inv d ctx rs (s\<lparr>children := (children s)[i := c]\<rparr>)"
proof -
  have "children s ! i \<in> set (children s)" using inv i(1) by (simp add: race_inv_def)
  then have "\<not> (\<forall>c \<in> set (children s). c = Finished)" using i(2) by (metis child_state.distinct(5))
  then have "waiter s = Waiting" using inv unfolding race_inv_def by blast
  with inv i ok show ?thesis by (auto simp: race_inv_def nth_list_update)
qed

lemma race_inv_answer:
  assumes inv: "race_inv d ctx rs s" and r: "returned s = None" "r \<in> set (selectOutcomes d ctx rs)"
    and s': "returned s' = Some r" "length (children s') = length rs"
      "\<forall>i < length rs. children s' ! i = children s ! i \<or> children s' ! i = Finished"
      "waiter s' = waiter s \<or> waiter s' = WaiterDone \<and> waiter s = WaiterSends"
  shows "race_inv d ctx rs s'"
proof -
  have ok: "\<forall>i < length rs. child_ok d (rs ! i) (children s' ! i) False"
  proof (intro allI impI)
    fix i
    assume i: "i < length rs"
    have "child_ok d (rs ! i) (children s ! i) True" using inv i r(1) by (simp add: race_inv_def)
    from child_ok_weaken [OF this] have "child_ok d (rs ! i) (children s ! i) False" .
    moreover have "child_ok d (rs ! i) Finished False" by (simp add: child_ok_def)
    moreover have "children s' ! i = children s ! i \<or> children s' ! i = Finished" using s'(3) i by blast
    ultimately show "child_ok d (rs ! i) (children s' ! i) False" by auto
  qed
  have len: "length (children s) = length rs" using inv by (simp add: race_inv_def)
  have fin: "\<forall>c \<in> set (children s'). c = Finished" if "\<forall>c \<in> set (children s). c = Finished"
    using that s'(2,3) len by (metis in_set_conv_nth)
  have "waiter s' \<noteq> Waiting \<longrightarrow> (\<forall>c \<in> set (children s). c = Finished)"
    using inv s'(4) by (auto simp: race_inv_def)
  with ok fin s'(1,2) r(2) show ?thesis unfolding race_inv_def by simp
qed

lemma race_inv_step:
  assumes "race_step d ctx rs s s'" "race_inv d ctx rs s"
  shows "race_inv d ctx rs s'"
proof -
  have len: "length (children s) = length rs" using assms(2) by (simp add: race_inv_def)
  from assms(1) show ?thesis
  proof (cases rule: race_step.cases)
    case (all_done)
    with assms(2) show ?thesis by (auto simp: race_inv_def)
  next
    case (receive_err i e)
    then have "Inl e \<in> set (rs ! i)" using assms(2) by (auto simp: race_inv_def child_ok_def dest: spec [of _ i])
    then have "Inl e \<in> set (selectOutcomes d ctx rs)"
      using receive_err(3) by (auto simp: selectOutcomes_Inl)
    then show ?thesis
      by (rule race_inv_answer [OF assms(2) receive_err(2)]) (simp_all add: receive_err(1,3) len nth_list_update)
  next
    case (receive_outcome i)
    then have "Inr d \<in> set (rs ! i)" using assms(2) by (auto simp: race_inv_def child_ok_def dest: spec [of _ i])
    then have "Inr d \<in> set (selectOutcomes d ctx rs)"
      using receive_outcome(3) by (auto simp: selectOutcomes_Inr)
    then show ?thesis
      by (rule race_inv_answer [OF assms(2) receive_outcome(2)]) (simp_all add: receive_outcome(1,3) len nth_list_update)
  next
    case receive_waiter
    have "Inr (\<not> d) \<in> set (rs ! i)" if "i < length rs" for i
    proof -
      have "children s ! i = Finished"
        using assms(2) receive_waiter(3) that len unfolding race_inv_def by (metis nth_mem waiter_state.distinct(1))
      moreover have "child_ok d (rs ! i) (children s ! i) True"
        using assms(2) receive_waiter(2) that by (simp add: race_inv_def)
      ultimately show ?thesis by (simp add: child_ok_def)
    qed
    then have "Inr (\<not> d) \<in> set (selectOutcomes d ctx rs)"
      by (metis selectOutcomes_Inr in_set_conv_nth)
    then show ?thesis
      by (rule race_inv_answer [OF assms(2) receive_waiter(2)]) (simp_all add: receive_waiter(1,3) len nth_list_update)
  next
    case (context_done c)
    then have "Inl (ErrContext c) \<in> set (selectOutcomes d ctx rs)" by (auto simp: selectOutcomes_Inl)
    then show ?thesis
      by (rule race_inv_answer [OF assms(2) context_done(2)]) (simp_all add: context_done(1) len nth_list_update)
  qed (use assms(2) in \<open>auto intro!: race_inv_child simp: child_ok_def\<close>)
qed

lemma race_inv_reachable: "race_reachable d ctx rs s \<Longrightarrow> race_inv d ctx rs s"
  unfolding race_reachable_def
  by (induction rule: rtranclp_induct) (auto intro: race_inv_start race_inv_step)

subsection \<open>Every outcome has a run\<close>

lemma length_children_start [simp]: "length (children (race_start rs)) = length rs"
  by (simp add: race_start_def)

lemma race_answered:
  "race_reachable d ctx rs s \<Longrightarrow> returned s = Some r \<Longrightarrow>
   \<exists>s. race_reachable d ctx rs s \<and> returned s = Some r"
  by blast

lemma child_then_receive:
  assumes i: "i < length rs" and c: "Inl e \<in> set (rs ! i) \<and> r = Inl e \<or> Inr d \<in> set (rs ! i) \<and> r = Inr d"
  shows "\<exists>s. race_reachable d ctx rs s \<and> returned s = Some r"
proof -
  let ?s0 = "race_start rs"
  have s0: "children ?s0 ! i = Running" "returned ?s0 = None" using i by (simp_all add: race_start_def)
  from c show ?thesis
  proof
    assume e: "Inl e \<in> set (rs ! i) \<and> r = Inl e"
    let ?s1 = "?s0\<lparr>children := (children ?s0)[i := SendErr e]\<rparr>"
    have "race_step d ctx rs ?s0 ?s1" using i s0 e by (intro child_fails) auto
    moreover have "race_step d ctx rs ?s1 (?s1\<lparr>children := (children ?s1)[i := Finished], returned := Some (Inl e)\<rparr>)"
      using i s0 by (intro receive_err) (auto simp: race_start_def)
    ultimately have "race_reachable d ctx rs (?s1\<lparr>children := (children ?s1)[i := Finished], returned := Some (Inl e)\<rparr>)"
      unfolding race_reachable_def by (meson converse_rtranclp_into_rtranclp r_into_rtranclp)
    then show ?thesis by (rule race_answered) (simp add: e)
  next
    assume o: "Inr d \<in> set (rs ! i) \<and> r = Inr d"
    let ?s1 = "?s0\<lparr>children := (children ?s0)[i := SendOutcome]\<rparr>"
    have "race_step d ctx rs ?s0 ?s1" using i s0 o by (intro child_decides) auto
    moreover have "race_step d ctx rs ?s1 (?s1\<lparr>children := (children ?s1)[i := Finished], returned := Some (Inr d)\<rparr>)"
      using i s0 by (intro receive_outcome) (auto simp: race_start_def)
    ultimately have "race_reachable d ctx rs (?s1\<lparr>children := (children ?s1)[i := Finished], returned := Some (Inr d)\<rparr>)"
      unfolding race_reachable_def by (meson converse_rtranclp_into_rtranclp r_into_rtranclp)
    then show ?thesis by (rule race_answered) (simp add: o)
  qed
qed

lemma all_pass:
  assumes "\<forall>r \<in> set rs. Inr (\<not> d) \<in> set r" and "n \<le> length rs"
  shows "race_reachable d ctx rs
    ((race_start rs)\<lparr>children := map (\<lambda>i. if i < n then Finished else Running) [0..<length rs]\<rparr>)"
  using assms(2)
proof (induction n)
  case 0
  have "(race_start rs)\<lparr>children := map (\<lambda>i. if i < 0 then Finished else Running) [0..<length rs]\<rparr> = race_start rs"
    by (auto simp: race_start_def intro!: nth_equalityI)
  then show ?case by (simp only: race_reachable_def rtranclp.rtrancl_refl)
next
  case (Suc n)
  let ?s = "\<lambda>n. (race_start rs)\<lparr>children := map (\<lambda>i. if i < n then Finished else Running) [0..<length rs]\<rparr>"
  have "race_step d ctx rs (?s n) ((?s n)\<lparr>children := (children (?s n))[n := Finished]\<rparr>)"
    using Suc.prems assms(1) by (intro child_passes) auto
  moreover have "(children (?s n))[n := Finished] = children (?s (Suc n))"
    using Suc.prems by (auto simp: nth_list_update intro!: nth_equalityI)
  then have "(?s n)\<lparr>children := (children (?s n))[n := Finished]\<rparr> = ?s (Suc n)" by simp
  ultimately show ?case
    using Suc.IH Suc.prems unfolding race_reachable_def by (metis Suc_leD rtranclp.rtrancl_into_rtrancl)
qed

lemma waiter_then_receive:
  assumes "\<forall>r \<in> set rs. Inr (\<not> d) \<in> set r"
  shows "\<exists>s. race_reachable d ctx rs s \<and> returned s = Some (Inr (\<not> d))"
proof -
  let ?s = "(race_start rs)\<lparr>children := map (\<lambda>i. if i < length rs then Finished else Running) [0..<length rs]\<rparr>"
  have s: "race_reachable d ctx rs ?s" by (rule all_pass [OF assms order_refl])
  have "race_step d ctx rs ?s (?s\<lparr>waiter := WaiterSends\<rparr>)"
    by (rule all_done) (auto simp: race_start_def)
  moreover have "race_step d ctx rs (?s\<lparr>waiter := WaiterSends\<rparr>)
      (?s\<lparr>waiter := WaiterSends, waiter := WaiterDone, returned := Some (Inr (\<not> d))\<rparr>)"
    by (rule receive_waiter) (auto simp: race_start_def)
  ultimately have "race_reachable d ctx rs (?s\<lparr>waiter := WaiterSends, waiter := WaiterDone, returned := Some (Inr (\<not> d))\<rparr>)"
    using s unfolding race_reachable_def by (meson rtranclp.rtrancl_into_rtrancl)
  then show ?thesis by (rule race_answered) simp
qed

lemma context_returns:
  assumes "ctx_done ctx = Some c"
  shows "\<exists>s. race_reachable d ctx rs s \<and> returned s = Some (Inl (ErrContext c))"
proof -
  have "race_step d ctx rs (race_start rs) ((race_start rs)\<lparr>returned := Some (Inl (ErrContext c))\<rparr>)"
    by (rule context_done) (simp_all add: race_start_def assms)
  then have "race_reachable d ctx rs ((race_start rs)\<lparr>returned := Some (Inl (ErrContext c))\<rparr>)"
    unfolding race_reachable_def by blast
  then show ?thesis by (rule race_answered) simp
qed

lemma outcome_has_run:
  assumes "r \<in> set (selectOutcomes d ctx rs)"
  shows "\<exists>s. race_reachable d ctx rs s \<and> returned s = Some r"
proof (cases r)
  case (Inl e)
  then consider x where "x \<in> set rs" "Inl e \<in> set x" | c where "ctx_done ctx = Some c" "e = ErrContext c"
    using assms by (auto simp: selectOutcomes_Inl)
  then show ?thesis
  proof cases
    case 1
    then obtain i where "i < length rs" "Inl e \<in> set (rs ! i)" by (auto simp: in_set_conv_nth)
    with child_then_receive [of i rs e r d ctx] Inl show ?thesis by blast
  next
    case 2
    with context_returns Inl show ?thesis by blast
  qed
next
  case (Inr b)
  then consider x where "b = d" "x \<in> set rs" "Inr d \<in> set x" | "b = (\<not> d)" "\<forall>x \<in> set rs. Inr (\<not> d) \<in> set x"
    using assms by (auto simp: selectOutcomes_Inr)
  then show ?thesis
  proof cases
    case 1
    then obtain i where "i < length rs" "Inr d \<in> set (rs ! i)" by (auto simp: in_set_conv_nth)
    with child_then_receive [of i rs undefined r d ctx] Inr 1(1) show ?thesis by blast
  next
    case 2
    with waiter_then_receive Inr show ?thesis by blast
  qed
qed


subsection \<open>Every run ends, and ends with an answer\<close>

fun child_size :: "child_state \<Rightarrow> nat" where
  "child_size Running = 2"
| "child_size Finished = 0"
| "child_size _ = 1"

fun waiter_size :: "waiter_state \<Rightarrow> nat" where
  "waiter_size Waiting = 2"
| "waiter_size WaiterSends = 1"
| "waiter_size WaiterDone = 0"

definition race_size :: "race \<Rightarrow> nat" where
  "race_size s = sum_list (map child_size (children s)) + waiter_size (waiter s)
     + (if returned s = None then 1 else 0)"

lemma race_size_start: "race_size (race_start rs) = 2 * length rs + 3"
  by (simp add: race_size_def race_start_def sum_list_triv o_def)

lemma children_size_update:
  "i < length cs \<Longrightarrow> child_size c < child_size (cs ! i) \<Longrightarrow>
   sum_list (map child_size (cs[i := c])) < sum_list (map child_size cs)"
proof (induction cs arbitrary: i)
  case (Cons x xs)
  then show ?case by (cases i) auto
qed simp

lemma race_step_decreases:
  assumes "race_step d ctx rs s s'" "race_inv d ctx rs s"
  shows "race_size s' < race_size s"
proof -
  have len: "length (children s) = length rs" using assms(2) by (simp add: race_inv_def)
  from assms(1) show ?thesis
    by (cases rule: race_step.cases)
      (simp_all add: race_size_def children_size_update len less_SucI)
qed

lemma race_run_inv: "(race_step d ctx rs ^^ n) (race_start rs) s \<Longrightarrow> race_reachable d ctx rs s"
  unfolding race_reachable_def by (rule relpowp_imp_rtranclp)

lemma race_run_bounded: "(race_step d ctx rs ^^ n) (race_start rs) s \<Longrightarrow> n + race_size s \<le> 2 * length rs + 3"
proof (induction n arbitrary: s)
  case 0
  then show ?case by (auto simp: race_size_start)
next
  case (Suc n)
  then obtain u where u: "(race_step d ctx rs ^^ n) (race_start rs) u" "race_step d ctx rs u s" by auto
  have "race_size s < race_size u"
    by (rule race_step_decreases [OF u(2) race_inv_reachable [OF race_run_inv [OF u(1)]]])
  with Suc.IH [OF u(1)] show ?case by simp
qed

text \<open>A state without an answer has a step, unless some child never returns.\<close>

lemma race_progress:
  assumes inv: "race_inv d ctx rs s" and rs: "\<forall>r \<in> set rs. r \<noteq> []" and s: "returned s = None"
  shows "\<exists>s'. race_step d ctx rs s s'"
proof (cases "\<forall>c \<in> set (children s). c = Finished")
  case True
  have "waiter s \<noteq> WaiterDone" using inv s by (auto simp: race_inv_def)
  with True s show ?thesis by (cases "waiter s") (auto intro: race_step.all_done race_step.receive_waiter)
next
  case False
  then obtain i where i: "i < length rs" "children s ! i \<noteq> Finished"
    using inv unfolding race_inv_def by (metis in_set_conv_nth)
  show ?thesis
  proof (cases "children s ! i")
    case Running
    obtain x where x: "x \<in> set (rs ! i)" using rs i(1) by (metis last_in_set nth_mem)
    show ?thesis
    proof (cases x)
      case (Inl e)
      with x Running i show ?thesis by (auto intro: race_step.child_fails)
    next
      case (Inr b)
      with x Running i show ?thesis
        by (cases "b = d") (auto intro: race_step.child_decides race_step.child_passes)
    qed
  next
    case (SendErr e)
    with i s show ?thesis by (auto intro: race_step.receive_err)
  next
    case SendOutcome
    with i s show ?thesis by (auto intro: race_step.receive_outcome)
  next
    case Finished
    with i show ?thesis by simp
  qed
qed

subsection \<open>What is left behind\<close>

definition waiter_inv :: "bool \<Rightarrow> race \<Rightarrow> bool" where
  "waiter_inv decisive s \<longleftrightarrow> (waiter s = WaiterDone \<longleftrightarrow> returned s = Some (Inr (\<not> decisive)))"

lemma waiter_inv_reachable: "race_reachable d ctx rs s \<Longrightarrow> waiter_inv d s"
  unfolding race_reachable_def
proof (induction rule: rtranclp_induct)
  case base
  show ?case by (simp add: waiter_inv_def race_start_def)
next
  case (step s s')
  from step.hyps(2) step.IH show ?case
    by (cases rule: race_step.cases) (auto simp: waiter_inv_def)
qed

subsection \<open>A run\<close>

text \<open>One child that grants a union, up to the state in which nothing moves any more.\<close>

definition granted_race :: race where
  "granted_race = \<lparr>children = [Finished], waiter = WaiterSends, returned = Some (Inr True)\<rparr>"

lemma granted_run:
  "(race_step True context_Background [[Inr True]] ^^ 3) (race_start [[Inr True]]) granted_race"
proof -
  let ?step = "race_step True context_Background [[Inr True]]"
  let ?s1 = "\<lparr>children = [SendOutcome], waiter = Waiting, returned = None\<rparr>"
  let ?s2 = "\<lparr>children = [Finished], waiter = Waiting, returned = Some (Inr True)\<rparr>"
  have "?step (race_start [[Inr True]]) ?s1"
    using race_step.child_decides [of 0 "[[Inr True]]" "race_start [[Inr True]]" True context_Background]
    by (simp add: race_start_def)
  moreover have "?step ?s1 ?s2"
    using race_step.receive_outcome [of ?s1 0 "[[Inr True]]" True context_Background] by simp
  moreover have "?step ?s2 granted_race"
    using race_step.all_done [of ?s2 True context_Background "[[Inr True]]"] by (simp add: granted_race_def)
  ultimately show ?thesis by (auto simp: numeral_3_eq_3)
qed

lemma granted_final: "\<not> race_step True context_Background [[Inr True]] granted_race s'"
  by (auto simp: granted_race_def elim: race_stepE)

subsection \<open>Properties\<close>

text \<open>C11: over all interleavings of the goroutines of a union or an intersection, the values the
  caller can return are exactly the outcomes that \<open>selectOutcomes\<close> computes and \<open>checkRewrite\<close> uses:
  no outcome is missing and none is invented.\<close>

theorem race_outcomes:
  "{r. \<exists>s. race_reachable decisive ctx rs s \<and> returned s = Some r} = set (selectOutcomes decisive ctx rs)"
proof -
  have "r \<in> set (selectOutcomes decisive ctx rs)"
    if "race_reachable decisive ctx rs s" "returned s = Some r" for s r
    using race_inv_reachable [OF that(1)] that(2) unfolding race_inv_def by blast
  with outcome_has_run show ?thesis by blast
qed

text \<open>C12: if every child's evaluation returns, the concurrent evaluation takes at most two steps for
  each child and three more, whatever the interleaving, and when no step is left the caller has
  returned: there is no deadlock that keeps the caller waiting.\<close>

theorem race_terminates:
  assumes "\<forall>r \<in> set rs. r \<noteq> []" and "(race_step decisive ctx rs ^^ n) (race_start rs) s"
  shows "n \<le> 2 * length rs + 3 \<and> ((\<nexists>s'. race_step decisive ctx rs s s') \<longrightarrow> returned s \<noteq> None)"
  using race_run_bounded [OF assms(2)] race_progress [OF race_inv_reachable [OF race_run_inv [OF assms(2)]] assms(1)]
  by auto

theorem race_terminates_witness:
  "(race_step True context_Background [[Inr True]] ^^ 3) (race_start [[Inr True]]) granted_race
   \<and> 3 \<le> 2 * length [[Inr True :: outcome]] + 3 \<and> returned granted_race \<noteq> None"
  using race_terminates [of "[[Inr True]]" 3 True context_Background granted_race] granted_run granted_final
  by simp

text \<open>C13: the waiting goroutine ends only if the caller returned its message; after a decisive answer,
  an error or a cancelled context it stays blocked in every later state, and with it its channel: each
  such evaluation leaks a goroutine.\<close>

theorem race_leak:
  assumes "race_reachable decisive ctx rs s" "returned s = Some r" "r \<noteq> Inr (\<not> decisive)"
    "(race_step decisive ctx rs)\<^sup>*\<^sup>* s s'"
  shows "waiter s' \<noteq> WaiterDone"
proof -
  have keeps: "returned u' = Some r" if "race_step decisive ctx rs u u'" "returned u = Some r" for u u'
    using that by (cases rule: race_step.cases) auto
  from assms(4) have r: "returned s' = Some r"
    by (induction rule: rtranclp_induct) (auto simp: assms(2) intro: keeps)
  have "race_reachable decisive ctx rs s'"
    using assms(1,4) unfolding race_reachable_def by (rule rtranclp_trans)
  from waiter_inv_reachable [OF this] r assms(3) show ?thesis by (auto simp: waiter_inv_def)
qed

theorem race_leak_witness:
  "race_reachable True context_Background [[Inr True]] granted_race
   \<and> returned granted_race = Some (Inr True) \<and> waiter granted_race \<noteq> WaiterDone"
  using race_leak [of True context_Background "[[Inr True]]" granted_race "Inr True" granted_race]
    race_run_inv [OF granted_run]
  by (simp add: granted_race_def)

end
