(* ===== verification/Sql_Database.thy ===== *)
theory Sql_Database
  imports Relation_Tuple
begin

section \<open>The database behind the stores\<close>

text \<open>
  The SQL database (\<open>main.go\<close> connects the PostgreSQL driver to CockroachDB) as the two stores use it
  through \<open>database/sql\<close>: the tables of
  \<open>db/migrations/1_bootstrap_tables.up.sql\<close> and one table of relation tuples per namespace,
  transactions, and the statements the code builds, each given by its effect on the tables.

  The database and the drivers are not code of the repository, so what they decide is a parameter,
  the record \<open>sql_env\<close>:
  \<^item> \<open>fault n\<close>: the error with which the \<open>n\<close>-th statement of a session fails, if it does;
  \<^item> \<open>cut n\<close>: the number of rows after which the result of the \<open>n\<close>-th statement breaks off, if the
    connection is lost while the rows are read (\<open>rows.Next\<close> then returns false, and only
    \<open>rows.Err\<close>, which the code does not call, would say so);
  \<^item> \<open>clock n\<close>: the time \<open>NOW()\<close> of a transaction that begins with statement \<open>n\<close>;
  \<^item> \<open>ddl_table\<close>: the table that a \<^emph>\<open>unquoted\<close> name in \<open>CREATE TABLE\<close> denotes, or \<open>None\<close> where the
    statement does not parse (the query builder quotes names everywhere else);
  \<^item> \<open>pj_Marshal\<close>, \<open>pj_Unmarshal\<close>, \<open>jsonb_text\<close>: \<open>protojson\<close>, and the text a \<open>jsonb\<close> column returns;
  \<^item> \<open>proto_String\<close>: the generated \<open>String\<close> method of a protobuf subject;
  \<^item> \<open>in_empty\<close>: the error with which the database refuses \<open>IN ()\<close>, or \<open>None\<close> where that is a condition
    no row satisfies;
  \<^item> \<open>row_location\<close>: the location of the \<open>time.Time\<close> values the driver returns.

  Transactions run one after another: a transaction works on the tables as they were committed when
  it began. \<open>NOW()\<close> is the start time of the transaction, as both databases define it. After a failed
  statement a transaction is aborted: every later statement fails and a commit does not take effect.
\<close>

subsection \<open>Tables\<close>

record tuple_row =
  row_object :: string
  row_relation :: string
  row_subject :: string

record config_row =
  cfgrow_namespace :: string
  cfgrow_config :: string
  cfgrow_timestamp :: int

record ns_change_row =
  nscl_namespace :: string
  nscl_operation :: string
  nscl_config :: string
  nscl_timestamp :: int

record change_row =
  cl_namespace :: string
  cl_operation :: string
  cl_relationtuple :: string
  cl_timestamp :: int

record lookup_row =
  lk_namespace :: string
  lk_relation :: string
  lk_relationtuple :: string

record db =
  tbl_tuples :: "string \<rightharpoonup> tuple_row list"
  tbl_configs :: "config_row list"
  tbl_ns_changelog :: "ns_change_row list"
  tbl_changelog :: "change_row list"
  tbl_lookup :: "lookup_row list"

definition empty_db :: db where
  "empty_db = \<lparr>tbl_tuples = Map.empty, tbl_configs = [], tbl_ns_changelog = [], tbl_changelog = [],
     tbl_lookup = []\<rparr>"

text \<open>\<open>INSERT \<dots> ON CONFLICT DO NOTHING\<close> into a table whose key is the whole row.\<close>

definition insert_row :: "'a \<Rightarrow> 'a list \<Rightarrow> 'a list" where
  "insert_row r rs = (if r \<in> set rs then rs else rs @ [r])"

lemma set_insert_row [simp]: "set (insert_row r rs) = insert r (set rs)"
  by (auto simp: insert_row_def)

lemma distinct_insert_row [simp]: "distinct rs \<Longrightarrow> distinct (insert_row r rs)"
  by (auto simp: insert_row_def)

lemma insert_row_present: "r \<in> set rs \<Longrightarrow> insert_row r rs = rs"
  by (simp add: insert_row_def)

text \<open>\<open>LIKE\<close>, for patterns without an escape character.\<close>

function sql_LIKE :: "string \<Rightarrow> string \<Rightarrow> bool" where
  "sql_LIKE [] s = (s = [])"
| "sql_LIKE (c # p) s =
     (if c = CHR ''%'' then sql_LIKE p s \<or> (case s of [] \<Rightarrow> False | _ # s' \<Rightarrow> sql_LIKE (c # p) s')
      else (case s of [] \<Rightarrow> False | d # s' \<Rightarrow> (c = CHR ''_'' \<or> d = c) \<and> sql_LIKE p s'))"
  by pat_completeness auto
termination
  by (relation "measure (\<lambda>(p, s). length p + length s)") auto

declare sql_LIKE.simps(2) [simp del]

lemma sql_LIKE_literal:
  "c \<noteq> CHR ''%'' \<Longrightarrow> c \<noteq> CHR ''_'' \<Longrightarrow> sql_LIKE (c # p) s \<longleftrightarrow> (\<exists>t. s = c # t \<and> sql_LIKE p t)"
  by (subst sql_LIKE.simps) (cases s, auto)

lemma sql_LIKE_underscore: "sql_LIKE (CHR ''_'' # p) s \<longleftrightarrow> (\<exists>c t. s = c # t \<and> sql_LIKE p t)"
  by (subst sql_LIKE.simps) (cases s, auto)

lemma sql_LIKE_percent: "sql_LIKE (CHR ''%'' # p) s \<longleftrightarrow> (\<exists>x t. s = x @ t \<and> sql_LIKE p t)"
proof (induction s)
  case Nil
  show ?case by (subst sql_LIKE.simps) auto
next
  case (Cons c s)
  have "sql_LIKE (CHR ''%'' # p) (c # s) \<longleftrightarrow> sql_LIKE p (c # s) \<or> sql_LIKE (CHR ''%'' # p) s"
    by (subst sql_LIKE.simps) simp
  also have "\<dots> \<longleftrightarrow> (\<exists>x t. c # s = x @ t \<and> sql_LIKE p t)"
    unfolding Cons.IH by (auto simp: Cons_eq_append_conv)
  finally show ?case .
qed

lemma sql_LIKE_nonempty:
  "sql_LIKE (CHR ''_'' # CHR ''%'' # CHR ''%'' # p) s \<longleftrightarrow> (\<exists>x t. x \<noteq> [] \<and> s = x @ t \<and> sql_LIKE p t)"
  (is "?l \<longleftrightarrow> ?r")
proof
  assume ?r
  then obtain x v where "x \<noteq> []" "s = x @ v" "sql_LIKE p v" by blast
  moreover from this obtain c x' where "x = c # x'" by (cases x) auto
  ultimately have "s = c # (x' @ ([] @ v)) \<and> sql_LIKE p v" by simp
  then show ?l unfolding sql_LIKE_underscore sql_LIKE_percent by blast
next
  assume ?l
  then obtain c x x' v where "s = (c # x @ x') @ v" "sql_LIKE p v"
    unfolding sql_LIKE_underscore sql_LIKE_percent by auto
  then show ?r by blast
qed

subsection \<open>Sessions\<close>

record sql_env =
  fault :: "nat \<Rightarrow> error option"
  cut :: "nat \<Rightarrow> nat option"
  clock :: "nat \<Rightarrow> int"
  ddl_table :: "string \<Rightarrow> string option"
  pj_Marshal :: "NamespaceConfig \<Rightarrow> string result"
  pj_Unmarshal :: "string \<Rightarrow> NamespaceConfig result"
  jsonb_text :: "string \<Rightarrow> string"
  proto_String :: "pb_Subject \<Rightarrow> string"
  in_empty :: "error option"
  row_location :: location

text \<open>
  An environment without faults whose \<open>protojson\<close> knows the configurations in a table, for concrete
  runs: the serialised form of the \<open>n\<close>-th one is its text.
\<close>

definition plain_env :: "(NamespaceConfig \<times> string) list \<Rightarrow> sql_env" where
  "plain_env table =
     \<lparr>fault = (\<lambda>_. None), cut = (\<lambda>_. None), clock = (\<lambda>n. int n), ddl_table = Some,
      pj_Marshal = (\<lambda>cfg. case map_of table cfg of Some j \<Rightarrow> Inr j | None \<Rightarrow> Inl (ErrLibrary ''marshal'')),
      pj_Unmarshal = (\<lambda>j. case map_of (map prod.swap table) j of Some cfg \<Rightarrow> Inr cfg | None \<Rightarrow> Inl (ErrLibrary ''unmarshal'')),
      jsonb_text = id,
      proto_String = (\<lambda>s. ''id:''),
      in_empty = None, row_location = Local\<rparr>"

text \<open>
  The session: the committed tables, the number of statements sent, and how many transactions and
  result sets were abandoned open.
\<close>

record world =
  w_db :: db
  w_tick :: nat
  w_open :: nat

record txn =
  t_db :: db
  t_tick :: nat
  t_now :: int
  t_aborted :: bool

text \<open>A statement: an error, or its result and the tables after it.\<close>

type_synonym 'a stmt = "int \<Rightarrow> db \<Rightarrow> ('a \<times> db) result"

definition txn_Exec :: "sql_env \<Rightarrow> 'a stmt \<Rightarrow> txn \<Rightarrow> 'a result \<times> txn" where
  "txn_Exec E f t =
     (let t' = t\<lparr>t_tick := Suc (t_tick t)\<rparr> in
      if t_aborted t then (Inl (ErrLibrary ''current transaction is aborted''), t')
      else case fault E (t_tick t) of
        Some e \<Rightarrow> (Inl e, t'\<lparr>t_aborted := True\<rparr>)
      | None \<Rightarrow>
          (case f (t_now t) (t_db t) of
             Inl e \<Rightarrow> (Inl e, t'\<lparr>t_aborted := True\<rparr>)
           | Inr (x, d) \<Rightarrow> (Inr x, t'\<lparr>t_db := d\<rparr>)))"

definition db_Begin :: "sql_env \<Rightarrow> world \<Rightarrow> txn result \<times> world" where
  "db_Begin E w =
     (let w' = w\<lparr>w_tick := Suc (w_tick w)\<rparr> in
      case fault E (w_tick w) of
        Some e \<Rightarrow> (Inl e, w')
      | None \<Rightarrow> (Inr \<lparr>t_db = w_db w, t_tick = w_tick w', t_now = clock E (w_tick w), t_aborted = False\<rparr>, w'))"

definition txn_Commit :: "sql_env \<Rightarrow> txn \<Rightarrow> world \<Rightarrow> unit result \<times> world" where
  "txn_Commit E t w =
     (let w' = w\<lparr>w_tick := Suc (t_tick t)\<rparr> in
      case fault E (t_tick t) of
        Some e \<Rightarrow> (Inl e, w')
      | None \<Rightarrow> if t_aborted t then (Inl (ErrLibrary ''current transaction is aborted''), w')
                else (Inr (), w'\<lparr>w_db := t_db t\<rparr>))"

definition txn_Rollback :: "sql_env \<Rightarrow> txn \<Rightarrow> world \<Rightarrow> unit result \<times> world" where
  "txn_Rollback E t w =
     (let w' = w\<lparr>w_tick := Suc (t_tick t)\<rparr> in
      case fault E (t_tick t) of Some e \<Rightarrow> (Inl e, w') | None \<Rightarrow> (Inr (), w'))"

text \<open>A transaction that is dropped: it stays open on its connection and never takes effect.\<close>

definition txn_leak :: "txn \<Rightarrow> world \<Rightarrow> world" where
  "txn_leak t w = w\<lparr>w_tick := t_tick t, w_open := Suc (w_open w)\<rparr>"

text \<open>A query outside a transaction.\<close>

definition db_Query :: "sql_env \<Rightarrow> (db \<Rightarrow> 'a result) \<Rightarrow> world \<Rightarrow> 'a result \<times> world" where
  "db_Query E f w =
     (case fault E (w_tick w) of Some e \<Rightarrow> Inl e | None \<Rightarrow> f (w_db w), w\<lparr>w_tick := Suc (w_tick w)\<rparr>)"

text \<open>The rows a \<open>for rows.Next()\<close> loop sees of the result of statement \<open>n\<close>.\<close>

definition rows_seen :: "sql_env \<Rightarrow> nat \<Rightarrow> 'a list \<Rightarrow> 'a list" where
  "rows_seen E n rows = (case cut E n of None \<Rightarrow> rows | Some k \<Rightarrow> take k rows)"

lemma set_rows_seen: "set (rows_seen E n rows) \<subseteq> set rows"
  by (auto simp: rows_seen_def dest: in_set_takeD split: option.splits)

lemma rows_seen_all [simp]: "cut E n = None \<Longrightarrow> rows_seen E n rows = rows"
  by (simp add: rows_seen_def)

text \<open>A condition \<open>column IN (xs)\<close> that the database refuses.\<close>

definition refused_in :: "sql_env \<Rightarrow> 'a list \<Rightarrow> error option" where
  "refused_in E xs = (if xs = [] then in_empty E else None)"

lemma refused_in_Cons [simp]: "refused_in E (x # xs) = None"
  by (simp add: refused_in_def)

subsection \<open>Statements in sequence\<close>

definition andThen :: "(txn \<Rightarrow> 'a result \<times> txn) \<Rightarrow> ('a \<Rightarrow> txn \<Rightarrow> 'b result \<times> txn) \<Rightarrow> txn \<Rightarrow> 'b result \<times> txn" where
  "andThen f g t = (case f t of (Inl e, t') \<Rightarrow> (Inl e, t') | (Inr x, t') \<Rightarrow> g x t')"

fun txn_foreach :: "('x \<Rightarrow> txn \<Rightarrow> unit result \<times> txn) \<Rightarrow> 'x list \<Rightarrow> txn \<Rightarrow> unit result \<times> txn" where
  "txn_foreach f [] t = (Inr (), t)"
| "txn_foreach f (x # xs) t = andThen (f x) (\<lambda>_. txn_foreach f xs) t"

lemma andThen_Inr:
  "andThen f g t = (Inr y, t'') \<longleftrightarrow> (\<exists>x t'. f t = (Inr x, t') \<and> g x t' = (Inr y, t''))"
  by (auto simp: andThen_def split: prod.splits sum.splits)

end
