(* ===== verification/Subject_Tree.thy ===== *)
theory Subject_Tree
  imports Relation_Tuple
begin

section \<open>Subject trees (\<open>internal/tree.go\<close>)\<close>

text \<open>
  The tree that \<open>Expand\<close> builds and its protobuf form. \<open>NodeType\<close> is a Go string type with three
  named constants and the zero value \<open>""\<close>, so it is a string here too.
\<close>

subsection \<open>Definitions\<close>

type_synonym NodeType = string

definition UnionNode :: NodeType where "UnionNode = ''union''"
definition IntersectionNode :: NodeType where "IntersectionNode = ''intersection''"
definition LeafNode :: NodeType where "LeafNode = ''leaf''"

definition NodeType_ToProto :: "NodeType \<Rightarrow> pb_NodeType" where
  "NodeType_ToProto t =
     (if t = LeafNode then NODE_TYPE_LEAF
      else if t = UnionNode then NODE_TYPE_UNION
      else if t = IntersectionNode then NODE_TYPE_INTERSECTION
      else NODE_TYPE_UNSPECIFIED)"

datatype SubjectTree =
  SubjectTree (tree_Type: NodeType) (tree_Subject: Subject) (tree_Children: "SubjectTree list")

fun SubjectTree_ToProto :: "SubjectTree \<Rightarrow> pb_SubjectTree" where
  "SubjectTree_ToProto (SubjectTree ty s cs) =
     (if ty = LeafNode then PbTree NODE_TYPE_LEAF (Subject_ToProto s) []
      else PbTree (NodeType_ToProto ty) (Subject_ToProto s) (map SubjectTree_ToProto cs))"

text \<open>The method is nil-safe: a nil tree has a nil protobuf form.\<close>

definition SubjectTree_ToProto_ptr :: "SubjectTree option \<Rightarrow> pb_SubjectTree option" where
  "SubjectTree_ToProto_ptr t = map_option SubjectTree_ToProto t"

subsection \<open>The trees the code builds\<close>

text \<open>Inner nodes are unions or intersections, leaves have no children.\<close>

fun wf_tree :: "SubjectTree \<Rightarrow> bool" where
  "wf_tree (SubjectTree ty s cs) =
     ((if ty = LeafNode then cs = [] else ty = UnionNode \<or> ty = IntersectionNode) \<and> list_all wf_tree cs)"

lemmas node_type_defs = UnionNode_def IntersectionNode_def LeafNode_def

lemma NodeType_ToProto_simps [simp]:
  "NodeType_ToProto LeafNode = NODE_TYPE_LEAF"
  "NodeType_ToProto UnionNode = NODE_TYPE_UNION"
  "NodeType_ToProto IntersectionNode = NODE_TYPE_INTERSECTION"
  by (simp_all add: NodeType_ToProto_def node_type_defs)

lemma NodeType_distinct [simp]:
  "UnionNode \<noteq> LeafNode" "LeafNode \<noteq> UnionNode" "IntersectionNode \<noteq> LeafNode"
  "LeafNode \<noteq> IntersectionNode" "UnionNode \<noteq> IntersectionNode" "IntersectionNode \<noteq> UnionNode"
  by (simp_all add: node_type_defs)

lemma NodeType_nonempty [simp]:
  "UnionNode \<noteq> []" "IntersectionNode \<noteq> []" "LeafNode \<noteq> []"
  by (simp_all add: node_type_defs)

subsection \<open>Reading a protobuf tree back\<close>

definition nodeType_of_proto :: "pb_NodeType \<Rightarrow> NodeType" where
  "nodeType_of_proto t =
     (case t of NODE_TYPE_LEAF \<Rightarrow> LeafNode | NODE_TYPE_UNION \<Rightarrow> UnionNode
      | NODE_TYPE_INTERSECTION \<Rightarrow> IntersectionNode | NODE_TYPE_UNSPECIFIED \<Rightarrow> '''')"

fun tree_of_proto :: "pb_SubjectTree \<Rightarrow> SubjectTree option" where
  "tree_of_proto (PbTree ty s cs) =
     (case (SubjectFromProto s, those (map tree_of_proto cs)) of
        (Some s', Some cs') \<Rightarrow> Some (SubjectTree (nodeType_of_proto ty) s' cs')
      | _ \<Rightarrow> None)"

lemma those_map_Some: "(\<And>x. x \<in> set xs \<Longrightarrow> f x = Some (g x)) \<Longrightarrow> those (map f xs) = Some (map g xs)"
  by (induction xs) auto

lemma nodeType_roundtrip [simp]:
  "nodeType_of_proto NODE_TYPE_LEAF = LeafNode"
  "ty = UnionNode \<or> ty = IntersectionNode \<Longrightarrow> nodeType_of_proto (NodeType_ToProto ty) = ty"
  by (auto simp: nodeType_of_proto_def)

lemma tree_of_proto_ToProto: "wf_tree t \<Longrightarrow> tree_of_proto (SubjectTree_ToProto t) = Some t"
proof (induction t)
  case (SubjectTree ty s cs)
  show ?case
  proof (cases "ty = LeafNode")
    case True
    with SubjectTree.prems show ?thesis by simp
  next
    case False
    have "those (map (tree_of_proto \<circ> SubjectTree_ToProto) cs) = Some (map id cs)"
      using SubjectTree by (intro those_map_Some) (auto simp: list_all_iff)
    with False SubjectTree.prems show ?thesis by auto
  qed
qed

subsection \<open>Properties\<close>

text \<open>The protobuf form of an expansion keeps the whole tree: reading it back gives the tree, for
  the trees the code builds (leaves without children below unions and intersections).\<close>

theorem tree_proto_roundtrip:
  "wf_tree t \<Longrightarrow> tree_of_proto (SubjectTree_ToProto t) = Some t"
  by (rule tree_of_proto_ToProto)

definition two_viewers :: SubjectTree where
  "two_viewers = SubjectTree UnionNode (SubjSet \<lparr>ss_Namespace = ''docs'', ss_Object = ''a'', ss_Relation = ''viewer''\<rparr>)
     [SubjectTree LeafNode (SubjID \<lparr>ID = ''u1''\<rparr>) [], SubjectTree LeafNode (SubjID \<lparr>ID = ''u2''\<rparr>) []]"

theorem tree_proto_roundtrip_witness:
  "tree_of_proto (SubjectTree_ToProto two_viewers) = Some two_viewers"
  by (rule tree_proto_roundtrip) (simp add: two_viewers_def)

end
