(* ===== verification/Expand_Engine.thy ===== *)
theory Expand_Engine
  imports Check_Engine Subject_Tree
begin

section \<open>Expanding a subject set (\<open>expandWithRewrite\<close>, \<open>expand\<close>, \<open>Expand\<close>)\<close>

text \<open>
  An expansion runs in one goroutine on the node that receives the request: it reads tuples, calls
  itself for every subject set it meets and collects the subtrees. Its store is a parameter, the
  \<open>ListRelationTuples\<close> method of the \<open>RelationTupleStore\<close> interface over a state \<open>'s\<close> that a read may
  change (a database session). A computation is a function of that state: \<open>None\<close> while it has not
  returned within the given fuel, otherwise a result and the state after it. One unit of fuel pays
  for one nested call of \<open>a.expand\<close>.

  \<open>depth\<close> is a Go \<open>uint\<close>, 64 bits wide: it is passed down, decremented with wrap-around, and never
  compared with anything.
\<close>

subsection \<open>Definitions\<close>

type_synonym ('s, 'a) run = "'s \<Rightarrow> ('a result \<times> 's) option"

type_synonym 's list_fun = "go_context \<Rightarrow> ListQuery \<Rightarrow> 's \<Rightarrow> InternalRelationTuple list result \<times> 's"

type_synonym 's expand_fun =
  "go_context \<Rightarrow> string \<Rightarrow> string \<Rightarrow> string \<Rightarrow> 64 word \<Rightarrow> ('s, SubjectTree option) run"

definition returns :: "'a \<Rightarrow> ('s, 'a) run" where
  "returns x s = Some (Inr x, s)"

definition fails :: "error \<Rightarrow> ('s, 'a) run" where
  "fails err s = Some (Inl err, s)"

text \<open>Go on with the result of a call, or return its error, mapped by \<open>h\<close>.\<close>

definition bind :: "(error \<Rightarrow> error) \<Rightarrow> ('s, 'a) run \<Rightarrow> ('a \<Rightarrow> ('s, 'b) run) \<Rightarrow> ('s, 'b) run" where
  "bind h f g s =
     (case f s of
        None \<Rightarrow> None
      | Some (Inl err, s') \<Rightarrow> Some (Inl (h err), s')
      | Some (Inr x, s') \<Rightarrow> g x s')"

text \<open>The tuples of an object and a relation; every error of the store becomes an internal one.\<close>

definition listTuples ::
  "'s list_fun \<Rightarrow> go_context \<Rightarrow> string \<Rightarrow> string \<Rightarrow> string \<Rightarrow> ('s, InternalRelationTuple list) run" where
  "listTuples lister ctx namespace object relation s =
     Some (lister ctx \<lparr>lq_Namespace = namespace, lq_Object = object, lq_Relations = [relation], lq_Subject = None\<rparr> s)"

text \<open>
  The loop over tuples. The relation \<open>...\<close> of a subject set stands for the relation that is expanded;
  an expansion without a tree adds no child.
\<close>

fun expandTuples ::
  "'s expand_fun \<Rightarrow> go_context \<Rightarrow> string \<Rightarrow> 64 word \<Rightarrow> InternalRelationTuple list \<Rightarrow> SubjectTree list
     \<Rightarrow> ('s, SubjectTree list) run" where
  "expandTuples exp ctx relation depth [] children = returns children"
| "expandTuples exp ctx relation depth (tuple # tuples) children =
     (case irt_Subject tuple of
        SubjSet ss \<Rightarrow>
          (let rr = (if ss_Relation ss = ''...'' then relation else ss_Relation ss) in
           bind id (exp ctx (ss_Namespace ss) (ss_Object ss) rr (depth - 1))
             (\<lambda>t. expandTuples exp ctx relation depth tuples
                (children @ (case t of None \<Rightarrow> [] | Some t' \<Rightarrow> [t']))))
      | SubjID i \<Rightarrow>
          expandTuples exp ctx relation depth tuples (children @ [SubjectTree LeafNode (SubjID i) []]))"

text \<open>
  The children of a rewrite, each appending to the children of the tree. A nested rewrite is
  expanded in a subtree with the same subject.
\<close>

function expandWithRewrite ::
  "'s list_fun \<Rightarrow> 's expand_fun \<Rightarrow> go_context \<Rightarrow> Rewrite \<Rightarrow> SubjectTree \<Rightarrow> string \<Rightarrow> string \<Rightarrow> string \<Rightarrow> 64 word
     \<Rightarrow> ('s, SubjectTree) run"
  and expandChildren ::
  "'s list_fun \<Rightarrow> 's expand_fun \<Rightarrow> go_context \<Rightarrow> SetOperation_Child list \<Rightarrow> SubjectTree \<Rightarrow> string \<Rightarrow> string \<Rightarrow> string \<Rightarrow> 64 word
     \<Rightarrow> ('s, SubjectTree) run"
  and expandChild ::
  "'s list_fun \<Rightarrow> 's expand_fun \<Rightarrow> go_context \<Rightarrow> SetOperation_Child \<Rightarrow> SubjectTree \<Rightarrow> string \<Rightarrow> string \<Rightarrow> string \<Rightarrow> 64 word
     \<Rightarrow> ('s, SubjectTree list) run"
where
  "expandWithRewrite lister exp ctx (Rewrite_Intersection cs) tree namespace object relation depth =
     expandChildren lister exp ctx cs (SubjectTree IntersectionNode (tree_Subject tree) (tree_Children tree))
       namespace object relation depth"
| "expandWithRewrite lister exp ctx (Rewrite_Union cs) tree namespace object relation depth =
     expandChildren lister exp ctx cs (SubjectTree UnionNode (tree_Subject tree) (tree_Children tree))
       namespace object relation depth"
| "expandWithRewrite lister exp ctx RewriteNil tree namespace object relation depth = returns tree"
| "expandChildren lister exp ctx [] tree namespace object relation depth = returns tree"
| "expandChildren lister exp ctx (c # cs) tree namespace object relation depth =
     bind id (expandChild lister exp ctx c tree namespace object relation depth)
       (\<lambda>children. expandChildren lister exp ctx cs (SubjectTree (tree_Type tree) (tree_Subject tree) children)
          namespace object relation depth)"
| "expandChild lister exp ctx (Child_Rewrite rewrite) tree namespace object relation depth =
     bind id (expandWithRewrite lister exp ctx rewrite (SubjectTree '''' (tree_Subject tree) [])
         namespace object relation depth)
       (\<lambda>t. returns (tree_Children tree @ [t]))"
| "expandChild lister exp ctx Child_This tree namespace object relation depth =
     bind (\<lambda>_. internalErrorStatus) (listTuples lister ctx namespace object relation)
       (\<lambda>tuples. expandTuples exp ctx relation depth tuples (tree_Children tree))"
| "expandChild lister exp ctx (Child_ComputedSubjectset r) tree namespace object relation depth =
     bind id (exp ctx namespace object r (depth - 1))
       (\<lambda>t. returns (tree_Children tree @ (case t of None \<Rightarrow> [] | Some t' \<Rightarrow> [t'])))"
| "expandChild lister exp ctx (Child_TupleToSubjectset tupleset computed) tree namespace object relation depth =
     (let rr = (if GetString tupleset = ''...'' then relation else GetString tupleset) in
      bind (\<lambda>_. internalErrorStatus) (listTuples lister ctx namespace object rr)
        (\<lambda>tuples. expandTuples exp ctx relation depth tuples (tree_Children tree)))"
| "expandChild lister exp ctx ChildNil tree namespace object relation depth = returns (tree_Children tree)"
  by pat_completeness simp_all
termination
  by (relation "measure (\<lambda>x. case x of
      Inl (_, _, _, rw, _) \<Rightarrow> size rw
    | Inr (Inl (_, _, _, cs, _)) \<Rightarrow> size_list size cs
    | Inr (Inr (_, _, _, c, _)) \<Rightarrow> size c)") simp_all

definition expand_body :: "inmemPeerNamespaceConfigStore \<Rightarrow> 's list_fun \<Rightarrow> 's expand_fun \<Rightarrow> 's expand_fun" where
  "expand_body peers lister exp ctx namespace object relation depth =
     (case chooseNamespaceConfigSnapshot peers namespace of
        Inl err \<Rightarrow> fails (if err = ErrNoLocalNamespacesDefined then nsUndefinedStatus namespace
                         else internalErrorStatus)
      | Inr configSnapshot \<Rightarrow>
          (let tree = SubjectTree '''' (SubjSet \<lparr>ss_Namespace = namespace, ss_Object = object, ss_Relation = relation\<rparr>) []
           in case rewriteFromNamespaceConfig relation (snap_Config configSnapshot) of
                None \<Rightarrow> returns None
              | Some rewrite \<Rightarrow>
                  bind id (expandWithRewrite lister exp
                      (NewContextWithNamespaceConfigTimestamp ctx namespace (snap_Timestamp configSnapshot))
                      rewrite tree namespace object relation depth)
                    (\<lambda>t. returns (Some t))))"

fun expand :: "inmemPeerNamespaceConfigStore \<Rightarrow> 's list_fun \<Rightarrow> nat \<Rightarrow> 's expand_fun" where
  "expand peers lister 0 ctx namespace object relation depth = (\<lambda>s. None)"
| "expand peers lister (Suc k) ctx namespace object relation depth =
     expand_body peers lister (expand peers lister k) ctx namespace object relation depth"

text \<open>The RPC handler; the request carries the subject set, the response the tree.\<close>

definition Expand ::
  "'s expand_fun \<Rightarrow> go_context \<Rightarrow> pb_SubjectSet option \<Rightarrow> ('s, pb_SubjectTree option) run" where
  "Expand exp ctx req =
     (case req of
        None \<Rightarrow> fails (requiredStatus ''subjectSet'')
      | Some subject \<Rightarrow>
          if pbss_Namespace subject = '''' then fails (requiredStatus ''subjectSet.namespace'')
          else if pbss_Object subject = '''' then fails (requiredStatus ''subjectSet.object'')
          else if pbss_Relation subject = '''' then fails (requiredStatus ''subjectSet.relation'')
          else bind id (exp ctx (pbss_Namespace subject) (pbss_Object subject) (pbss_Relation subject) 12)
                 (\<lambda>tree. returns (SubjectTree_ToProto_ptr tree)))"

subsection \<open>Runs that succeed\<close>

lemma bind_Inr:
  "bind h f g s = Some (Inr y, s'') \<longleftrightarrow> (\<exists>x s'. f s = Some (Inr x, s') \<and> g x s' = Some (Inr y, s''))"
  by (auto simp: bind_def split: option.splits sum.splits)

lemma returns_Inr [simp]: "returns x s = Some (Inr y, s') \<longleftrightarrow> y = x \<and> s' = s"
  by (auto simp: returns_def)

lemma fails_Inr [simp]: "fails e s \<noteq> Some (Inr y, s')"
  by (simp add: fails_def)

lemma bind_None: "bind h f g s = None \<longleftrightarrow> f s = None \<or> (\<exists>x s'. f s = Some (Inr x, s') \<and> g x s' = None)"
  by (auto simp: bind_def split: option.splits sum.splits)

subsection \<open>The depth is never looked at\<close>

lemma bind_cong_run: "f = f' \<Longrightarrow> (\<And>x. g x = g' x) \<Longrightarrow> bind h f g = bind h f' g'"
  by (rule ext) (simp add: bind_def split: option.splits sum.splits)

definition ignores_depth :: "'s expand_fun \<Rightarrow> bool" where
  "ignores_depth exp \<longleftrightarrow> (\<forall>ctx ns obj rel d d'. exp ctx ns obj rel d = exp ctx ns obj rel d')"

lemma expandTuples_depth:
  assumes "ignores_depth exp"
  shows "expandTuples exp ctx relation depth tuples children = expandTuples exp ctx relation depth' tuples children"
proof (induction tuples arbitrary: children)
  case (Cons t ts)
  have "exp ctx ns obj rel (depth - 1) = exp ctx ns obj rel (depth' - 1)" for ns obj rel
    using assms unfolding ignores_depth_def by blast
  with Cons show ?case by (auto simp: Let_def intro!: bind_cong_run split: Subject.splits)
qed simp

lemma expandChildren_depth:
  assumes "\<And>c tree. c \<in> set cs \<Longrightarrow> expandChild lister exp ctx c tree ns obj rel depth
      = expandChild lister exp ctx c tree ns obj rel depth'"
  shows "expandChildren lister exp ctx cs tree ns obj rel depth = expandChildren lister exp ctx cs tree ns obj rel depth'"
  using assms by (induction cs arbitrary: tree) (auto intro!: bind_cong_run)

lemma expandWithRewrite_depth:
  assumes "ignores_depth exp"
  shows "expandWithRewrite lister exp ctx rw tree ns obj rel depth = expandWithRewrite lister exp ctx rw tree ns obj rel depth'"
    and "expandChild lister exp ctx c tree ns obj rel depth = expandChild lister exp ctx c tree ns obj rel depth'"
proof (induction rw and c arbitrary: tree and tree)
  case (Child_ComputedSubjectset r)
  have "exp ctx ns obj r (depth - 1) = exp ctx ns obj r (depth' - 1)"
    using assms unfolding ignores_depth_def by blast
  then show ?case by simp
qed (auto simp: Let_def intro!: bind_cong_run expandChildren_depth expandTuples_depth [OF assms])

lemma ignores_depth_expand: "ignores_depth (expand peers lister k)"
proof (induction k)
  case (Suc k)
  have "expand_body peers lister (expand peers lister k) ctx ns obj rel d =
      expand_body peers lister (expand peers lister k) ctx ns obj rel d'" for ctx ns obj rel d d'
    unfolding expand_body_def Let_def
    by (simp only: expandWithRewrite_depth(1) [OF Suc, of lister _ _ _ ns obj rel d d'])
  then show ?case by (simp add: ignores_depth_def)
qed (simp add: ignores_depth_def)

end
