(* ===== verification/Cluster_Check.thy ===== *)
theory Cluster_Check
  imports Check_Spec
begin

section \<open>Checks across the cluster\<close>

text \<open>
  The evaluation of \<open>Check_Spec\<close> composed over nodes. Soundness: an answer of any node, wherever the
  request was forwarded, is the answer of the specification, as long as the nodes evaluate at
  configurations with the same rules. Completeness: where the goals a check can reach are ranked and
  nothing fails, the check has exactly one outcome, and twice the rank in nested calls is enough (one
  call to evaluate a goal and one more when it is forwarded).
\<close>

subsection \<open>Clusters\<close>

definition cl_nodes :: "'r cluster \<Rightarrow> 'r AccessController set" where
  "cl_nodes C = {b. \<exists>addr. cl_server C addr = Some b}"

text \<open>gRPC carries no context values: a request arrives with a context that has none.\<close>

definition wire_drops_values :: "'r cluster \<Rightarrow> bool" where
  "wire_drops_values C \<longleftrightarrow> (\<forall>ctx. ctx_values (cl_wire C ctx) = [])"

text \<open>The nodes evaluate at configurations that have the rules of \<open>A\<close>.\<close>

definition same_rules :: "'r cluster \<Rightarrow> acl \<Rightarrow> bool" where
  "same_rules C A \<longleftrightarrow>
     (\<forall>b \<in> cl_nodes C. \<forall>ns cfg rel. node_config b ns = Some cfg \<longrightarrow>
        rewriteFromNamespaceConfig rel (Some cfg) = acl_rules A ns rel)"

text \<open>
  A quiet cluster: no transport errors, no deadline on the server's side, one ring on every node, and
  the owner of every key is the node itself or one that its clients reach.
\<close>

definition quiet :: "'r cluster \<Rightarrow> bool" where
  "quiet C \<longleftrightarrow>
     (\<forall>addr. cl_transport C addr = []) \<and> (\<forall>ctx. ctx_done (cl_wire C ctx) = None)
   \<and> (\<forall>a \<in> cl_nodes C. \<forall>b \<in> cl_nodes C. Hashring a = Hashring b)
   \<and> (\<forall>a \<in> cl_nodes C. \<forall>key. \<exists>m. ring_LocateKey (cl_lib C) (Hashring a) key = Some m
        \<and> (m \<noteq> server_id a \<longrightarrow> (\<exists>addr b. GetClient (RPCRouter a) m = Inr (CheckServiceClient addr)
             \<and> cl_server C addr = Some b \<and> server_id b = m)))"

text \<open>The reads that a check makes in a namespace do not fail.\<close>

definition reliable :: "tuple_store \<Rightarrow> string \<Rightarrow> bool" where
  "reliable store ns \<longleftrightarrow>
     (\<forall>obj rel u. \<exists>n. set (store_RowCount store \<lparr>q_Object = \<lparr>obj_Namespace = ns, obj_ID = obj\<rparr>,
        q_Relations = [rel], q_Subject = SubjID \<lparr>ID = u\<rparr>\<rparr>) = {Inr n})
   \<and> (\<forall>obj rel. \<exists>ss. set (store_SubjectSets store \<lparr>obj_Namespace = ns, obj_ID = obj\<rparr> [rel]) = {Inr ss})"

subsection \<open>Ranked goals\<close>

type_synonym goal = "string \<times> string \<times> string"

fun child_goals :: "acl \<Rightarrow> goal \<Rightarrow> SetOperation_Child \<Rightarrow> goal set"
  and rewrite_goals :: "acl \<Rightarrow> goal \<Rightarrow> Rewrite \<Rightarrow> goal set" where
  "child_goals A (ns, obj, rel) Child_This =
     (\<lambda>s. (ss_Namespace s, ss_Object s, ss_Relation s)) ` acl_sets A ns obj rel"
| "child_goals A (ns, obj, rel) (Child_ComputedSubjectset r) = {(ns, obj, r)}"
| "child_goals A (ns, obj, rel) (Child_TupleToSubjectset ts cset) =
     (\<lambda>s. (ss_Namespace s, ss_Object s, if ss_Relation s = ''...'' then GetString cset else ss_Relation s))
       ` acl_sets A ns obj (GetString ts)"
| "child_goals A g (Child_Rewrite rw) = rewrite_goals A g rw"
| "child_goals A g ChildNil = {}"
| "rewrite_goals A g (Rewrite_Union cs) = (\<Union>c \<in> set cs. child_goals A g c)"
| "rewrite_goals A g (Rewrite_Intersection cs) = (\<Union>c \<in> set cs. child_goals A g c)"
| "rewrite_goals A g RewriteNil = {}"

text \<open>
  A set of goals that evaluation does not leave, with a rank that every nested call lowers, in
  namespaces that every node has a configuration of.
\<close>

definition ranked_goals :: "'r cluster \<Rightarrow> acl \<Rightarrow> goal set \<Rightarrow> (goal \<Rightarrow> nat) \<Rightarrow> bool" where
  "ranked_goals C A G rank \<longleftrightarrow>
     (\<forall>(ns, obj, rel) \<in> G. ns \<noteq> '''' \<and> obj \<noteq> '''' \<and> rel \<noteq> ''''
        \<and> (\<forall>b \<in> cl_nodes C. node_config b ns \<noteq> None)
        \<and> (\<forall>rw. acl_rules A ns rel = Some rw \<longrightarrow>
             (\<forall>g \<in> rewrite_goals A (ns, obj, rel) rw. g \<in> G \<and> rank g < rank (ns, obj, rel))))"

lemma ranked_goalsD:
  assumes "ranked_goals C A G rank" "(ns, obj, rel) \<in> G"
  shows "ns \<noteq> ''''" "obj \<noteq> ''''" "rel \<noteq> ''''"
    and "\<And>b. b \<in> cl_nodes C \<Longrightarrow> \<exists>cfg. node_config b ns = Some cfg"
    and "\<And>rw g. acl_rules A ns rel = Some rw \<Longrightarrow> g \<in> rewrite_goals A (ns, obj, rel) rw \<Longrightarrow>
           g \<in> G \<and> rank g < rank (ns, obj, rel)"
  using assms unfolding ranked_goals_def by fast+

subsection \<open>Settled outcomes\<close>

lemma set_eq_singleton_Inr:
  assumes "xs \<noteq> []" "\<And>e. Inl e \<notin> set xs" "\<And>b'. Inr b' \<in> set xs \<Longrightarrow> b' = b"
  shows "set xs = {Inr b}"
proof -
  have "y = Inr b" if "y \<in> set xs" for y
    by (cases y rule: sum.exhaust) (use that assms(2,3) in auto)
  with assms(1) show ?thesis by (cases xs) auto
qed

lemma onResult_settled:
  assumes "set rs = {Inr x}"
  shows "set (onResult rs f g) = set (g x)"
proof -
  have "y \<in> set (onResult rs f g) \<longleftrightarrow> y \<in> set (g x)" for y
    unfolding set_onResult assms by simp
  then show ?thesis by blast
qed

lemma anyPermitted_settled:
  assumes "\<And>s. s \<in> set ss \<Longrightarrow> set (chk s) = {Inr (P s)}"
  shows "set (anyPermitted chk ss) = {Inr (\<exists>s \<in> set ss. P s)}"
  using assms
proof (induction ss)
  case (Cons s ss)
  have "set (chk s) = {Inr (P s)}" by (simp add: Cons.prems)
  note * = onResult_settled [OF this]
  have "set (anyPermitted chk ss) = {Inr (\<exists>s \<in> set ss. P s)}"
    by (rule Cons.IH) (simp add: Cons.prems)
  then show ?case by (simp add: *)
qed simp

lemma selectOutcomes_settled:
  assumes "\<And>c. c \<in> set cs \<Longrightarrow> set (f c) = {Inr (P c)}" and "ctx_done ctx = None"
  shows "set (selectOutcomes d ctx (map f cs)) = {Inr (if \<exists>c \<in> set cs. P c = d then d else \<not> d)}"
proof -
  have "selectOutcomes d ctx (map f cs) \<noteq> []"
  proof (cases "\<exists>c \<in> set cs. P c = d")
    case True
    then have "Inr d \<in> set (selectOutcomes d ctx (map f cs))"
      using assms(1) by (auto simp: selectOutcomes_Inr)
    then show ?thesis by auto
  next
    case False
    then have "Inr (\<not> d) \<in> set (selectOutcomes d ctx (map f cs))"
      using assms(1) by (auto simp: selectOutcomes_Inr)
    then show ?thesis by auto
  qed
  then show ?thesis
    by (rule set_eq_singleton_Inr) (use assms in \<open>auto simp: selectOutcomes_Inr selectOutcomes_Inl\<close>)
qed

lemma callPeer_Inr:
  "Inr b \<in> set (callPeer C chk addr ctx req) \<longleftrightarrow>
     (\<exists>a. cl_server C addr = Some a \<and> Inr b \<in> set (Check (chk a) (cl_wire C ctx) req))"
proof -
  have "Inr b \<in> map_sum rpc_error id ` S \<longleftrightarrow> Inr b \<in> S" for S :: "outcome set"
  proof
    assume "Inr b \<in> map_sum rpc_error id ` S"
    then obtain r where "r \<in> S" "Inr b = map_sum rpc_error id r" by blast
    then show "Inr b \<in> S" by (cases r rule: sum.exhaust) simp_all
  qed (metis image_eqI map_sum.simps(2) id_apply)
  then show ?thesis by (cases "cl_server C addr") (auto simp: callPeer_def)
qed

lemma callPeer_settled:
  assumes "cl_transport C addr = []" "cl_server C addr = Some b"
    "set (Check (chk b) (cl_wire C ctx) req) = {Inr p}"
  shows "set (callPeer C chk addr ctx req) = {Inr p}"
  using assms by (simp add: callPeer_def)

lemma proxyOutcomes_settled:
  assumes "set rs = {Inr p}"
  shows "set (proxyOutcomes (concat (map (proxyRetries self locate getClient call n log) rs)) ev) = {Inr p}"
proof -
  have "proxyRetries self locate getClient call n log (Inr p) = [(log, Answer p)]"
    by (simp add: proxyRetries.simps)
  with assms show ?thesis by (auto simp: proxyOutcomes_def)
qed

lemma same_rulesD:
  "same_rules C A \<Longrightarrow> a \<in> cl_nodes C \<Longrightarrow> node_config a ns = Some cfg \<Longrightarrow>
     rewriteFromNamespaceConfig rel (Some cfg) = acl_rules A ns rel"
  unfolding same_rules_def by blast

text \<open>Where a verdict of a node comes from, with the node that answered.\<close>

lemma check_cases:
  assumes out: "Inr b \<in> set (check C (Suc k) a ctx ns obj rel u)" and ctx: "snapshot_ctx a ctx"
    and wire: "wire_drops_values C"
  obtains (undefined) cfg where "node_config a ns = Some cfg" "rewriteFromNamespaceConfig rel (Some cfg) = None"
      "b = False"
  | (evaluated) cfg rw ctx' where "node_config a ns = Some cfg" "rewriteFromNamespaceConfig rel (Some cfg) = Some rw"
      "snapshot_ctx a ctx'" "Inr b \<in> set (checkRewrite (cl_store C) (check C k a) ctx' rw ns obj rel u)"
  | (answered) a' ctx' where "a' \<in> cl_nodes C" "snapshot_ctx a' ctx'" "Inr b \<in> set (check C k a' ctx' ns obj rel u)"
  using out [unfolded check.simps] ctx
proof (cases rule: check_body_cases)
  case (answered addr ctx')
  then obtain a' where a': "cl_server C addr = Some a'"
    and "Inr b \<in> set (Check (check C k a') (cl_wire C ctx') (check_request ns obj rel u))"
    by (auto simp: callPeer_Inr)
  then have "Inr b \<in> set (check C k a' (cl_wire C ctx') ns obj rel u)"
    using subject_id.from_proto [of "\<lparr>ID = u\<rparr>"]
    by (auto simp: Check_def check_request_def Subject_String_def SubjectID_String_def split: if_splits)
  moreover have "a' \<in> cl_nodes C" using a' by (auto simp: cl_nodes_def)
  moreover have "snapshot_ctx a' (cl_wire C ctx')" using wire by (simp add: wire_drops_values_def)
  ultimately show ?thesis using that(3) by blast
qed (use that in blast)+

subsection \<open>Soundness and completeness over a store\<close>

context tuple_source
begin

lemma check_grants:
  assumes C: "cl_store C = store" "wire_drops_values C" "same_rules C A"
  shows "a \<in> cl_nodes C \<Longrightarrow> snapshot_ctx a ctx \<Longrightarrow> Inr True \<in> set (check C k a ctx ns obj rel u) \<Longrightarrow>
      related A u ns obj rel"
proof (induction k arbitrary: a ctx ns obj rel)
  case (Suc k)
  from Suc.prems(3,2) C(2) show ?case
  proof (cases rule: check_cases)
    case (evaluated cfg rw ctx')
    have "grants (check C k a) ctx' u"
      unfolding grants_def using Suc.IH [OF Suc.prems(1) evaluated(3)] by blast
    from checkRewrite_grants(1) [OF this] evaluated(4) C(1) have "sat_rewrite A u rw ns obj rel" by simp
    with evaluated(2) same_rulesD [OF C(3) Suc.prems(1) evaluated(1)] show ?thesis
      by (simp add: related_iff [of A u ns obj rel])
  next
    case (answered a' ctx')
    then show ?thesis by (rule Suc.IH)
  qed simp
qed simp

end

context tuple_reader
begin

definition settles :: "check_fun \<Rightarrow> go_context \<Rightarrow> string \<Rightarrow> goal set \<Rightarrow> bool" where
  "settles chk ctx u G \<longleftrightarrow>
     (\<forall>(ns, obj, rel) \<in> G. set (chk ctx ns obj rel u) = {Inr (related A u ns obj rel)})"

lemma settlesD: "settles chk ctx u G \<Longrightarrow> (ns, obj, rel) \<in> G \<Longrightarrow> set (chk ctx ns obj rel u) = {Inr (related A u ns obj rel)}"
  by (auto simp: settles_def)

lemma settles_subset: "settles chk ctx u G \<Longrightarrow> H \<subseteq> G \<Longrightarrow> settles chk ctx u H"
  unfolding settles_def by blast

lemma checkSubjects_settled:
  assumes "reliable store ns"
    and "\<And>s. s \<in> acl_sets A ns obj rel \<Longrightarrow>
      set (chk ctx (ss_Namespace s) (ss_Object s) (f s) u) = {Inr (related A u (ss_Namespace s) (ss_Object s) (f s))}"
  shows "set (checkSubjects (store_SubjectSets store \<lparr>obj_Namespace = ns, obj_ID = obj\<rparr> [rel])
      (\<lambda>s. chk ctx (ss_Namespace s) (ss_Object s) (f s) u)) =
    {Inr (\<exists>s \<in> acl_sets A ns obj rel. related A u (ss_Namespace s) (ss_Object s) (f s))}"
proof -
  obtain ss where ss: "set (store_SubjectSets store \<lparr>obj_Namespace = ns, obj_ID = obj\<rparr> [rel]) = {Inr ss}"
    using assms(1) unfolding reliable_def by blast
  with subject_sets [of ss ns obj rel] have "set ss = acl_sets A ns obj rel" by simp
  with assms(2) anyPermitted_settled [of ss "\<lambda>s. chk ctx (ss_Namespace s) (ss_Object s) (f s) u"
      "\<lambda>s. related A u (ss_Namespace s) (ss_Object s) (f s)"]
  show ?thesis by (simp add: checkSubjects_def onResult_settled [OF ss])
qed

lemma checkLeaf_settled:
  assumes store: "reliable store ns" and chk: "settles chk ctx u (child_goals A (ns, obj, rel) c)"
    and "GetRewrite c = None"
  shows "set (checkLeaf store chk ctx c ns obj rel u) = {Inr (sat_child A u c ns obj rel)}"
proof (cases c)
  case Child_This
  obtain n where n: "set (store_RowCount store
      \<lparr>q_Object = \<lparr>obj_Namespace = ns, obj_ID = obj\<rparr>, q_Relations = [rel], q_Subject = SubjID \<lparr>ID = u\<rparr>\<rparr>) = {Inr n}"
    using store unfolding reliable_def by blast
  with row_count [of n ns obj rel u] have "n > 0 \<longleftrightarrow> u \<in> acl_direct A ns obj rel" by simp
  moreover have "set (checkSubjects (store_SubjectSets store \<lparr>obj_Namespace = ns, obj_ID = obj\<rparr> [rel])
        (\<lambda>s. chk ctx (ss_Namespace s) (ss_Object s) (ss_Relation s) u)) =
      {Inr (\<exists>s \<in> acl_sets A ns obj rel. related A u (ss_Namespace s) (ss_Object s) (ss_Relation s))}"
    by (rule checkSubjects_settled [OF store], rule settlesD [OF chk]) (use Child_This in auto)
  ultimately show ?thesis
    using Child_This by (simp add: checkLeaf_def Let_def onResult_settled [OF n]) blast
next
  case (Child_TupleToSubjectset ts cset)
  have "set (checkSubjects (store_SubjectSets store \<lparr>obj_Namespace = ns, obj_ID = obj\<rparr> [GetString ts])
        (\<lambda>s. chk ctx (ss_Namespace s) (ss_Object s)
          (if ss_Relation s = ''...'' then GetString cset else ss_Relation s) u)) =
      {Inr (\<exists>s \<in> acl_sets A ns obj (GetString ts). related A u (ss_Namespace s) (ss_Object s)
          (if ss_Relation s = ''...'' then GetString cset else ss_Relation s))}"
    by (rule checkSubjects_settled [OF store], rule settlesD [OF chk]) (use Child_TupleToSubjectset in auto)
  then show ?thesis
    using Child_TupleToSubjectset by (simp add: checkLeaf_def Let_def Bex_def)
next
  case (Child_ComputedSubjectset r)
  with settlesD [OF chk, of ns obj r] show ?thesis by (simp add: checkLeaf_def)
qed (use assms in \<open>auto simp: checkLeaf_def\<close>)

lemma checkRewrite_settled:
  assumes store: "reliable store ns" and ctx: "ctx_done ctx = None"
  shows "settles chk ctx u (rewrite_goals A (ns, obj, rel) rw) \<Longrightarrow>
      set (checkRewrite store chk ctx rw ns obj rel u) = {Inr (sat_rewrite A u rw ns obj rel)}"
    and "settles chk ctx u (child_goals A (ns, obj, rel) c) \<Longrightarrow>
      set (checkChild store chk ctx c ns obj rel u) = {Inr (sat_child A u c ns obj rel)}"
proof (induction rw and c)
  case (Rewrite_Union cs)
  have "set (checkChild store chk ctx c ns obj rel u) = {Inr (sat_child A u c ns obj rel)}" if "c \<in> set cs" for c
    using that Rewrite_Union(1) [OF that settles_subset [OF Rewrite_Union(2)]] by fastforce
  from selectOutcomes_settled [of cs _ "\<lambda>c. sat_child A u c ns obj rel", OF this ctx, of True]
  show ?case by (simp add: Bex_def)
next
  case (Rewrite_Intersection cs)
  have "set (checkChild store chk ctx c ns obj rel u) = {Inr (sat_child A u c ns obj rel)}" if "c \<in> set cs" for c
    using that Rewrite_Intersection(1) [OF that settles_subset [OF Rewrite_Intersection(2)]] by fastforce
  from selectOutcomes_settled [of cs _ "\<lambda>c. sat_child A u c ns obj rel", OF this ctx, of False]
  show ?case by auto
qed (use checkLeaf_settled [OF store] in \<open>simp_all del: sat_child_simps add: nested_iff\<close>)

lemma check_decides:
  assumes C: "cl_store C = store" "wire_drops_values C" "same_rules C A"
  shows "a \<in> cl_nodes C \<Longrightarrow> snapshot_ctx a ctx \<Longrightarrow> Inr b \<in> set (check C k a ctx ns obj rel u) \<Longrightarrow>
      b = related A u ns obj rel"
proof (induction k arbitrary: a ctx ns obj rel b)
  case (Suc k)
  from Suc.prems(3,2) C(2) show ?case
  proof (cases rule: check_cases)
    case (undefined cfg)
    with same_rulesD [OF C(3) Suc.prems(1) undefined(1)] show ?thesis by (simp add: related_iff [of A u ns obj rel])
  next
    case (evaluated cfg rw ctx')
    have "decides (check C k a) ctx' u"
      unfolding decides_def using Suc.IH [OF Suc.prems(1) evaluated(3)] by blast
    from checkRewrite_decides(1) [OF this] evaluated(4) C(1) have "b = sat_rewrite A u rw ns obj rel" by simp
    with evaluated(2) same_rulesD [OF C(3) Suc.prems(1) evaluated(1)] show ?thesis
      by (simp add: related_iff [of A u ns obj rel])
  next
    case (answered a' ctx')
    then show ?thesis by (rule Suc.IH)
  qed
qed simp

text \<open>One node, one goal: evaluated where the object lives, or forwarded there.\<close>

lemma check_body_local:
  assumes store: "reliable store ns" and ctx: "snapshot_ctx a ctx" "checksum_ctx L a ctx" "ctx_done ctx = None"
    and cfg: "node_config a ns = Some cfg"
    and rule: "rewriteFromNamespaceConfig rel (Some cfg) = acl_rules A ns rel"
    and own: "ring_LocateKey L (Hashring a) obj = Some (server_id a)"
    and chk: "\<And>ctx' rw. snapshot_ctx a ctx' \<Longrightarrow> checksum_ctx L a ctx' \<Longrightarrow> ctx_done ctx' = None \<Longrightarrow>
      acl_rules A ns rel = Some rw \<Longrightarrow> settles chk ctx' u (rewrite_goals A (ns, obj, rel) rw)"
  shows "set (check_body L a store chk remote ctx ns obj rel u) = {Inr (related A u ns obj rel)}"
proof -
  obtain ctx1 where ctx1: "checkConfig a ctx ns = Inr (cfg, ctx1)"
    using checkConfig_defined [OF ctx(1) cfg] by blast
  note c1 = checkConfig_snapshot [OF ctx(1) ctx1]
  have sum: "(case ChecksumFromContext ctx of Some c \<Rightarrow> ring_Checksum L (Hashring a) \<noteq> c | None \<Rightarrow> False) = False"
    using ctx(2) by (simp add: checksum_ctx_def split: option.splits)
  show ?thesis
  proof (cases "acl_rules A ns rel")
    case None
    then show ?thesis by (simp add: check_body_def sum ctx1 rule related_iff [of A u ns obj rel])
  next
    case (Some rw)
    have "settles chk ctx1 u (rewrite_goals A (ns, obj, rel) rw)"
      by (rule chk) (use c1 ctx Some in \<open>simp_all add: checksum_ctx_def\<close>)
    from checkRewrite_settled(1) [OF store _ this] c1 ctx(3)
    have "set (checkRewrite store chk ctx1 rw ns obj rel u) = {Inr (sat_rewrite A u rw ns obj rel)}" by simp
    then show ?thesis
      by (simp add: check_body_def sum ctx1 rule Some own related_iff [of A u ns obj rel])
  qed
qed

lemma check_body_forward:
  assumes ctx: "snapshot_ctx a ctx" "checksum_ctx L a ctx"
    and cfg: "node_config a ns = Some cfg"
    and rule: "rewriteFromNamespaceConfig rel (Some cfg) = acl_rules A ns rel"
    and owner: "ring_LocateKey L (Hashring a) obj = Some m" "m \<noteq> server_id a"
      "GetClient (RPCRouter a) m = Inr (CheckServiceClient addr)"
    and remote: "\<And>ctx'. set (remote addr ctx' \<lparr>chk_Namespace = ns, chk_Object = obj, chk_Relation = rel,
          chk_Subject = SubjectID_ToProto (Some \<lparr>ID = u\<rparr>)\<rparr>) = {Inr (related A u ns obj rel)}"
  shows "set (check_body L a store chk remote ctx ns obj rel u) = {Inr (related A u ns obj rel)}"
proof -
  obtain ctx1 where ctx1: "checkConfig a ctx ns = Inr (cfg, ctx1)"
    using checkConfig_defined [OF ctx(1) cfg] by blast
  have sum: "(case ChecksumFromContext ctx of Some c \<Rightarrow> ring_Checksum L (Hashring a) \<noteq> c | None \<Rightarrow> False) = False"
    using ctx(2) by (simp add: checksum_ctx_def split: option.splits)
  show ?thesis
  proof (cases "acl_rules A ns rel")
    case None
    then show ?thesis by (simp add: check_body_def sum ctx1 rule related_iff [of A u ns obj rel])
  next
    case (Some rw)
    then show ?thesis
      by (simp add: check_body_def sum ctx1 rule owner Let_def proxyOutcomes_settled [OF remote])
  qed
qed

lemma Check_settled:
  assumes "ns \<noteq> ''''" "obj \<noteq> ''''" "rel \<noteq> ''''" "set (chk ctx ns obj rel u) = {Inr p}"
  shows "set (Check chk ctx \<lparr>chk_Namespace = ns, chk_Object = obj, chk_Relation = rel,
          chk_Subject = SubjectID_ToProto (Some \<lparr>ID = u\<rparr>)\<rparr>) = {Inr p}"
  using assms subject_id.from_proto [of "\<lparr>ID = u\<rparr>"]
  by (simp add: Check_def Subject_String_def SubjectID_String_def)

lemma check_settles_owner:
  assumes C: "cl_store C = store" "same_rules C A" "\<forall>(ns, obj, rel) \<in> G. reliable store ns" "ranked_goals C A G rank"
    and goal: "(ns, obj, rel) \<in> G" and a: "a \<in> cl_nodes C"
    and own: "ring_LocateKey (cl_lib C) (Hashring a) obj = Some (server_id a)"
    and ctx: "snapshot_ctx a ctx" "checksum_ctx (cl_lib C) a ctx" "ctx_done ctx = None"
    and sub: "\<And>ns' obj' rel' ctx'. (ns', obj', rel') \<in> G \<Longrightarrow> rank (ns', obj', rel') < rank (ns, obj, rel) \<Longrightarrow>
      snapshot_ctx a ctx' \<Longrightarrow> checksum_ctx (cl_lib C) a ctx' \<Longrightarrow> ctx_done ctx' = None \<Longrightarrow>
      set (check C k a ctx' ns' obj' rel' u) = {Inr (related A u ns' obj' rel')}"
  shows "set (check C (Suc k) a ctx ns obj rel u) = {Inr (related A u ns obj rel)}"
proof -
  obtain cfg where cfg: "node_config a ns = Some cfg"
    using ranked_goalsD(4) [OF C(4) goal a] by blast
  have rule: "rewriteFromNamespaceConfig rel (Some cfg) = acl_rules A ns rel"
    using C(2) a cfg unfolding same_rules_def by blast
  have sub': "settles (check C k a) ctx' u (rewrite_goals A (ns, obj, rel) rw)"
    if "snapshot_ctx a ctx'" "checksum_ctx (cl_lib C) a ctx'" "ctx_done ctx' = None" "acl_rules A ns rel = Some rw"
    for ctx' rw
  proof -
    have "set (check C k a ctx' ns' obj' rel' u) = {Inr (related A u ns' obj' rel')}"
      if g: "(ns', obj', rel') \<in> rewrite_goals A (ns, obj, rel) rw" for ns' obj' rel'
      using ranked_goalsD(5) [OF C(4) goal \<open>acl_rules A ns rel = Some rw\<close> g] that
      by (intro sub) (use \<open>snapshot_ctx a ctx'\<close> \<open>checksum_ctx (cl_lib C) a ctx'\<close> \<open>ctx_done ctx' = None\<close> in simp_all)
    then show ?thesis unfolding settles_def by auto
  qed
  have "reliable store ns" using C(3) goal by auto
  note settled = check_body_local [OF this ctx cfg rule own sub']
  show ?thesis unfolding check.simps C(1) by (rule settled)
qed

lemma check_settles:
  assumes C: "cl_store C = store" "wire_drops_values C" "same_rules C A" "quiet C" "\<forall>(ns, obj, rel) \<in> G. reliable store ns"
    "ranked_goals C A G rank"
  shows "(ns, obj, rel) \<in> G \<Longrightarrow> a \<in> cl_nodes C \<Longrightarrow> snapshot_ctx a ctx \<Longrightarrow> checksum_ctx (cl_lib C) a ctx \<Longrightarrow>
      ctx_done ctx = None \<Longrightarrow> 2 * rank (ns, obj, rel) + 2 \<le> k \<Longrightarrow>
      set (check C k a ctx ns obj rel u) = {Inr (related A u ns obj rel)}"
proof (induction "rank (ns, obj, rel)" arbitrary: ns obj rel a ctx k rule: less_induct)
  case less
  obtain j where k: "k = Suc (Suc j)" "2 * rank (ns, obj, rel) \<le> j"
    by (rule that [of "k - 2"]) (use less.prems(6) in simp_all)
  have sub: "set (check C i a' ctx' ns' obj' rel' u) = {Inr (related A u ns' obj' rel')}"
    if "j \<le> i" "a' \<in> cl_nodes C" "(ns', obj', rel') \<in> G" "rank (ns', obj', rel') < rank (ns, obj, rel)"
      "snapshot_ctx a' ctx'" "checksum_ctx (cl_lib C) a' ctx'" "ctx_done ctx' = None"
    for i a' ctx' ns' obj' rel'
    by (rule less.hyps) (use that k in auto)
  note owner = check_settles_owner [OF C(1,3,5,6) less.prems(1), of _ _ _ u]
  obtain m where own: "ring_LocateKey (cl_lib C) (Hashring a) obj = Some m"
    and reach: "m \<noteq> server_id a \<longrightarrow> (\<exists>addr b. GetClient (RPCRouter a) m = Inr (CheckServiceClient addr)
      \<and> cl_server C addr = Some b \<and> server_id b = m)"
    using C(4) less.prems(2) unfolding quiet_def by blast
  show ?case
  proof (cases "m = server_id a")
    case True
    with own have "ring_LocateKey (cl_lib C) (Hashring a) obj = Some (server_id a)" by simp
    from owner [OF less.prems(2) this less.prems(3-5), of "Suc j"] sub [of "Suc j" a] less.prems(2)
    show ?thesis by (simp add: k del: check.simps)
  next
    case False
    with own reach obtain addr b where m: "ring_LocateKey (cl_lib C) (Hashring a) obj = Some m"
      "GetClient (RPCRouter a) m = Inr (CheckServiceClient addr)" "cl_server C addr = Some b" "server_id b = m"
      by blast
    have b: "b \<in> cl_nodes C" using m(3) by (auto simp: cl_nodes_def)
    with C(4) less.prems(2) have "Hashring b = Hashring a" unfolding quiet_def by blast
    with m have own: "ring_LocateKey (cl_lib C) (Hashring b) obj = Some (server_id b)" by simp
    have "ctx_values (cl_wire C ctx') = []" "ctx_done (cl_wire C ctx') = None" for ctx'
      using C(2,4) by (simp_all add: wire_drops_values_def quiet_def)
    from owner [OF b own empty_ctx [OF this(1)] this(2), of j] sub [of j b] b
    have "set (check C (Suc j) b (cl_wire C ctx') ns obj rel u) = {Inr (related A u ns obj rel)}" for ctx'
      by (simp del: check.simps)
    then have "set (Check (check C (Suc j) b) (cl_wire C ctx') \<lparr>chk_Namespace = ns, chk_Object = obj,
        chk_Relation = rel, chk_Subject = SubjectID_ToProto (Some \<lparr>ID = u\<rparr>)\<rparr>) = {Inr (related A u ns obj rel)}" for ctx'
      by (rule Check_settled [OF ranked_goalsD(1-3) [OF C(6) less.prems(1)]])
    moreover have "cl_transport C addr = []" using C(4) by (simp add: quiet_def)
    ultimately have peer: "set (callPeer C (check C (Suc j)) addr ctx' \<lparr>chk_Namespace = ns, chk_Object = obj,
        chk_Relation = rel, chk_Subject = SubjectID_ToProto (Some \<lparr>ID = u\<rparr>)\<rparr>) = {Inr (related A u ns obj rel)}" for ctx'
      by (simp add: callPeer_settled m(3) del: check.simps)
    obtain cfg where cfg: "node_config a ns = Some cfg"
      using ranked_goalsD(4) [OF C(6) less.prems(1,2)] by blast
    have "rewriteFromNamespaceConfig rel (Some cfg) = acl_rules A ns rel"
      using C(3) less.prems(2) cfg unfolding same_rules_def by blast
    note forwarded = check_body_forward [OF less.prems(3,4) cfg this m(1) False m(2)]
    show ?thesis unfolding k(1) check.simps(2) [of C "Suc j"] C(1) by (rule forwarded) (rule peer)
  qed
qed

end

end
