(* ===== verification/Expand_Spec.thy ===== *)
theory Expand_Spec
  imports Expand_Engine Cluster_Check
begin

section \<open>What an expansion shows\<close>

text \<open>
  The set of subjects that a tree denotes, and the theorem that the tree of an expansion denotes the
  relation that \<open>Check\<close> decides (\<open>related\<close>), for the rules and tuples the code expands faithfully.
  The client side of \<open>ListRelationTuples\<close> is the locale \<open>tuple_lister\<close>; the induction on fuel is done
  once, inside it.
\<close>

subsection \<open>Trees as sets of subjects\<close>

fun tree_has :: "string \<Rightarrow> SubjectTree \<Rightarrow> bool" where
  "tree_has u (SubjectTree ty s cs) =
     (if ty = LeafNode then s = SubjID \<lparr>ID = u\<rparr>
      else if ty = UnionNode then list_ex (tree_has u) cs
      else if ty = IntersectionNode then list_all (tree_has u) cs
      else False)"

text \<open>The same for the protobuf form that a client receives.\<close>

fun pb_tree_has :: "string \<Rightarrow> pb_SubjectTree \<Rightarrow> bool" where
  "pb_tree_has u (PbTree ty s cs) =
     (case ty of
        NODE_TYPE_LEAF \<Rightarrow> GetRef s = Some (Subject_Id u)
      | NODE_TYPE_UNION \<Rightarrow> list_ex (pb_tree_has u) cs
      | NODE_TYPE_INTERSECTION \<Rightarrow> list_all (pb_tree_has u) cs
      | NODE_TYPE_UNSPECIFIED \<Rightarrow> False)"

lemma GetRef_Subject_ToProto: "GetRef (Subject_ToProto s) = Some (Subject_Id u) \<longleftrightarrow> s = SubjID \<lparr>ID = u\<rparr>"
  by (cases s) (auto simp: Subject_ToProto_def SubjectID_ToProto_def SubjectSet_ToProto_def GetRef_def)

lemma pb_tree_has_ToProto: "pb_tree_has u (SubjectTree_ToProto t) \<longleftrightarrow> tree_has u t"
proof (induction t)
  case (SubjectTree ty s cs)
  then show ?case
    by (simp add: GetRef_Subject_ToProto list_ex_iff list_all_iff NodeType_ToProto_def)
qed

lemma ex_Subject:
  "(\<exists>x. x \<in> S \<and> (case x of SubjID i \<Rightarrow> P i | SubjSet ss \<Rightarrow> Q ss)) \<longleftrightarrow>
     (\<exists>i. SubjID i \<in> S \<and> P i) \<or> (\<exists>ss. SubjSet ss \<in> S \<and> Q ss)"
  by (auto split: Subject.splits) (metis Subject.exhaust)

subsection \<open>Rules and tuples that are expanded faithfully\<close>

text \<open>
  The loop over tuples appends to the node of the whole rewrite, so a child that contributes other
  than one subtree is right in a union only. A tupleset must hold subject sets only: the code lists
  any other subject of it as a leaf.
\<close>

definition single_child :: "acl \<Rightarrow> string \<Rightarrow> SetOperation_Child \<Rightarrow> bool" where
  "single_child A ns c \<longleftrightarrow>
     (case c of Child_ComputedSubjectset r \<Rightarrow> acl_rules A ns r \<noteq> None | Child_Rewrite _ \<Rightarrow> True | _ \<Rightarrow> False)"

fun faithful_rewrite :: "acl \<Rightarrow> string \<Rightarrow> Rewrite \<Rightarrow> bool"
  and faithful_child :: "acl \<Rightarrow> string \<Rightarrow> SetOperation_Child \<Rightarrow> bool" where
  "faithful_rewrite A ns RewriteNil = True"
| "faithful_rewrite A ns (Rewrite_Union cs) = (\<forall>c \<in> set cs. faithful_child A ns c)"
| "faithful_rewrite A ns (Rewrite_Intersection cs) = (\<forall>c \<in> set cs. faithful_child A ns c \<and> single_child A ns c)"
| "faithful_child A ns (Child_Rewrite rw) = faithful_rewrite A ns rw"
| "faithful_child A ns (Child_TupleToSubjectset ts cset) =
     (GetString ts \<noteq> ''...'' \<and> (\<forall>obj u. u \<in> acl_direct A ns obj (GetString ts) \<longrightarrow> CHR ''#'' \<in> set u))"
| "faithful_child A ns c = True"

definition faithful_rules :: "acl \<Rightarrow> bool" where
  "faithful_rules A \<longleftrightarrow> (\<forall>ns rel rw. acl_rules A ns rel = Some rw \<longrightarrow> faithful_rewrite A ns rw)"

text \<open>Every stored subject set names an object and a relation other than \<open>...\<close>.\<close>

definition tidy_sets :: "acl \<Rightarrow> bool" where
  "tidy_sets A \<longleftrightarrow> (\<forall>ns obj rel ss. wf_SubjectSet ss \<longrightarrow> SubjectSet_String ss \<in> acl_direct A ns obj rel \<longrightarrow>
     ss \<in> acl_sets A ns obj rel \<and> ss_Object ss \<noteq> '''' \<and> ss_Relation ss \<noteq> ''...'')"

definition expands_rules :: "inmemPeerNamespaceConfigStore \<Rightarrow> acl \<Rightarrow> bool" where
  "expands_rules peers A \<longleftrightarrow>
     (\<forall>ns snap rel. chooseNamespaceConfigSnapshot peers ns = Inr snap \<longrightarrow>
        rewriteFromNamespaceConfig rel (snap_Config snap) = acl_rules A ns rel)"

text \<open>
  Goals that an expansion does not leave, in namespaces with a configuration and tuples that can be
  listed (\<open>ok\<close>), with a rank that every nested call lowers.
\<close>

definition ranked_expansion ::
  "acl \<Rightarrow> (string \<Rightarrow> bool) \<Rightarrow> inmemPeerNamespaceConfigStore \<Rightarrow> goal set \<Rightarrow> (goal \<Rightarrow> nat) \<Rightarrow> bool" where
  "ranked_expansion A ok peers G rank \<longleftrightarrow>
     (\<forall>(ns, obj, rel) \<in> G. obj \<noteq> '''' \<and> ok ns \<and> is_ok (chooseNamespaceConfigSnapshot peers ns)
        \<and> (\<forall>rw. acl_rules A ns rel = Some rw \<longrightarrow>
             (\<forall>g \<in> rewrite_goals A (ns, obj, rel) rw. g \<in> G \<and> rank g < rank (ns, obj, rel))))"

subsection \<open>The \<open>ListRelationTuples\<close> interface\<close>

locale tuple_lister =
  fixes lister :: "'s list_fun"
    and inv :: "'s \<Rightarrow> bool"
    and A :: acl
  assumes list_inv: "inv s \<Longrightarrow> lister ctx q s = (r, s') \<Longrightarrow> inv s'"
    and list_subjects: "inv s \<Longrightarrow> obj \<noteq> '''' \<Longrightarrow>
      lister ctx \<lparr>lq_Namespace = ns, lq_Object = obj, lq_Relations = [rel], lq_Subject = None\<rparr> s = (Inr ts, s') \<Longrightarrow>
      irt_Subject ` set ts = {x. wf_Subject x \<and> Subject_String x \<in> acl_direct A ns obj rel}"
    and sets_direct: "ss \<in> acl_sets A ns obj rel \<Longrightarrow> wf_SubjectSet ss \<and> SubjectSet_String ss \<in> acl_direct A ns obj rel"
begin

text \<open>A recursive call shows the relation of its goal: what the induction on fuel provides.\<close>

definition shows_goal :: "string \<Rightarrow> goal \<Rightarrow> SubjectTree option \<Rightarrow> bool" where
  "shows_goal u g t \<longleftrightarrow>
     (case g of (ns, obj, rel) \<Rightarrow>
        (t = None \<longleftrightarrow> acl_rules A ns rel = None) \<and>
        ((\<exists>t'. t = Some t' \<and> tree_has u t') \<longleftrightarrow> related A u ns obj rel))"

definition exact :: "'s expand_fun \<Rightarrow> string \<Rightarrow> bool" where
  "exact exp u \<longleftrightarrow>
     (\<forall>ctx ns obj rel d s t s'. obj \<noteq> '''' \<longrightarrow> inv s \<longrightarrow> exp ctx ns obj rel d s = Some (Inr t, s') \<longrightarrow>
        inv s' \<and> shows_goal u (ns, obj, rel) t)"

lemma exactD:
  "exact exp u \<Longrightarrow> exp ctx ns obj rel d s = Some (Inr t, s') \<Longrightarrow> obj \<noteq> '''' \<Longrightarrow> inv s \<Longrightarrow>
     inv s' \<and> shows_goal u (ns, obj, rel) t"
  unfolding exact_def by blast

definition subject_has :: "string \<Rightarrow> Subject \<Rightarrow> bool" where
  "subject_has u x =
     (case x of SubjID i \<Rightarrow> ID i = u
      | SubjSet ss \<Rightarrow> related A u (ss_Namespace ss) (ss_Object ss) (ss_Relation ss))"

lemma expandTuples_exact:
  assumes exp: "exact exp u"
  shows "inv s \<Longrightarrow> expandTuples exp ctx rel d ts children s = Some (Inr children', s') \<Longrightarrow>
    \<forall>t \<in> set ts. case irt_Subject t of SubjSet ss \<Rightarrow> ss_Object ss \<noteq> '''' \<and> ss_Relation ss \<noteq> ''...'' | _ \<Rightarrow> True \<Longrightarrow>
    inv s' \<and> (\<exists>new. children' = children @ new \<and>
      (list_ex (tree_has u) new \<longleftrightarrow> (\<exists>x \<in> irt_Subject ` set ts. subject_has u x)))"
proof (induction ts arbitrary: children s)
  case (Cons t ts)
  show ?case
  proof (cases "irt_Subject t")
    case (SubjID i)
    with Cons.prems(2) have rest: "expandTuples exp ctx rel d ts (children @ [SubjectTree LeafNode (SubjID i) []]) s
        = Some (Inr children', s')" by simp
    from Cons.IH [OF Cons.prems(1) rest] Cons.prems(3) obtain new where new: "inv s'"
      "children' = (children @ [SubjectTree LeafNode (SubjID i) []]) @ new"
      "list_ex (tree_has u) new \<longleftrightarrow> (\<exists>x \<in> irt_Subject ` set ts. subject_has u x)" by auto
    then show ?thesis using SubjID
      by (intro conjI exI [of _ "SubjectTree LeafNode (SubjID i) [] # new"]) (auto simp: subject_has_def)
  next
    case (SubjSet ss)
    with Cons.prems(3) have ss: "ss_Object ss \<noteq> ''''" "ss_Relation ss \<noteq> ''...''" by auto
    from Cons.prems(2) SubjSet ss(2) obtain t' s1 where
      t': "exp ctx (ss_Namespace ss) (ss_Object ss) (ss_Relation ss) (d - 1) s = Some (Inr t', s1)" and
      rest: "expandTuples exp ctx rel d ts (children @ (case t' of None \<Rightarrow> [] | Some x \<Rightarrow> [x])) s1 = Some (Inr children', s')"
      by (auto simp: bind_Inr Let_def)
    note g = exactD [OF exp t' ss(1) Cons.prems(1)]
    from Cons.IH [OF _ rest] g Cons.prems(3) obtain new where new: "inv s'"
      "children' = (children @ (case t' of None \<Rightarrow> [] | Some x \<Rightarrow> [x])) @ new"
      "list_ex (tree_has u) new \<longleftrightarrow> (\<exists>x \<in> irt_Subject ` set ts. subject_has u x)" by auto
    with g SubjSet show ?thesis
      by (intro conjI exI [of _ "(case t' of None \<Rightarrow> [] | Some x \<Rightarrow> [x]) @ new"])
        (auto simp: subject_has_def shows_goal_def split: option.splits)
  qed
qed simp

text \<open>One read and the loop over its tuples.\<close>

lemma listed_exact:
  assumes exp: "exact exp u" and tidy: "tidy_sets A" and u: "CHR ''#'' \<notin> set u" and s: "inv s" and obj: "obj \<noteq> ''''"
    and run: "bind h (listTuples lister ctx ns obj rel')
      (\<lambda>tuples. expandTuples exp ctx rel d tuples children) s = Some (Inr children', s')"
  shows "inv s' \<and> (\<exists>new. children' = children @ new \<and>
    (list_ex (tree_has u) new \<longleftrightarrow> u \<in> acl_direct A ns obj rel' \<or>
      (\<exists>ss \<in> acl_sets A ns obj rel'. related A u (ss_Namespace ss) (ss_Object ss) (ss_Relation ss))))"
proof -
  obtain ts s1 where ts: "lister ctx \<lparr>lq_Namespace = ns, lq_Object = obj, lq_Relations = [rel'], lq_Subject = None\<rparr> s = (Inr ts, s1)"
    and rest: "expandTuples exp ctx rel d ts children s1 = Some (Inr children', s')"
    using run by (auto simp: bind_Inr listTuples_def)
  have subj: "irt_Subject ` set ts = {x. wf_Subject x \<and> Subject_String x \<in> acl_direct A ns obj rel'}"
    by (rule list_subjects [OF s obj ts])
  have sets: "SubjSet ss \<in> irt_Subject ` set ts \<longleftrightarrow> ss \<in> acl_sets A ns obj rel'" for ss
    using tidy sets_direct [of ss ns obj rel'] unfolding subj tidy_sets_def
    by (auto simp: wf_Subject_def Subject_String_def)
  have ids: "(\<exists>i. SubjID i \<in> irt_Subject ` set ts \<and> ID i = u) \<longleftrightarrow> u \<in> acl_direct A ns obj rel'"
    using u unfolding subj by (auto simp: wf_Subject_def Subject_String_def SubjectID_String_def intro: exI [of _ "\<lparr>ID = u\<rparr>"])
  have "\<forall>t \<in> set ts. case irt_Subject t of SubjSet ss \<Rightarrow> ss_Object ss \<noteq> '''' \<and> ss_Relation ss \<noteq> ''...'' | _ \<Rightarrow> True"
  proof
    fix t
    assume "t \<in> set ts"
    then have mem: "irt_Subject t \<in> irt_Subject ` set ts" by (rule imageI)
    show "case irt_Subject t of SubjSet ss \<Rightarrow> ss_Object ss \<noteq> '''' \<and> ss_Relation ss \<noteq> ''...'' | _ \<Rightarrow> True"
    proof (cases "irt_Subject t")
      case (SubjSet ss)
      with mem sets [of ss] have "ss \<in> acl_sets A ns obj rel'" by simp
      from sets_direct [OF this] tidy have "ss_Object ss \<noteq> '''' \<and> ss_Relation ss \<noteq> ''...''"
        unfolding tidy_sets_def by blast
      with SubjSet show ?thesis by simp
    qed simp
  qed
  from expandTuples_exact [OF exp list_inv [OF s ts] rest this]
  have "inv s' \<and> (\<exists>new. children' = children @ new \<and>
      (list_ex (tree_has u) new \<longleftrightarrow> (\<exists>x \<in> irt_Subject ` set ts. subject_has u x)))" .
  moreover have "(\<exists>x \<in> irt_Subject ` set ts. subject_has u x) \<longleftrightarrow>
      (\<exists>i. SubjID i \<in> irt_Subject ` set ts \<and> ID i = u) \<or>
      (\<exists>ss. SubjSet ss \<in> irt_Subject ` set ts \<and> related A u (ss_Namespace ss) (ss_Object ss) (ss_Relation ss))"
    unfolding subject_has_def Bex_def by (rule ex_Subject)
  ultimately show ?thesis unfolding sets ids by blast
qed

text \<open>The children of a rewrite, from what each of them appends.\<close>

definition child_exact :: "string \<Rightarrow> SetOperation_Child \<Rightarrow> goal \<Rightarrow> SubjectTree list \<Rightarrow> bool" where
  "child_exact u c g new \<longleftrightarrow>
     (case g of (ns, obj, rel) \<Rightarrow>
        (list_ex (tree_has u) new \<longleftrightarrow> sat_child A u c ns obj rel) \<and> (single_child A ns c \<longrightarrow> length new = 1))"

lemma child_exact_single:
  "child_exact u c (ns, obj, rel) new \<Longrightarrow> single_child A ns c \<Longrightarrow>
     list_all (tree_has u) new \<longleftrightarrow> sat_child A u c ns obj rel"
  by (auto simp: child_exact_def length_Suc_conv)

definition appends_exact :: "'s expand_fun \<Rightarrow> go_context \<Rightarrow> string \<Rightarrow> goal \<Rightarrow> 64 word \<Rightarrow> SetOperation_Child \<Rightarrow> bool" where
  "appends_exact exp ctx u g d c \<longleftrightarrow>
     (case g of (ns, obj, rel) \<Rightarrow>
        \<forall>tree s children s'. inv s \<longrightarrow> expandChild lister exp ctx c tree ns obj rel d s = Some (Inr children, s') \<longrightarrow>
          inv s' \<and> (\<exists>new. children = tree_Children tree @ new \<and> child_exact u c g new))"

lemma appends_exactD:
  "appends_exact exp ctx u (ns, obj, rel) d c \<Longrightarrow> inv s \<Longrightarrow>
     expandChild lister exp ctx c tree ns obj rel d s = Some (Inr children, s') \<Longrightarrow>
     inv s' \<and> (\<exists>new. children = tree_Children tree @ new \<and> child_exact u c (ns, obj, rel) new)"
  unfolding appends_exact_def by simp

lemma expandChildren_exact:
  assumes "\<forall>c \<in> set cs. appends_exact exp ctx u (ns, obj, rel) d c"
  shows "inv s \<Longrightarrow> expandChildren lister exp ctx cs tree ns obj rel d s = Some (Inr t, s') \<Longrightarrow>
    inv s' \<and> (\<exists>new. t = SubjectTree (tree_Type tree) (tree_Subject tree) (tree_Children tree @ new)
      \<and> (list_ex (tree_has u) new \<longleftrightarrow> (\<exists>c \<in> set cs. sat_child A u c ns obj rel))
      \<and> ((\<forall>c \<in> set cs. single_child A ns c) \<longrightarrow>
          (list_all (tree_has u) new \<longleftrightarrow> (\<forall>c \<in> set cs. sat_child A u c ns obj rel))))"
  using assms
proof (induction cs arbitrary: tree s)
  case Nil
  then show ?case by (cases tree) simp
next
  case (Cons c cs)
  obtain children s1 where c: "expandChild lister exp ctx c tree ns obj rel d s = Some (Inr children, s1)"
    and rest: "expandChildren lister exp ctx cs (SubjectTree (tree_Type tree) (tree_Subject tree) children) ns obj rel d s1
      = Some (Inr t, s')"
    using Cons.prems(2) by (auto simp: bind_Inr)
  obtain new1 where new1: "inv s1" "children = tree_Children tree @ new1" "child_exact u c (ns, obj, rel) new1"
    using appends_exactD [OF _ Cons.prems(1) c] Cons.prems(3) by auto
  obtain new2 where new2: "inv s'"
      "t = SubjectTree (tree_Type tree) (tree_Subject tree) (children @ new2)"
      "list_ex (tree_has u) new2 \<longleftrightarrow> (\<exists>c \<in> set cs. sat_child A u c ns obj rel)"
      "(\<forall>c \<in> set cs. single_child A ns c) \<longrightarrow>
          (list_all (tree_has u) new2 \<longleftrightarrow> (\<forall>c \<in> set cs. sat_child A u c ns obj rel))"
    using Cons.IH [OF new1(1) rest] Cons.prems(3) by auto
  show ?case
  proof (intro conjI exI [of _ "new1 @ new2"])
    show "list_ex (tree_has u) (new1 @ new2) \<longleftrightarrow> (\<exists>c \<in> set (c # cs). sat_child A u c ns obj rel)"
      using new1(3) new2(3) by (auto simp: child_exact_def)
    show "(\<forall>c \<in> set (c # cs). single_child A ns c) \<longrightarrow>
        (list_all (tree_has u) (new1 @ new2) \<longleftrightarrow> (\<forall>c \<in> set (c # cs). sat_child A u c ns obj rel))"
      using child_exact_single [OF new1(3)] new2(4) by auto
  qed (use new1 new2 in simp_all)
qed

lemma expandWithRewrite_exact:
  assumes exp: "exact exp u" and tidy: "tidy_sets A" and u: "CHR ''#'' \<notin> set u" and obj: "obj \<noteq> ''''"
  shows "faithful_rewrite A ns rw \<Longrightarrow> inv s \<Longrightarrow> tree_Children tree = [] \<Longrightarrow> tree_Type tree = '''' \<Longrightarrow>
      expandWithRewrite lister exp ctx rw tree ns obj rel d s = Some (Inr t, s') \<Longrightarrow>
      inv s' \<and> (tree_has u t \<longleftrightarrow> sat_rewrite A u rw ns obj rel)"
    and "faithful_child A ns c \<Longrightarrow> inv s2 \<Longrightarrow>
      expandChild lister exp ctx c tree2 ns obj rel d s2 = Some (Inr children, s2') \<Longrightarrow>
      inv s2' \<and> (\<exists>new. children = tree_Children tree2 @ new \<and> child_exact u c (ns, obj, rel) new)"
proof (induction rw and c arbitrary: tree s t s' and tree2 s2 children s2')
  case RewriteNil
  then show ?case by (cases tree) (simp add: node_type_defs)
next
  case (Rewrite_Union cs)
  have cs: "\<forall>c \<in> set cs. appends_exact exp ctx u (ns, obj, rel) d c"
    unfolding appends_exact_def using Rewrite_Union.IH Rewrite_Union.prems(1) by simp
  from expandChildren_exact [OF cs Rewrite_Union.prems(2) Rewrite_Union.prems(5) [unfolded expandWithRewrite.simps]]
    Rewrite_Union.prems(1,3) show ?case by auto
next
  case (Rewrite_Intersection cs)
  have cs: "\<forall>c \<in> set cs. appends_exact exp ctx u (ns, obj, rel) d c"
    unfolding appends_exact_def using Rewrite_Intersection.IH Rewrite_Intersection.prems(1) by simp
  from expandChildren_exact [OF cs Rewrite_Intersection.prems(2) Rewrite_Intersection.prems(5) [unfolded expandWithRewrite.simps]]
    Rewrite_Intersection.prems(1,3) show ?case by auto
next
  case ChildNil
  then show ?case by (simp add: child_exact_def single_child_def)
next
  case Child_This
  from listed_exact [OF exp tidy u Child_This(2) obj Child_This(3) [unfolded expandChild.simps]]
  show ?case unfolding child_exact_def single_child_def sat_child_simps by (simp add: Bex_def)
next
  case (Child_ComputedSubjectset r)
  then obtain t' where t': "exp ctx ns obj r (d - 1) s2 = Some (Inr t', s2')"
    "children = tree_Children tree2 @ (case t' of None \<Rightarrow> [] | Some x \<Rightarrow> [x])"
    by (auto simp: bind_Inr)
  from exactD [OF exp t'(1) obj Child_ComputedSubjectset(2)] t'(2) show ?case
    by (auto simp: child_exact_def single_child_def shows_goal_def split: option.splits)
next
  case (Child_TupleToSubjectset ts cset)
  then have ts: "GetString ts \<noteq> ''...''" "u \<notin> acl_direct A ns obj (GetString ts)" using u by auto
  from tidy sets_direct have dots: "ss_Relation ss \<noteq> ''...''" if "ss \<in> acl_sets A ns obj (GetString ts)" for ss
    using that unfolding tidy_sets_def by blast
  have run: "bind (\<lambda>_. internalErrorStatus) (listTuples lister ctx ns obj (GetString ts))
      (\<lambda>tuples. expandTuples exp ctx rel d tuples (tree_Children tree2)) s2 = Some (Inr children, s2')"
    using Child_TupleToSubjectset(3) ts(1) by (simp add: Let_def)
  have "sat_child A u (Child_TupleToSubjectset ts cset) ns obj rel \<longleftrightarrow>
      (\<exists>ss \<in> acl_sets A ns obj (GetString ts). related A u (ss_Namespace ss) (ss_Object ss) (ss_Relation ss))"
    using dots by auto
  with listed_exact [OF exp tidy u Child_TupleToSubjectset(2) obj run] ts(2) show ?case
    unfolding child_exact_def single_child_def by simp
next
  case (Child_Rewrite rw)
  then obtain t where t: "expandWithRewrite lister exp ctx rw (SubjectTree '''' (tree_Subject tree2) []) ns obj rel d s2
      = Some (Inr t, s2')" "children = tree_Children tree2 @ [t]"
    by (auto simp: bind_Inr)
  from Child_Rewrite.IH [OF _ Child_Rewrite.prems(2) _ _ t(1)] Child_Rewrite.prems(1) t(2) show ?case
    by (simp add: child_exact_def)
qed

lemma expand_exact:
  assumes rules: "faithful_rules A" "expands_rules peers A" and tidy: "tidy_sets A" and u: "CHR ''#'' \<notin> set u"
  shows "exact (expand peers lister k) u"
proof (induction k)
  case 0
  show ?case by (simp add: exact_def)
next
  case (Suc k)
  show ?case unfolding exact_def
  proof (intro allI impI)
    fix ctx ns obj rel d s t s'
    assume obj: "obj \<noteq> ''''" and s: "inv s" and run: "expand peers lister (Suc k) ctx ns obj rel d s = Some (Inr t, s')"
    obtain snap where snap: "chooseNamespaceConfigSnapshot peers ns = Inr snap"
      using run by (auto simp: expand_body_def split: sum.splits)
    have rule: "rewriteFromNamespaceConfig rel (snap_Config snap) = acl_rules A ns rel"
      using rules(2) snap unfolding expands_rules_def by blast
    show "inv s' \<and> shows_goal u (ns, obj, rel) t"
    proof (cases "acl_rules A ns rel")
      case None
      with run snap rule s have "t = None" "s' = s" by (auto simp: expand_body_def Let_def)
      with None s show ?thesis by (simp add: shows_goal_def related_iff)
    next
      case (Some rw)
      let ?tree = "SubjectTree '''' (SubjSet \<lparr>ss_Namespace = ns, ss_Object = obj, ss_Relation = rel\<rparr>) []"
      obtain t' where t': "expandWithRewrite lister (expand peers lister k)
          (NewContextWithNamespaceConfigTimestamp ctx ns (snap_Timestamp snap)) rw ?tree ns obj rel d s = Some (Inr t', s')"
        "t = Some t'"
        using run snap rule Some by (auto simp: expand_body_def Let_def bind_Inr)
      have "faithful_rewrite A ns rw" using rules(1) Some unfolding faithful_rules_def by blast
      from expandWithRewrite_exact(1) [OF Suc tidy u obj this s _ _ t'(1)] Some t'(2) show ?thesis
        by (simp add: shows_goal_def related_iff)
    qed
  qed
qed

subsubsection \<open>Expansions that end\<close>

definition lists_ok :: "string \<Rightarrow> bool" where
  "lists_ok ns \<longleftrightarrow> (\<forall>ctx obj rel s. inv s \<longrightarrow>
     (\<exists>ts s'. lister ctx \<lparr>lq_Namespace = ns, lq_Object = obj, lq_Relations = [rel], lq_Subject = None\<rparr> s = (Inr ts, s')))"

definition ends_on :: "'s expand_fun \<Rightarrow> goal set \<Rightarrow> bool" where
  "ends_on exp G \<longleftrightarrow> (\<forall>(ns, obj, rel) \<in> G. \<forall>ctx d s. inv s \<longrightarrow>
     (\<exists>t s'. exp ctx ns obj rel d s = Some (Inr t, s') \<and> inv s'))"

lemma ends_onD:
  assumes "ends_on exp G" "(ns, obj, rel) \<in> G" "inv s"
  obtains t s' where "exp ctx ns obj rel d s = Some (Inr t, s')" "inv s'"
  using assms unfolding ends_on_def by blast

lemma bind_ends:
  assumes "f s = Some (Inr x, s')" "inv s'" "\<And>s. inv s \<Longrightarrow> \<exists>y s''. g x s = Some (Inr y, s'') \<and> inv s''"
  shows "\<exists>y s''. bind h f g s = Some (Inr y, s'') \<and> inv s''"
  using assms by (auto simp: bind_def)

lemma expandTuples_ends:
  assumes exp: "ends_on exp G"
  shows "inv s \<Longrightarrow> \<forall>t \<in> set ts. case irt_Subject t of
      SubjSet ss \<Rightarrow> ss_Relation ss \<noteq> ''...'' \<and> (ss_Namespace ss, ss_Object ss, ss_Relation ss) \<in> G | _ \<Rightarrow> True \<Longrightarrow>
    \<exists>children' s'. expandTuples exp ctx rel d ts children s = Some (Inr children', s') \<and> inv s'"
proof (induction ts arbitrary: children s)
  case (Cons t ts)
  show ?case
  proof (cases "irt_Subject t")
    case (SubjSet ss)
    with Cons.prems(2) have ss: "ss_Relation ss \<noteq> ''...''" "(ss_Namespace ss, ss_Object ss, ss_Relation ss) \<in> G" by auto
    obtain t' s1 where t': "exp ctx (ss_Namespace ss) (ss_Object ss) (ss_Relation ss) (d - 1) s = Some (Inr t', s1)" "inv s1"
      by (rule ends_onD [OF exp ss(2) Cons.prems(1)])
    have "\<exists>children' s'. expandTuples exp ctx rel d ts (children @ (case t' of None \<Rightarrow> [] | Some x \<Rightarrow> [x])) s1
        = Some (Inr children', s') \<and> inv s'"
      by (rule Cons.IH [OF t'(2)]) (use Cons.prems(2) in simp)
    with t' SubjSet ss(1) show ?thesis by (simp add: bind_def)
  qed (use Cons in simp)
qed simp

lemma listed_ends:
  assumes exp: "ends_on exp G" and tidy: "tidy_sets A" and ok: "lists_ok ns" and s: "inv s" and obj: "obj \<noteq> ''''"
    and G: "\<forall>ss \<in> acl_sets A ns obj rel'. (ss_Namespace ss, ss_Object ss, ss_Relation ss) \<in> G"
  shows "\<exists>children' s'. bind h (listTuples lister ctx ns obj rel')
      (\<lambda>tuples. expandTuples exp ctx rel d tuples children) s = Some (Inr children', s') \<and> inv s'"
proof -
  obtain ts s1 where ts: "lister ctx \<lparr>lq_Namespace = ns, lq_Object = obj, lq_Relations = [rel'], lq_Subject = None\<rparr> s = (Inr ts, s1)"
    using ok s unfolding lists_ok_def by blast
  have "case irt_Subject t of SubjSet ss \<Rightarrow> ss_Relation ss \<noteq> ''...'' \<and> (ss_Namespace ss, ss_Object ss, ss_Relation ss) \<in> G
      | _ \<Rightarrow> True" if "t \<in> set ts" for t
  proof (cases "irt_Subject t")
    case (SubjSet ss)
    have "irt_Subject t \<in> irt_Subject ` set ts" using that by (rule imageI)
    then have ss: "wf_SubjectSet ss" "SubjectSet_String ss \<in> acl_direct A ns obj rel'"
      unfolding list_subjects [OF s obj ts] SubjSet by (simp_all add: wf_Subject_def Subject_String_def)
    with tidy have "ss \<in> acl_sets A ns obj rel'" "ss_Relation ss \<noteq> ''...''" unfolding tidy_sets_def by blast+
    with G SubjSet show ?thesis by simp
  qed simp
  then have "\<exists>children' s'. expandTuples exp ctx rel d ts children s = Some (Inr children', s') \<and> inv s'" if "inv s" for s
    using expandTuples_ends [OF exp that, of ts] by blast
  then show ?thesis
    by (intro bind_ends [of _ _ ts s1]) (simp_all add: listTuples_def ts list_inv [OF s ts])
qed

lemma expandChildren_ends:
  assumes "\<And>c tree s. c \<in> set cs \<Longrightarrow> inv s \<Longrightarrow>
      \<exists>children s'. expandChild lister exp ctx c tree ns obj rel d s = Some (Inr children, s') \<and> inv s'"
  shows "inv s \<Longrightarrow> \<exists>t s'. expandChildren lister exp ctx cs tree ns obj rel d s = Some (Inr t, s') \<and> inv s'"
  using assms
proof (induction cs arbitrary: tree s)
  case (Cons c cs)
  obtain children s1 where c: "expandChild lister exp ctx c tree ns obj rel d s = Some (Inr children, s1)" "inv s1"
    using Cons.prems(2) [OF _ Cons.prems(1), of c tree] by auto
  show ?case unfolding expandChildren.simps
    by (rule bind_ends [where f = "expandChild lister exp ctx c tree ns obj rel d", OF c])
      (rule Cons.IH, simp_all add: Cons.prems(2))
qed simp

lemma expandWithRewrite_ends:
  assumes exp: "ends_on exp G" and tidy: "tidy_sets A" and ok: "lists_ok ns" and obj: "obj \<noteq> ''''"
  shows "faithful_rewrite A ns rw \<Longrightarrow> rewrite_goals A (ns, obj, rel) rw \<subseteq> G \<Longrightarrow> inv s \<Longrightarrow>
      \<exists>t s'. expandWithRewrite lister exp ctx rw tree ns obj rel d s = Some (Inr t, s') \<and> inv s'"
    and "faithful_child A ns c \<Longrightarrow> child_goals A (ns, obj, rel) c \<subseteq> G \<Longrightarrow> inv s2 \<Longrightarrow>
      \<exists>children s'. expandChild lister exp ctx c tree2 ns obj rel d s2 = Some (Inr children, s') \<and> inv s'"
proof (induction rw and c arbitrary: tree s and tree2 s2)
  case (Rewrite_Union cs)
  have "child_goals A (ns, obj, rel) c \<subseteq> G" if "c \<in> set cs" for c
    using that Rewrite_Union.prems(2) by auto
  with Rewrite_Union.IH Rewrite_Union.prems(1) have "\<exists>children s'. expandChild lister exp ctx c tree ns obj rel d s = Some (Inr children, s') \<and> inv s'"
    if "c \<in> set cs" "inv s" for c tree s
    using that by simp
  from expandChildren_ends [OF this Rewrite_Union.prems(3)] show ?case by simp
next
  case (Rewrite_Intersection cs)
  have "child_goals A (ns, obj, rel) c \<subseteq> G" if "c \<in> set cs" for c
    using that Rewrite_Intersection.prems(2) by auto
  with Rewrite_Intersection.IH Rewrite_Intersection.prems(1) have "\<exists>children s'. expandChild lister exp ctx c tree ns obj rel d s = Some (Inr children, s') \<and> inv s'"
    if "c \<in> set cs" "inv s" for c tree s
    using that by simp
  from expandChildren_ends [OF this Rewrite_Intersection.prems(3)] show ?case by simp
next
  case Child_This
  then show ?case unfolding expandChild.simps by (intro listed_ends [OF exp tidy ok _ obj]) auto
next
  case (Child_ComputedSubjectset r)
  then have "(ns, obj, r) \<in> G" by simp
  then obtain t' s' where t': "exp ctx ns obj r (d - 1) s2 = Some (Inr t', s')" "inv s'"
    by (rule ends_onD [OF exp _ Child_ComputedSubjectset(3)])
  then show ?case unfolding expandChild.simps by (rule bind_ends) simp
next
  case (Child_TupleToSubjectset ts cset)
  have "ss_Relation ss \<noteq> ''...''" if "ss \<in> acl_sets A ns obj (GetString ts)" for ss
    using sets_direct [OF that] tidy unfolding tidy_sets_def by blast
  with Child_TupleToSubjectset(2)
  have "\<forall>ss \<in> acl_sets A ns obj (GetString ts). (ss_Namespace ss, ss_Object ss, ss_Relation ss) \<in> G" by auto
  from listed_ends [OF exp tidy ok Child_TupleToSubjectset(3) obj this] Child_TupleToSubjectset(1)
  show ?case by (simp add: Let_def)
next
  case (Child_Rewrite rw)
  then obtain t s' where t: "expandWithRewrite lister exp ctx rw (SubjectTree '''' (tree_Subject tree2) []) ns obj rel d s2
      = Some (Inr t, s')" "inv s'" by (metis child_goals.simps(4) faithful_child.simps(1))
  then show ?case unfolding expandChild.simps by (rule bind_ends) simp
qed simp_all

lemma expand_ends:
  assumes rules: "faithful_rules A" "expands_rules peers A" and tidy: "tidy_sets A" and G: "ranked_expansion A ok peers G rank"
    and lists: "\<And>ns. ok ns \<Longrightarrow> lists_ok ns"
  shows "ends_on (expand peers lister (Suc k)) {g \<in> G. rank g \<le> k}"
proof (induction k rule: less_induct)
  case (less k)
  show ?case unfolding ends_on_def
  proof (intro ballI, clarify)
    fix ns obj rel ctx d s
    assume g: "(ns, obj, rel) \<in> G" "rank (ns, obj, rel) \<le> k" and s: "inv s"
    have obj: "obj \<noteq> ''''" and "ok ns" and "is_ok (chooseNamespaceConfigSnapshot peers ns)"
      using G g(1) unfolding ranked_expansion_def by auto
    note ok = lists [OF this(2)]
    from \<open>is_ok (chooseNamespaceConfigSnapshot peers ns)\<close>
    obtain snap where snap: "chooseNamespaceConfigSnapshot peers ns = Inr snap" by (auto elim: is_okE)
    have rule: "rewriteFromNamespaceConfig rel (snap_Config snap) = acl_rules A ns rel"
      using rules(2) snap unfolding expands_rules_def by blast
    show "\<exists>t s'. expand peers lister (Suc k) ctx ns obj rel d s = Some (Inr t, s') \<and> inv s'"
    proof (cases "acl_rules A ns rel")
      case None
      with snap rule s show ?thesis by (simp add: expand_body_def Let_def)
    next
      case (Some rw)
      have goals: "rewrite_goals A (ns, obj, rel) rw \<subseteq> {h \<in> G. rank h < rank (ns, obj, rel)}"
        using G g(1) Some unfolding ranked_expansion_def by auto
      have ends: "ends_on (expand peers lister k) {h \<in> G. rank h < rank (ns, obj, rel)}"
      proof (cases k)
        case 0
        with g(2) show ?thesis by (simp add: ends_on_def)
      next
        case (Suc j)
        with less.IH [of j] g(2) show ?thesis unfolding ends_on_def Suc by fastforce
      qed
      have "faithful_rewrite A ns rw" using rules(1) Some unfolding faithful_rules_def by blast
      from expandWithRewrite_ends(1) [OF ends tidy ok obj this goals s]
      obtain t s' where t: "expandWithRewrite lister (expand peers lister k)
          (NewContextWithNamespaceConfigTimestamp ctx ns (snap_Timestamp snap)) rw
          (SubjectTree '''' (SubjSet \<lparr>ss_Namespace = ns, ss_Object = obj, ss_Relation = rel\<rparr>) []) ns obj rel d s
        = Some (Inr t, s')" "inv s'" by blast
      then show ?thesis by (simp add: expand_body_def Let_def snap rule Some bind_def)
    qed
  qed
qed

end

end
