(* ===== verification/Sql_Store.thy ===== *)
theory Sql_Store
  imports Sql_Database Expand_Spec
begin

section \<open>The relation tuple store (\<open>internal/datastores/sql-store.go\<close>)\<close>

text \<open>
  \<open>SQLStore\<close> over the tables of \<open>Sql_Database\<close>. A table name is quoted by the query builder, so the
  rows of a namespace are found under its exact name. Each method takes the session it runs in and
  returns the session after it.
\<close>

subsection \<open>Definitions\<close>

definition undefinedTable :: error where
  "undefinedTable = ErrLibrary ''relation does not exist''"

definition syntaxError :: error where
  "syntaxError = ErrLibrary ''syntax error''"

text \<open>
  \<open>SELECT \<dots> FROM namespace WHERE \<dots>\<close>: the rows of the namespace's table that satisfy \<open>P\<close>.
\<close>

definition select_rows :: "string \<Rightarrow> (tuple_row \<Rightarrow> bool) \<Rightarrow> db \<Rightarrow> tuple_row list result" where
  "select_rows ns P d =
     (case tbl_tuples d ns of None \<Rightarrow> Inl undefinedTable | Some rows \<Rightarrow> Inr (filter P rows))"

fun scanSubjectSets :: "string list \<Rightarrow> SubjectSet list result" where
  "scanSubjectSets [] = Inr []"
| "scanSubjectSets (s # rows) =
     (case SubjectSetFromString s of
        Inl err \<Rightarrow> Inl err
      | Inr subjectSet \<Rightarrow>
          (case scanSubjectSets rows of Inl err \<Rightarrow> Inl err | Inr subjects \<Rightarrow> Inr (subjectSet # subjects)))"

text \<open>The result set of a query is closed after the loop only: an error in the loop leaves it open.\<close>

definition scan :: "sql_env \<Rightarrow> ('r list \<Rightarrow> 'a result) \<Rightarrow> 'r list result \<times> world \<Rightarrow> 'a result \<times> world" where
  "scan E f qw =
     (case qw of
        (Inl err, w) \<Rightarrow> (Inl err, w)
      | (Inr rows, w) \<Rightarrow>
          (case f (rows_seen E (w_tick w - 1) rows) of
             Inl err \<Rightarrow> (Inl err, w\<lparr>w_open := Suc (w_open w)\<rparr>)
           | Inr x \<Rightarrow> (Inr x, w)))"

definition like_subject_set :: string where
  "like_subject_set = ''_%%:_%%#_%%''"

definition SubjectSets ::
  "sql_env \<Rightarrow> Object \<Rightarrow> string list \<Rightarrow> world \<Rightarrow> SubjectSet list result \<times> world" where
  "SubjectSets E object relations w =
     scan E scanSubjectSets
       (db_Query E (\<lambda>d. case refused_in E relations of Some err \<Rightarrow> Inl err
          | None \<Rightarrow> map_sum id (map row_subject) (select_rows (obj_Namespace object)
            (\<lambda>r. row_object r = obj_ID object \<and> row_relation r \<in> set relations
               \<and> sql_LIKE like_subject_set (row_subject r)) d)) w)"

definition RowCount :: "sql_env \<Rightarrow> RelationTupleQuery \<Rightarrow> world \<Rightarrow> int result \<times> world" where
  "RowCount E query w =
     db_Query E (\<lambda>d. case refused_in E (q_Relations query) of Some err \<Rightarrow> Inl err
       | None \<Rightarrow> map_sum id (\<lambda>rows. int (length rows)) (select_rows (obj_Namespace (q_Object query))
         (\<lambda>r. row_object r = obj_ID (q_Object query) \<and> row_relation r \<in> set (q_Relations query)
            \<and> row_subject r = Subject_String (q_Subject query)) d)) w"

fun scanTuples :: "string \<Rightarrow> tuple_row list \<Rightarrow> InternalRelationTuple list result" where
  "scanTuples ns [] = Inr []"
| "scanTuples ns (r # rows) =
     (case SubjectFromString (row_subject r) of
        Inl err \<Rightarrow> Inl err
      | Inr subject \<Rightarrow>
          (case scanTuples ns rows of
             Inl err \<Rightarrow> Inl err
           | Inr tuples \<Rightarrow> Inr (\<lparr>irt_Namespace = ns, irt_Object = row_object r,
               irt_Relation = row_relation r, irt_Subject = subject\<rparr> # tuples)))"

definition store_ListRelationTuples ::
  "sql_env \<Rightarrow> ListQuery \<Rightarrow> world \<Rightarrow> InternalRelationTuple list result \<times> world" where
  "store_ListRelationTuples E query w =
     scan E (scanTuples (lq_Namespace query))
       (db_Query E (select_rows (lq_Namespace query)
          (\<lambda>r. (lq_Object query \<noteq> '''' \<longrightarrow> row_object r = lq_Object query)
             \<and> (lq_Relations query \<noteq> [] \<longrightarrow> row_relation r \<in> set (lq_Relations query))
             \<and> (case lq_Subject query of None \<Rightarrow> True | Some s \<Rightarrow> row_subject r = proto_String E s))) w)"

subsubsection \<open>Writing tuples\<close>

definition row_of :: "InternalRelationTuple \<Rightarrow> tuple_row" where
  "row_of t = \<lparr>row_object = irt_Object t, row_relation = irt_Relation t,
     row_subject = Subject_String (irt_Subject t)\<rparr>"

definition stmt_insert_tuple :: "InternalRelationTuple \<Rightarrow> unit stmt" where
  "stmt_insert_tuple t now d =
     (case tbl_tuples d (irt_Namespace t) of
        None \<Rightarrow> Inl undefinedTable
      | Some rows \<Rightarrow> Inr ((), d\<lparr>tbl_tuples := (tbl_tuples d)(irt_Namespace t \<mapsto> insert_row (row_of t) rows)\<rparr>))"

definition stmt_changelog :: "string \<Rightarrow> InternalRelationTuple \<Rightarrow> unit stmt" where
  "stmt_changelog operation t now d =
     Inr ((), d\<lparr>tbl_changelog := insert_row \<lparr>cl_namespace = irt_Namespace t, cl_operation = operation,
       cl_relationtuple = InternalRelationTuple_String t, cl_timestamp = now\<rparr> (tbl_changelog d)\<rparr>)"

text \<open>The rows of the reverse lookup that a tuple has: its own relation, and its subject set's.\<close>

definition lookup_values :: "InternalRelationTuple \<Rightarrow> lookup_row list" where
  "lookup_values t =
     \<lparr>lk_namespace = irt_Namespace t, lk_relation = irt_Relation t,
      lk_relationtuple = InternalRelationTuple_String t\<rparr> #
     (case irt_Subject t of
        SubjSet s \<Rightarrow> [\<lparr>lk_namespace = ss_Namespace s, lk_relation = ss_Relation s,
                       lk_relationtuple = InternalRelationTuple_String t\<rparr>]
      | SubjID _ \<Rightarrow> [])"

definition stmt_insert_lookup :: "InternalRelationTuple \<Rightarrow> unit stmt" where
  "stmt_insert_lookup t now d =
     Inr ((), d\<lparr>tbl_lookup := fold insert_row (lookup_values t) (tbl_lookup d)\<rparr>)"

definition stmt_delete_tuple :: "InternalRelationTuple \<Rightarrow> unit stmt" where
  "stmt_delete_tuple t now d =
     (case tbl_tuples d (irt_Namespace t) of
        None \<Rightarrow> Inl undefinedTable
      | Some rows \<Rightarrow> Inr ((), d\<lparr>tbl_tuples := (tbl_tuples d)(irt_Namespace t \<mapsto> removeAll (row_of t) rows)\<rparr>))"

text \<open>\<open>Where(expressions...)\<close> is the conjunction of the expressions: a row has to match all of them.\<close>

definition stmt_delete_lookup :: "InternalRelationTuple \<Rightarrow> unit stmt" where
  "stmt_delete_lookup t now d =
     Inr ((), d\<lparr>tbl_lookup := filter (\<lambda>row. \<not> list_all (\<lambda>ex. row = ex) (lookup_values t)) (tbl_lookup d)\<rparr>)"

definition insertTuple :: "sql_env \<Rightarrow> InternalRelationTuple \<Rightarrow> txn \<Rightarrow> unit result \<times> txn" where
  "insertTuple E t =
     andThen (txn_Exec E (stmt_insert_tuple t)) (\<lambda>_.
     andThen (txn_Exec E (stmt_changelog ''INSERT'' t)) (\<lambda>_.
     txn_Exec E (stmt_insert_lookup t)))"

definition deleteTuple :: "sql_env \<Rightarrow> InternalRelationTuple \<Rightarrow> txn \<Rightarrow> unit result \<times> txn" where
  "deleteTuple E t =
     andThen (txn_Exec E (stmt_delete_tuple t)) (\<lambda>_.
     andThen (txn_Exec E (stmt_delete_lookup t)) (\<lambda>_.
     txn_Exec E (stmt_changelog ''DELETE'' t)))"

definition TransactRelationTuples ::
  "sql_env \<Rightarrow> InternalRelationTuple list \<Rightarrow> InternalRelationTuple list \<Rightarrow> world \<Rightarrow> unit result \<times> world" where
  "TransactRelationTuples E tupleInserts tupleDeletes w =
     (case db_Begin E w of
        (Inl err, w1) \<Rightarrow> (Inl err, w1)
      | (Inr t, w1) \<Rightarrow>
          (case andThen (txn_foreach (insertTuple E) tupleInserts)
                  (\<lambda>_. txn_foreach (deleteTuple E) tupleDeletes) t of
             (Inl err, t') \<Rightarrow> (Inl err, txn_leak t' w1)
           | (Inr _, t') \<Rightarrow> txn_Commit E t' w1))"

text \<open>
  The store as the checks see it: reads of the tables \<open>d\<close>, each in one of the environments \<open>Es\<close>.
\<close>

definition session :: "db \<Rightarrow> world" where
  "session d = \<lparr>w_db = d, w_tick = 0, w_open = 0\<rparr>"

definition sql_tuple_store :: "sql_env list \<Rightarrow> db \<Rightarrow> tuple_store" where
  "sql_tuple_store Es d =
     \<lparr>store_RowCount = (\<lambda>q. map (\<lambda>E. fst (RowCount E q (session d))) Es),
      store_SubjectSets = (\<lambda>obj rels. map (\<lambda>E. fst (SubjectSets E obj rels (session d))) Es)\<rparr>"

text \<open>The \<open>RelationTupleStore\<close> interface as its users see it, and \<open>SQLStore\<close> as a value of it.\<close>

record RelationTupleStore =
  rts_SubjectSets :: "Object \<Rightarrow> string list \<Rightarrow> world \<Rightarrow> SubjectSet list result \<times> world"
  rts_ListRelationTuples :: "ListQuery \<Rightarrow> world \<Rightarrow> InternalRelationTuple list result \<times> world"
  rts_RowCount :: "RelationTupleQuery \<Rightarrow> world \<Rightarrow> int result \<times> world"
  rts_TransactRelationTuples ::
    "InternalRelationTuple list \<Rightarrow> InternalRelationTuple list \<Rightarrow> world \<Rightarrow> unit result \<times> world"

definition SQLStore :: "sql_env \<Rightarrow> RelationTupleStore" where
  "SQLStore E =
     \<lparr>rts_SubjectSets = SubjectSets E, rts_ListRelationTuples = store_ListRelationTuples E,
      rts_RowCount = RowCount E, rts_TransactRelationTuples = TransactRelationTuples E\<rparr>"

subsection \<open>The strings that name subject sets\<close>

lemma like_subject_set_iff:
  "sql_LIKE like_subject_set s \<longleftrightarrow>
     (\<exists>x y z. x \<noteq> [] \<and> y \<noteq> [] \<and> z \<noteq> [] \<and> s = x @ CHR '':'' # y @ CHR ''#'' # z)"
  unfolding like_subject_set_def
  by (simp add: sql_LIKE_nonempty sql_LIKE_literal) (metis append_Cons)

definition named_SubjectSet :: "SubjectSet \<Rightarrow> bool" where
  "named_SubjectSet s \<longleftrightarrow> wf_SubjectSet s \<and> ss_Namespace s \<noteq> '''' \<and> ss_Object s \<noteq> '''' \<and> ss_Relation s \<noteq> ''''"

lemma like_SubjectSet_String:
  assumes "wf_SubjectSet s"
  shows "sql_LIKE like_subject_set (SubjectSet_String s) \<longleftrightarrow> named_SubjectSet s"
proof
  assume "sql_LIKE like_subject_set (SubjectSet_String s)"
  then obtain x y z where xyz: "x \<noteq> []" "y \<noteq> []" "z \<noteq> []"
    and "(ss_Namespace s @ CHR '':'' # ss_Object s) @ CHR ''#'' # ss_Relation s = (x @ CHR '':'' # y) @ CHR ''#'' # z"
    unfolding like_subject_set_iff SubjectSet_String_def by auto
  moreover have hash: "CHR ''#'' \<notin> set (ss_Namespace s @ CHR '':'' # ss_Object s)" "CHR ''#'' \<notin> set (ss_Relation s)"
    and colon: "CHR '':'' \<notin> set (ss_Namespace s)" "CHR '':'' \<notin> set (ss_Object s)"
    using assms by (auto simp: wf_SubjectSet_def)
  ultimately have eq: "ss_Namespace s @ CHR '':'' # ss_Object s = x @ CHR '':'' # y" "ss_Relation s = z"
    unfolding append_Cons_eq_iff [OF hash] by simp_all
  then have "ss_Namespace s = x" "ss_Object s = y"
    unfolding append_Cons_eq_iff [OF colon] by simp_all
  with eq xyz assms show "named_SubjectSet s" by (simp add: named_SubjectSet_def)
next
  assume "named_SubjectSet s"
  then show "sql_LIKE like_subject_set (SubjectSet_String s)"
    unfolding like_subject_set_iff named_SubjectSet_def SubjectSet_String_def by auto
qed

lemma scanSubjectSets_Inr:
  "scanSubjectSets rows = Inr ss \<longleftrightarrow> rows = map SubjectSet_String ss \<and> list_all wf_SubjectSet ss"
proof (induction rows arbitrary: ss)
  case (Cons s rows)
  have "scanSubjectSets (s # rows) = Inr ss \<longleftrightarrow>
      (\<exists>x xs. ss = x # xs \<and> SubjectSetFromString s = Inr x \<and> scanSubjectSets rows = Inr xs)"
    by (auto split: sum.splits)
  also have "\<dots> \<longleftrightarrow> (\<exists>x xs. ss = x # xs \<and> s = SubjectSet_String x \<and> wf_SubjectSet x
      \<and> rows = map SubjectSet_String xs \<and> list_all wf_SubjectSet xs)"
    by (simp add: SubjectSetFromString_Inr_iff Cons.IH)
  also have "\<dots> \<longleftrightarrow> s # rows = map SubjectSet_String ss \<and> list_all wf_SubjectSet ss"
    by (cases ss) auto
  finally show ?case .
qed auto

lemma scanTuples_Inr:
  "scanTuples ns rows = Inr ts \<Longrightarrow> rows = map row_of ts \<and> (\<forall>t \<in> set ts. wf_Subject (irt_Subject t))
     \<and> (\<forall>t \<in> set ts. irt_Namespace t = ns)"
  by (induction rows arbitrary: ts)
    (auto simp: row_of_def SubjectFromString_Inr_iff split: sum.splits)

subsection \<open>The tuples in the tables\<close>

definition rows_of :: "db \<Rightarrow> string \<Rightarrow> tuple_row list" where
  "rows_of d ns = (case tbl_tuples d ns of None \<Rightarrow> [] | Some rows \<Rightarrow> rows)"

definition db_acl :: "(string \<Rightarrow> string \<Rightarrow> Rewrite option) \<Rightarrow> db \<Rightarrow> acl" where
  "db_acl R d =
     \<lparr>acl_rules = R,
      acl_direct = (\<lambda>ns obj rel. {u. \<lparr>row_object = obj, row_relation = rel, row_subject = u\<rparr> \<in> set (rows_of d ns)}),
      acl_sets = (\<lambda>ns obj rel. {s. named_SubjectSet s \<and>
        \<lparr>row_object = obj, row_relation = rel, row_subject = SubjectSet_String s\<rparr> \<in> set (rows_of d ns)})\<rparr>"

lemma row_eq_iff:
  "r = \<lparr>row_object = obj, row_relation = rel, row_subject = u\<rparr> \<longleftrightarrow>
     row_object r = obj \<and> row_relation r = rel \<and> row_subject r = u"
  by (cases r) simp

lemma ex_row:
  "(\<exists>r \<in> S. row_object r = obj \<and> row_relation r = rel \<and> row_subject r = u) \<longleftrightarrow>
     \<lparr>row_object = obj, row_relation = rel, row_subject = u\<rparr> \<in> S"
  by (metis row_eq_iff)

lemma select_rows_Inr: "select_rows ns P d = Inr rows \<Longrightarrow> rows = filter P (rows_of d ns)"
  by (auto simp: select_rows_def rows_of_def split: option.splits)

lemma RowCount_session:
  assumes "fst (RowCount E \<lparr>q_Object = \<lparr>obj_Namespace = ns, obj_ID = obj\<rparr>, q_Relations = [rel],
      q_Subject = SubjID \<lparr>ID = u\<rparr>\<rparr> w) = Inr n"
  shows "n > 0 \<longleftrightarrow> u \<in> acl_direct (db_acl R (w_db w)) ns obj rel"
proof -
  obtain rows where "select_rows ns (\<lambda>r. row_object r = obj \<and> row_relation r = rel \<and> row_subject r = u) (w_db w) = Inr rows"
    and n: "n = int (length rows)"
    using assms by (auto simp: RowCount_def db_Query_def Subject_String_def SubjectID_String_def map_sum_def
        split: option.splits sum.splits)
  from select_rows_Inr [OF this(1)] have "rows \<noteq> [] \<longleftrightarrow>
      \<lparr>row_object = obj, row_relation = rel, row_subject = u\<rparr> \<in> set (rows_of (w_db w) ns)"
    by (auto simp: filter_empty_conv row_eq_iff [symmetric])
  then show ?thesis by (simp add: n db_acl_def)
qed

lemma SubjectSets_session:
  assumes "fst (SubjectSets E \<lparr>obj_Namespace = ns, obj_ID = obj\<rparr> [rel] w) = Inr ss"
  shows "set ss \<subseteq> acl_sets (db_acl R (w_db w)) ns obj rel"
    and "cut E (w_tick w) = None \<Longrightarrow> set ss = acl_sets (db_acl R (w_db w)) ns obj rel"
proof -
  let ?P = "\<lambda>r. row_object r = obj \<and> row_relation r = rel \<and> sql_LIKE like_subject_set (row_subject r)"
  obtain rows where rows: "select_rows ns ?P (w_db w) = Inr rows"
    and "scanSubjectSets (rows_seen E (w_tick w) (map row_subject rows)) = Inr ss"
    using assms by (auto simp: SubjectSets_def scan_def db_Query_def map_sum_def
        split: option.splits sum.splits prod.splits)
  then have ss: "rows_seen E (w_tick w) (map row_subject rows) = map SubjectSet_String ss" "list_all wf_SubjectSet ss"
    by (simp_all add: scanSubjectSets_Inr)
  have mem: "SubjectSet_String s \<in> set (map row_subject rows) \<longleftrightarrow> s \<in> acl_sets (db_acl R (w_db w)) ns obj rel"
    if "wf_SubjectSet s" for s
    using like_SubjectSet_String [OF that] ex_row [of "set (rows_of (w_db w) ns)" obj rel "SubjectSet_String s"]
    unfolding select_rows_Inr [OF rows] db_acl_def by (auto simp: image_iff)
  have "SubjectSet_String s \<in> set (map row_subject rows)" "wf_SubjectSet s" if "s \<in> set ss" for s
    using that ss set_rows_seen [of E "w_tick w" "map row_subject rows"] by (auto simp: list_all_iff)
  with mem show "set ss \<subseteq> acl_sets (db_acl R (w_db w)) ns obj rel" by blast
  show "set ss = acl_sets (db_acl R (w_db w)) ns obj rel" if "cut E (w_tick w) = None"
  proof
    show "acl_sets (db_acl R (w_db w)) ns obj rel \<subseteq> set ss"
    proof
      fix s
      assume s: "s \<in> acl_sets (db_acl R (w_db w)) ns obj rel"
      then have wf: "wf_SubjectSet s" by (simp add: db_acl_def named_SubjectSet_def)
      have "SubjectSet_String s \<in> set (map SubjectSet_String ss)"
        using mem [OF wf] s ss(1) that by (simp del: set_map)
      then obtain s' where "s' \<in> set ss" "SubjectSet_String s' = SubjectSet_String s" by auto
      with wf ss(2) SubjectSet_String_inject [of s' s] show "s \<in> set ss" by (auto simp: list_all_iff)
    qed
  qed fact
qed

subsection \<open>The store provides what checks rely on\<close>

interpretation sql_source: tuple_source "sql_tuple_store Es d" "db_acl R d"
proof
  fix n ns obj rel u
  assume "Inr n \<in> set (store_RowCount (sql_tuple_store Es d) \<lparr>q_Object = \<lparr>obj_Namespace = ns, obj_ID = obj\<rparr>,
      q_Relations = [rel], q_Subject = SubjID \<lparr>ID = u\<rparr>\<rparr>)"
  then obtain E where "fst (RowCount E \<lparr>q_Object = \<lparr>obj_Namespace = ns, obj_ID = obj\<rparr>,
      q_Relations = [rel], q_Subject = SubjID \<lparr>ID = u\<rparr>\<rparr> (session d)) = Inr n"
    by (auto simp: sql_tuple_store_def dest: sym)
  from RowCount_session [OF this, of R] show "n > 0 \<longleftrightarrow> u \<in> acl_direct (db_acl R d) ns obj rel"
    by (simp add: session_def)
next
  fix ss ns obj rel
  assume "Inr ss \<in> set (store_SubjectSets (sql_tuple_store Es d) \<lparr>obj_Namespace = ns, obj_ID = obj\<rparr> [rel])"
  then obtain E where "fst (SubjectSets E \<lparr>obj_Namespace = ns, obj_ID = obj\<rparr> [rel] (session d)) = Inr ss"
    by (auto simp: sql_tuple_store_def dest: sym)
  from SubjectSets_session(1) [OF this, of R] show "set ss \<subseteq> acl_sets (db_acl R d) ns obj rel"
    by (simp add: session_def)
qed

text \<open>Environments in which a result, once it has begun to arrive, arrives in full.\<close>

definition whole_results :: "sql_env list \<Rightarrow> sql_env list" where
  "whole_results Es = map (\<lambda>E. E\<lparr>cut := \<lambda>_. None\<rparr>) Es"

interpretation sql_reader: tuple_reader "sql_tuple_store (whole_results Es) d" "db_acl R d"
proof
  fix ss ns obj rel
  assume "Inr ss \<in> set (store_SubjectSets (sql_tuple_store (whole_results Es) d) \<lparr>obj_Namespace = ns, obj_ID = obj\<rparr> [rel])"
  then obtain E where "fst (SubjectSets E \<lparr>obj_Namespace = ns, obj_ID = obj\<rparr> [rel] (session d)) = Inr ss"
    "cut E 0 = None"
    by (auto simp: sql_tuple_store_def whole_results_def dest: sym)
  from SubjectSets_session(2) [OF this(1), of R] this(2)
  show "acl_sets (db_acl R d) ns obj rel \<subseteq> set ss" by (simp add: session_def)
qed

text \<open>What a list without a subject filter returns.\<close>

definition list_filter :: "ListQuery \<Rightarrow> tuple_row \<Rightarrow> bool" where
  "list_filter q r \<longleftrightarrow> (lq_Object q \<noteq> '''' \<longrightarrow> row_object r = lq_Object q)
     \<and> (lq_Relations q \<noteq> [] \<longrightarrow> row_relation r \<in> set (lq_Relations q))"

lemma store_List_Inr:
  assumes "store_ListRelationTuples E q w = (Inr ts, w')" "lq_Subject q = None" "cut E (w_tick w) = None"
  shows "map row_of ts = filter (list_filter q) (rows_of (w_db w) (lq_Namespace q))"
    and "\<forall>t \<in> set ts. wf_Subject (irt_Subject t)" and "\<forall>t \<in> set ts. irt_Namespace t = lq_Namespace q"
proof -
  obtain rows where rows: "select_rows (lq_Namespace q) (list_filter q) (w_db w) = Inr rows"
    "scanTuples (lq_Namespace q) rows = Inr ts"
    using assms by (auto simp: store_ListRelationTuples_def scan_def db_Query_def list_filter_def [abs_def]
        split: option.splits sum.splits)
  note select_rows_Inr [OF rows(1)] scanTuples_Inr [OF rows(2)]
  then show "map row_of ts = filter (list_filter q) (rows_of (w_db w) (lq_Namespace q))"
    "\<forall>t \<in> set ts. wf_Subject (irt_Subject t)" "\<forall>t \<in> set ts. irt_Namespace t = lq_Namespace q"
    by simp_all
qed

lemma store_List_db: "store_ListRelationTuples E q w = (r, w') \<Longrightarrow> w_db w' = w_db w"
  by (auto simp: store_ListRelationTuples_def scan_def db_Query_def split: prod.splits sum.splits)

interpretation sql_lister: tuple_lister "\<lambda>ctx. store_ListRelationTuples (E\<lparr>cut := \<lambda>_. None\<rparr>)" "\<lambda>w. w_db w = d" "db_acl R d"
proof
  fix w ctx q r w'
  assume "w_db w = d" "store_ListRelationTuples (E\<lparr>cut := \<lambda>_. None\<rparr>) q w = (r, w')"
  then show "w_db w' = d" using store_List_db by blast
next
  fix w obj ctx ns rel ts w'
  let ?q = "\<lparr>lq_Namespace = ns, lq_Object = obj, lq_Relations = [rel], lq_Subject = None\<rparr>"
  assume d: "w_db w = d" and obj: "obj \<noteq> ''''"
    and run: "store_ListRelationTuples (E\<lparr>cut := \<lambda>_. None\<rparr>) ?q w = (Inr ts, w')"
  note ts = store_List_Inr [OF run]
  have rows: "row_of ` set ts = {r \<in> set (rows_of d ns). row_object r = obj \<and> row_relation r = rel}"
    unfolding set_map [symmetric] ts(1) [simplified] by (simp add: list_filter_def obj d)
  have "Subject_String x \<in> acl_direct (db_acl R d) ns obj rel \<longleftrightarrow> (\<exists>t \<in> set ts. row_subject (row_of t) = Subject_String x)" for x
  proof -
    have "Subject_String x \<in> acl_direct (db_acl R d) ns obj rel \<longleftrightarrow> (\<exists>r \<in> row_of ` set ts. row_subject r = Subject_String x)"
      unfolding rows by (simp add: db_acl_def ex_row [symmetric] Bex_def conj_ac)
    then show ?thesis by simp
  qed
  moreover have "(\<exists>t \<in> set ts. row_subject (row_of t) = Subject_String x) \<longleftrightarrow> x \<in> irt_Subject ` set ts" if "wf_Subject x" for x
    using ts(2) that by (auto simp: row_of_def Subject_String_inject image_iff)
  ultimately show "irt_Subject ` set ts = {x. wf_Subject x \<and> Subject_String x \<in> acl_direct (db_acl R d) ns obj rel}"
    using ts(2) by auto
qed (auto simp: db_acl_def named_SubjectSet_def)

subsection \<open>What a transaction writes\<close>

definition tuples_in :: "db \<Rightarrow> (string \<times> tuple_row) set" where
  "tuples_in d = {(ns, r). r \<in> set (rows_of d ns)}"

lemma related_tuples_mono:
  assumes "tuples_in d \<subseteq> tuples_in d'" "related (db_acl R d) u ns obj rel"
  shows "related (db_acl R d') u ns obj rel"
proof (rule related_mono(1) [OF _ _ _ assms(2)])
  have "r \<in> set (rows_of d' n)" if "r \<in> set (rows_of d n)" for r n
    using that assms(1) by (auto simp: tuples_in_def)
  then show "acl_direct (db_acl R d) n ob re \<subseteq> acl_direct (db_acl R d') n ob re"
    "acl_sets (db_acl R d) n ob re \<subseteq> acl_sets (db_acl R d') n ob re" for n ob re
    by (auto simp: db_acl_def)
qed (simp add: db_acl_def)

definition key_of :: "InternalRelationTuple \<Rightarrow> string \<times> tuple_row" where
  "key_of t = (irt_Namespace t, row_of t)"

definition change_of :: "string \<Rightarrow> int \<Rightarrow> InternalRelationTuple \<Rightarrow> change_row" where
  "change_of operation now t = \<lparr>cl_namespace = irt_Namespace t, cl_operation = operation,
     cl_relationtuple = InternalRelationTuple_String t, cl_timestamp = now\<rparr>"

definition apply_insert :: "int \<Rightarrow> InternalRelationTuple \<Rightarrow> db \<Rightarrow> db" where
  "apply_insert now t d =
     d\<lparr>tbl_tuples := (tbl_tuples d)(irt_Namespace t \<mapsto> insert_row (row_of t) (rows_of d (irt_Namespace t))),
       tbl_changelog := insert_row (change_of ''INSERT'' now t) (tbl_changelog d),
       tbl_lookup := fold insert_row (lookup_values t) (tbl_lookup d)\<rparr>"

definition apply_delete :: "int \<Rightarrow> InternalRelationTuple \<Rightarrow> db \<Rightarrow> db" where
  "apply_delete now t d =
     d\<lparr>tbl_tuples := (tbl_tuples d)(irt_Namespace t \<mapsto> removeAll (row_of t) (rows_of d (irt_Namespace t))),
       tbl_changelog := insert_row (change_of ''DELETE'' now t) (tbl_changelog d),
       tbl_lookup := filter (\<lambda>row. \<not> list_all (\<lambda>ex. row = ex) (lookup_values t)) (tbl_lookup d)\<rparr>"

definition has_table :: "db \<Rightarrow> InternalRelationTuple \<Rightarrow> bool" where
  "has_table d t \<longleftrightarrow> tbl_tuples d (irt_Namespace t) \<noteq> None"

lemmas stmt_defs = stmt_insert_tuple_def stmt_delete_tuple_def stmt_changelog_def stmt_insert_lookup_def
  stmt_delete_lookup_def change_of_def rows_of_def has_table_def

lemma txn_Exec_Inr:
  "txn_Exec E f t = (Inr x, t') \<longleftrightarrow>
     \<not> t_aborted t \<and> fault E (t_tick t) = None \<and>
     (\<exists>d. f (t_now t) (t_db t) = Inr (x, d) \<and> t' = t\<lparr>t_tick := Suc (t_tick t), t_db := d\<rparr>)"
  by (auto simp: txn_Exec_def Let_def split: option.splits sum.splits)

lemma insertTuple_Inr:
  "insertTuple E x t = (Inr y, t') \<Longrightarrow>
     has_table (t_db t) x \<and> t_db t' = apply_insert (t_now t) x (t_db t) \<and> t_now t' = t_now t \<and> \<not> t_aborted t'"
  by (auto simp: insertTuple_def andThen_Inr txn_Exec_Inr stmt_defs apply_insert_def split: option.splits)

lemma deleteTuple_Inr:
  "deleteTuple E x t = (Inr y, t') \<Longrightarrow>
     has_table (t_db t) x \<and> t_db t' = apply_delete (t_now t) x (t_db t) \<and> t_now t' = t_now t \<and> \<not> t_aborted t'"
  by (auto simp: deleteTuple_def andThen_Inr txn_Exec_Inr stmt_defs apply_delete_def split: option.splits)

lemma txn_foreach_Inr:
  assumes "\<And>x y t t'. f x t = (Inr y, t') \<Longrightarrow> t_db t' = ap (t_now t) x (t_db t) \<and> t_now t' = t_now t"
  shows "txn_foreach f xs t = (Inr y, t') \<Longrightarrow> t_db t' = fold (ap (t_now t)) xs (t_db t) \<and> t_now t' = t_now t"
proof (induction xs arbitrary: t)
  case (Cons x xs)
  from Cons.prems obtain z t1 where "f x t = (Inr z, t1)" "txn_foreach f xs t1 = (Inr y, t')"
    by (auto simp: andThen_Inr)
  with assms [of x t z t1] Cons.IH [of t1] show ?case by simp
qed simp

lemma txn_foreach_unaborted:
  assumes "\<And>x y t t'. f x t = (Inr y, t') \<Longrightarrow> \<not> t_aborted t'"
  shows "txn_foreach f xs t = (Inr y, t') \<Longrightarrow> \<not> t_aborted t \<Longrightarrow> \<not> t_aborted t'"
proof (induction xs arbitrary: t)
  case (Cons x xs)
  then obtain z t1 where "f x t = (Inr z, t1)" "txn_foreach f xs t1 = (Inr y, t')"
    by (auto simp: andThen_Inr)
  with assms [of x t z t1] Cons.IH [of t1] show ?case by simp
qed simp

text \<open>A committed write, as one function on the tables.\<close>

lemma Transact_Inr:
  assumes "TransactRelationTuples E ins dels w = (Inr y, w')"
  shows "w_db w' = fold (apply_delete (clock E (w_tick w))) dels (fold (apply_insert (clock E (w_tick w))) ins (w_db w))
    \<and> w_open w' = w_open w"
proof -
  obtain t w1 t1 where b: "db_Begin E w = (Inr t, w1)"
    and run: "andThen (txn_foreach (insertTuple E) ins) (\<lambda>_. txn_foreach (deleteTuple E) dels) t = (Inr (), t1)"
    and c: "txn_Commit E t1 w1 = (Inr y, w')"
    using assms by (auto simp: TransactRelationTuples_def split: prod.splits sum.splits)
  from run obtain t0 where "txn_foreach (insertTuple E) ins t = (Inr (), t0)"
    and "txn_foreach (deleteTuple E) dels t0 = (Inr (), t1)"
    by (auto simp: andThen_Inr)
  with txn_foreach_Inr [of "insertTuple E" apply_insert ins t "()" t0]
    txn_foreach_Inr [of "deleteTuple E" apply_delete dels t0 "()" t1] insertTuple_Inr deleteTuple_Inr
  have "t_db t1 = fold (apply_delete (t_now t)) dels (fold (apply_insert (t_now t)) ins (t_db t))" by metis
  with b c show ?thesis
    by (auto simp: db_Begin_def txn_Commit_def Let_def split: option.splits if_splits)
qed

lemma Transact_Inl:
  "TransactRelationTuples E ins dels w = (Inl err, w') \<Longrightarrow> w_db w' = w_db w"
  by (auto simp: TransactRelationTuples_def db_Begin_def txn_Commit_def txn_leak_def Let_def
      split: prod.splits sum.splits option.splits if_splits)

lemma tuples_in_apply:
  "tuples_in (apply_insert now t d) = insert (key_of t) (tuples_in d)"
  "tuples_in (apply_delete now t d) = tuples_in d - {key_of t}"
  by (auto simp: tuples_in_def apply_insert_def apply_delete_def key_of_def rows_of_def split: if_splits option.splits)

lemma tuples_in_fold:
  "tuples_in (fold (apply_insert now) ts d) = tuples_in d \<union> key_of ` set ts"
  "tuples_in (fold (apply_delete now) ts d) = tuples_in d - key_of ` set ts"
  by (induction ts arbitrary: d) (auto simp: tuples_in_apply)

lemma changelog_fold:
  "set (tbl_changelog (fold (apply_insert now) ts d)) = set (tbl_changelog d) \<union> change_of ''INSERT'' now ` set ts"
  "set (tbl_changelog (fold (apply_delete now) ts d)) = set (tbl_changelog d) \<union> change_of ''DELETE'' now ` set ts"
  by (induction ts arbitrary: d) (auto simp: apply_insert_def apply_delete_def)

lemma set_fold_insert_row: "set (fold insert_row xs rows) = set xs \<union> set rows"
  by (induction xs arbitrary: rows) auto

lemma lookup_fold:
  "set (tbl_lookup (fold (apply_insert now) ts d)) = set (tbl_lookup d) \<union> (\<Union>t \<in> set ts. set (lookup_values t))"
  "set (tbl_lookup (fold (apply_delete now) ts d)) =
     set (tbl_lookup d) - {row. \<exists>t \<in> set ts. \<forall>ex \<in> set (lookup_values t). row = ex}"
  by (induction ts arbitrary: d)
    (auto simp: apply_insert_def apply_delete_def set_fold_insert_row list_all_iff)

lemma other_tables_fold:
  "tbl_configs (fold (apply_insert now) ts d) = tbl_configs d"
  "tbl_configs (fold (apply_delete now) ts d) = tbl_configs d"
  "tbl_ns_changelog (fold (apply_insert now) ts d) = tbl_ns_changelog d"
  "tbl_ns_changelog (fold (apply_delete now) ts d) = tbl_ns_changelog d"
  by (induction ts arbitrary: d) (auto simp: apply_insert_def apply_delete_def)

lemmas transact_views = tuples_in_fold changelog_fold lookup_fold other_tables_fold

subsection \<open>The primary keys of the tables\<close>

definition wf_db :: "db \<Rightarrow> bool" where
  "wf_db d \<longleftrightarrow> (\<forall>ns. distinct (rows_of d ns)) \<and> distinct (tbl_changelog d) \<and> distinct (tbl_lookup d)"

lemma distinct_fold_insert_row: "distinct rows \<Longrightarrow> distinct (fold insert_row xs rows)"
  by (induction xs arbitrary: rows) auto

lemma wf_db_apply:
  assumes "wf_db d"
  shows "wf_db (apply_insert now t d)" "wf_db (apply_delete now t d)"
proof -
  have "rows_of (apply_insert now t d) ns =
      (if ns = irt_Namespace t then insert_row (row_of t) (rows_of d ns) else rows_of d ns)" for ns
    by (simp add: apply_insert_def rows_of_def)
  then show "wf_db (apply_insert now t d)"
    using assms by (auto simp: wf_db_def distinct_fold_insert_row) (auto simp: apply_insert_def distinct_fold_insert_row)
  have "rows_of (apply_delete now t d) ns =
      (if ns = irt_Namespace t then removeAll (row_of t) (rows_of d ns) else rows_of d ns)" for ns
    by (simp add: apply_delete_def rows_of_def)
  then show "wf_db (apply_delete now t d)"
    using assms by (auto simp: wf_db_def distinct_removeAll) (auto simp: apply_delete_def)
qed

lemma wf_db_fold: "wf_db d \<Longrightarrow> wf_db (fold (apply_insert now) ts d)" "wf_db d \<Longrightarrow> wf_db (fold (apply_delete now) ts d)"
  by (induction ts arbitrary: d) (simp_all add: wf_db_apply)

lemma wf_db_Transact: "wf_db (w_db w) \<Longrightarrow> wf_db (w_db (snd (TransactRelationTuples E ins dels w)))"
proof -
  assume wf: "wf_db (w_db w)"
  obtain r w' where res: "TransactRelationTuples E ins dels w = (r, w')" by fastforce
  show ?thesis
  proof (cases r)
    case (Inl err)
    with res Transact_Inl [of E ins dels w err w'] wf show ?thesis by simp
  next
    case (Inr y)
    with res Transact_Inr [of E ins dels w y w'] wf show ?thesis by (simp add: wf_db_fold)
  qed
qed

text \<open>In a table with its key, an exact match counts zero or one.\<close>

lemma RowCount_exact:
  assumes "wf_db (w_db w)"
    and "fst (RowCount E \<lparr>q_Object = \<lparr>obj_Namespace = ns, obj_ID = obj\<rparr>, q_Relations = [rel], q_Subject = s\<rparr> w) = Inr n"
  shows "n = (if (ns, \<lparr>row_object = obj, row_relation = rel, row_subject = Subject_String s\<rparr>) \<in> tuples_in (w_db w) then 1 else 0)"
proof -
  let ?r = "\<lparr>row_object = obj, row_relation = rel, row_subject = Subject_String s\<rparr>"
  obtain rows where "select_rows ns (\<lambda>r. r = ?r) (w_db w) = Inr rows" and n: "n = int (length rows)"
    using assms(2) by (auto simp: RowCount_def db_Query_def map_sum_def row_eq_iff split: option.splits sum.splits)
  with select_rows_Inr [OF this(1)] assms(1) show ?thesis
    by (simp add: length_filter_eq_distinct wf_db_def tuples_in_def)
qed

subsection \<open>Without faults\<close>

definition faultless :: "sql_env \<Rightarrow> bool" where
  "faultless E \<longleftrightarrow> (\<forall>n. fault E n = None)"

lemma has_table_apply [simp]:
  "has_table d x \<Longrightarrow> has_table (apply_insert now t d) x" "has_table d x \<Longrightarrow> has_table (apply_delete now t d) x"
  by (auto simp: has_table_def apply_insert_def apply_delete_def)

lemma has_table_fold [simp]: "has_table d x \<Longrightarrow> has_table (fold (apply_insert now) ts d) x"
  by (induction ts arbitrary: d) auto

lemma write_faultless:
  assumes "faultless E" "\<not> t_aborted t" "has_table (t_db t) x"
  shows "\<exists>t'. insertTuple E x t = (Inr (), t') \<and> t_db t' = apply_insert (t_now t) x (t_db t) \<and> t_now t' = t_now t \<and> \<not> t_aborted t'"
    and "\<exists>t'. deleteTuple E x t = (Inr (), t') \<and> t_db t' = apply_delete (t_now t) x (t_db t) \<and> t_now t' = t_now t \<and> \<not> t_aborted t'"
  using assms
  by (auto simp: faultless_def insertTuple_def deleteTuple_def andThen_def txn_Exec_def stmt_defs apply_insert_def
      apply_delete_def)

lemma txn_foreach_faultless:
  assumes step: "\<And>x t. \<not> t_aborted t \<Longrightarrow> has_table (t_db t) x \<Longrightarrow>
      \<exists>t'. f x t = (Inr (), t') \<and> t_db t' = ap (t_now t) x (t_db t) \<and> t_now t' = t_now t \<and> \<not> t_aborted t'"
    and keep: "\<And>now x d y. has_table d y \<Longrightarrow> has_table (ap now x d) y"
  shows "\<not> t_aborted t \<Longrightarrow> \<forall>x \<in> set xs. has_table (t_db t) x \<Longrightarrow>
    \<exists>t'. txn_foreach f xs t = (Inr (), t') \<and> t_db t' = fold (ap (t_now t)) xs (t_db t) \<and> \<not> t_aborted t'"
proof (induction xs arbitrary: t)
  case (Cons x xs)
  then obtain t1 where t1: "f x t = (Inr (), t1)" "t_db t1 = ap (t_now t) x (t_db t)" "t_now t1 = t_now t" "\<not> t_aborted t1"
    using step [of t x] by auto
  with Cons.IH [of t1] Cons.prems keep show ?case by (auto simp: andThen_def)
qed simp

lemma Transact_succeeds:
  assumes "faultless E" "\<forall>t \<in> set ins \<union> set dels. has_table (w_db w) t"
  shows "\<exists>w'. TransactRelationTuples E ins dels w = (Inr (), w')"
proof -
  let ?t = "\<lparr>t_db = w_db w, t_tick = Suc (w_tick w), t_now = clock E (w_tick w), t_aborted = False\<rparr>"
  obtain t1 where t1: "txn_foreach (insertTuple E) ins ?t = (Inr (), t1)"
    "t_db t1 = fold (apply_insert (t_now ?t)) ins (w_db w)" "\<not> t_aborted t1"
    using txn_foreach_faultless [of "insertTuple E" apply_insert ?t ins] write_faultless(1) [OF assms(1)] assms(2)
    by auto
  moreover obtain t2 where "txn_foreach (deleteTuple E) dels t1 = (Inr (), t2)" "\<not> t_aborted t2"
    using txn_foreach_faultless [of "deleteTuple E" apply_delete t1 dels] write_faultless(2) [OF assms(1)] assms(2) t1
    by auto
  ultimately show ?thesis
    using assms(1)
    by (simp add: TransactRelationTuples_def db_Begin_def txn_Commit_def andThen_def faultless_def Let_def)
qed

subsection \<open>Properties\<close>

definition docs_db :: db where
  "docs_db = empty_db\<lparr>tbl_tuples := [''docs'' \<mapsto> []]\<rparr>"

definition viewer_tuple :: InternalRelationTuple where
  "viewer_tuple = \<lparr>irt_Namespace = ''docs'', irt_Object = ''readme'', irt_Relation = ''viewer'',
     irt_Subject = SubjID \<lparr>ID = ''alice''\<rparr>\<rparr>"

definition editors_tuple :: InternalRelationTuple where
  "editors_tuple = \<lparr>irt_Namespace = ''docs'', irt_Object = ''readme'', irt_Relation = ''viewer'',
     irt_Subject = SubjSet \<lparr>ss_Namespace = ''docs'', ss_Object = ''readme'', ss_Relation = ''editor''\<rparr>\<rparr>"

lemma faultless_plain_env [simp]: "faultless (plain_env table)"
  by (simp add: faultless_def plain_env_def)

lemma has_table_docs_db: "has_table docs_db t \<longleftrightarrow> irt_Namespace t = ''docs''"
  by (simp add: has_table_def docs_db_def empty_db_def)

lemma tuples_in_docs_db: "tuples_in docs_db = {}"
  by (auto simp: tuples_in_def rows_of_def docs_db_def empty_db_def split: if_splits option.splits)

lemma Transact_docs_db:
  assumes "\<forall>t \<in> set ins \<union> set dels. irt_Namespace t = ''docs''"
  shows "\<exists>w'. TransactRelationTuples (plain_env []) ins dels (session docs_db) = (Inr (), w')"
  by (rule Transact_succeeds) (use assms in \<open>simp_all add: has_table_docs_db session_def\<close>)

text \<open>A committed \<open>TransactRelationTuples\<close> applies the inserts and then the deletes as one step:
  afterwards the tables hold the tuples they held and the inserted ones, less the deleted ones; the
  changelog has one \<open>INSERT\<close> or \<open>DELETE\<close> entry per tuple at the transaction's time; the namespace
  configurations are untouched and nothing is left open.\<close>

theorem transact_commits:
  assumes "TransactRelationTuples E ins dels w = (Inr (), w')"
  shows "tuples_in (w_db w') = (tuples_in (w_db w) \<union> key_of ` set ins) - key_of ` set dels
    \<and> set (tbl_changelog (w_db w')) = set (tbl_changelog (w_db w))
        \<union> change_of ''INSERT'' (clock E (w_tick w)) ` set ins \<union> change_of ''DELETE'' (clock E (w_tick w)) ` set dels
    \<and> tbl_configs (w_db w') = tbl_configs (w_db w) \<and> tbl_ns_changelog (w_db w') = tbl_ns_changelog (w_db w)
    \<and> w_open w' = w_open w"
  using Transact_Inr [OF assms] by (simp add: transact_views)

theorem transact_commits_witness:
  "tuples_in (w_db (snd (TransactRelationTuples (plain_env []) [viewer_tuple, editors_tuple] [editors_tuple]
     (session docs_db)))) = {key_of viewer_tuple}"
proof -
  obtain w' where w': "TransactRelationTuples (plain_env []) [viewer_tuple, editors_tuple] [editors_tuple] (session docs_db) = (Inr (), w')"
    using Transact_docs_db [of "[viewer_tuple, editors_tuple]" "[editors_tuple]"]
    by (auto simp: viewer_tuple_def editors_tuple_def)
  have "key_of viewer_tuple \<noteq> key_of editors_tuple"
    by (simp add: key_of_def row_of_def viewer_tuple_def editors_tuple_def Subject_String_def SubjectID_String_def
        SubjectSet_String_def)
  with transact_commits [OF w'] have "tuples_in (w_db w') = {key_of viewer_tuple}"
    by (auto simp: session_def tuples_in_docs_db)
  with w' show ?thesis by simp
qed



text \<open>A transaction that fails is not rolled back: where the database itself has no faults, every
  error of \<open>TransactRelationTuples\<close> (a tuple of a namespace without a table) leaves one more
  transaction open on its connection.\<close>

theorem transact_error_leaks:
  assumes "faultless E" "TransactRelationTuples E ins dels w = (Inl err, w')"
  shows "w_open w' = Suc (w_open w)"
proof -
  let ?run = "andThen (txn_foreach (insertTuple E) ins) (\<lambda>_. txn_foreach (deleteTuple E) dels)"
  let ?t = "\<lparr>t_db = w_db w, t_tick = Suc (w_tick w), t_now = clock E (w_tick w), t_aborted = False\<rparr>"
  obtain r t' where run: "?run ?t = (r, t')" by fastforce
  have "\<not> t_aborted t'" if "r = Inr ()"
    using run that txn_foreach_unaborted [of "insertTuple E" ins ?t "()"] txn_foreach_unaborted [of "deleteTuple E" dels _ "()" t']
      insertTuple_Inr deleteTuple_Inr
    by (auto simp: andThen_Inr)
  with assms run show ?thesis
    by (cases r) (auto simp: TransactRelationTuples_def db_Begin_def txn_Commit_def txn_leak_def faultless_def Let_def)
qed

theorem transact_error_leaks_witness:
  "w_open (snd (TransactRelationTuples (plain_env []) [viewer_tuple] [] (session empty_db))) = 1"
proof -
  obtain err w' where res: "TransactRelationTuples (plain_env []) [viewer_tuple] [] (session empty_db) = (Inl err, w')"
    by (auto simp: TransactRelationTuples_def db_Begin_def plain_env_def session_def andThen_def insertTuple_def
        txn_Exec_def stmt_insert_tuple_def empty_db_def Let_def)
  from transact_error_leaks [OF _ res] res show ?thesis by (simp add: session_def)
qed

text \<open>C36: deleting a tuple whose subject is a subject set of another relation removes none of its rows
  from the reverse lookup: the two conditions of the delete are joined by AND, and no row has both
  relations. (A tuple with a plain subject loses its row.)\<close>

theorem delete_keeps_lookup:
  assumes "TransactRelationTuples E [] dels w = (Inr (), w')"
    and "\<forall>t \<in> set dels. \<exists>s. irt_Subject t = SubjSet s \<and>
      (ss_Namespace s, ss_Relation s) \<noteq> (irt_Namespace t, irt_Relation t)"
  shows "set (tbl_lookup (w_db w')) = set (tbl_lookup (w_db w))"
proof -
  have "\<not> (\<forall>ex \<in> set (lookup_values t). row = ex)" if "t \<in> set dels" for t row
    using assms(2) that by (cases row) (auto simp: lookup_values_def)
  with Transact_Inr [OF assms(1)] show ?thesis by (auto simp: transact_views)
qed

theorem delete_keeps_lookup_witness:
  "\<exists>w1 w2. TransactRelationTuples (plain_env []) [editors_tuple] [] (session docs_db) = (Inr (), w1)
     \<and> TransactRelationTuples (plain_env []) [] [editors_tuple] w1 = (Inr (), w2)
     \<and> tuples_in (w_db w2) = {} \<and> set (tbl_lookup (w_db w2)) = set (lookup_values editors_tuple)"
proof -
  obtain w1 where w1: "TransactRelationTuples (plain_env []) [editors_tuple] [] (session docs_db) = (Inr (), w1)"
    using Transact_docs_db [of "[editors_tuple]" "[]"] by (auto simp: editors_tuple_def)
  note d1 = Transact_Inr [OF w1]
  have "\<exists>w2. TransactRelationTuples (plain_env []) [] [editors_tuple] w1 = (Inr (), w2)"
    by (rule Transact_succeeds)
      (use d1 in \<open>simp_all add: has_table_docs_db session_def editors_tuple_def\<close>)
  then obtain w2 where w2: "TransactRelationTuples (plain_env []) [] [editors_tuple] w1 = (Inr (), w2)" by blast
  have "set (tbl_lookup (w_db w2)) = set (tbl_lookup (w_db w1))"
    by (rule delete_keeps_lookup [OF w2]) (simp add: editors_tuple_def)
  moreover have "set (tbl_lookup (w_db w1)) = set (lookup_values editors_tuple)"
    using d1 by (auto simp: apply_insert_def set_fold_insert_row session_def docs_db_def empty_db_def)
  moreover have "tuples_in (w_db w2) = {}"
    using d1 Transact_Inr [OF w2] by (simp add: tuples_in_apply session_def tuples_in_docs_db)
  ultimately show ?thesis using w1 w2 by blast
qed

text \<open>What was written is found: after a committed write, \<open>RowCount\<close> of a tuple that the write
  inserted and did not delete is exactly 1, in tables that satisfy their primary keys.\<close>

theorem write_then_count:
  assumes "TransactRelationTuples E ins dels w = (Inr (), w')" "wf_db (w_db w)"
    and "t \<in> set ins" "key_of t \<notin> key_of ` set dels"
    and "fst (RowCount E' \<lparr>q_Object = \<lparr>obj_Namespace = irt_Namespace t, obj_ID = irt_Object t\<rparr>,
      q_Relations = [irt_Relation t], q_Subject = irt_Subject t\<rparr> w') = Inr n"
  shows "n = 1"
proof -
  have "wf_db (w_db w')" using wf_db_Transact [OF assms(2), of E ins dels] assms(1) by simp
  note n = RowCount_exact [OF this assms(5)]
  have "key_of t \<in> tuples_in (w_db w')"
    using Transact_Inr [OF assms(1)] assms(3,4) by (auto simp: transact_views)
  with n show ?thesis by (simp add: key_of_def row_of_def)
qed

theorem write_then_count_witness:
  "fst (RowCount (plain_env []) \<lparr>q_Object = \<lparr>obj_Namespace = ''docs'', obj_ID = ''readme''\<rparr>, q_Relations = [''viewer''],
      q_Subject = SubjID \<lparr>ID = ''alice''\<rparr>\<rparr>
     (snd (TransactRelationTuples (plain_env []) [viewer_tuple] [] (session docs_db)))) = Inr 1"
proof -
  let ?q = "\<lparr>q_Object = \<lparr>obj_Namespace = irt_Namespace viewer_tuple, obj_ID = irt_Object viewer_tuple\<rparr>,
      q_Relations = [irt_Relation viewer_tuple], q_Subject = irt_Subject viewer_tuple\<rparr>"
  obtain w' where w': "TransactRelationTuples (plain_env []) [viewer_tuple] [] (session docs_db) = (Inr (), w')"
    using Transact_docs_db [of "[viewer_tuple]" "[]"] by (auto simp: viewer_tuple_def)
  have wf: "wf_db (w_db (session docs_db))"
    by (simp add: wf_db_def rows_of_def session_def docs_db_def empty_db_def split: option.splits)
  obtain n where n: "fst (RowCount (plain_env []) ?q w') = Inr n"
    using Transact_Inr [OF w']
    by (auto simp: RowCount_def db_Query_def plain_env_def select_rows_def apply_insert_def viewer_tuple_def)
  from write_then_count [OF w' wf _ _ n] n w' show ?thesis by (simp add: viewer_tuple_def)
qed

text \<open>A list without a subject filter returns exactly the stored tuples of the namespace that match
  the object and the relations, parsed back to the subjects they were written with, when the rows
  arrive in full; it succeeds only if every one of those rows has a subject that can be parsed.\<close>

theorem list_returns_tuples:
  assumes "store_ListRelationTuples E q w = (Inr ts, w')" "lq_Subject q = None" "cut E (w_tick w) = None"
  shows "key_of ` set ts = {(ns, r) \<in> tuples_in (w_db w). ns = lq_Namespace q
      \<and> (lq_Object q \<noteq> '''' \<longrightarrow> row_object r = lq_Object q)
      \<and> (lq_Relations q \<noteq> [] \<longrightarrow> row_relation r \<in> set (lq_Relations q))}
    \<and> (\<forall>t \<in> set ts. wf_Subject (irt_Subject t))"
proof -
  note ts = store_List_Inr [OF assms]
  let ?P = "list_filter q"
  from ts(1) have "row_of ` set ts = {r \<in> set (rows_of (w_db w) (lq_Namespace q)). ?P r}"
    by (metis set_filter set_map)
  moreover have "key_of ` set ts = Pair (lq_Namespace q) ` row_of ` set ts"
    using ts(3) by (auto simp: key_of_def image_iff)
  ultimately show ?thesis using ts(2) by (auto simp: tuples_in_def list_filter_def)
qed

theorem list_returns_tuples_witness:
  "\<exists>ts w'. store_ListRelationTuples (plain_env []) \<lparr>lq_Namespace = ''docs'', lq_Object = '''', lq_Relations = [], lq_Subject = None\<rparr>
      (session (docs_db\<lparr>tbl_tuples := [''docs'' \<mapsto> [row_of viewer_tuple]]\<rparr>)) = (Inr ts, w')
    \<and> key_of ` set ts = {key_of viewer_tuple}"
proof -
  let ?q = "\<lparr>lq_Namespace = ''docs'', lq_Object = '''', lq_Relations = [], lq_Subject = None\<rparr>"
  let ?w = "session (docs_db\<lparr>tbl_tuples := [''docs'' \<mapsto> [row_of viewer_tuple]]\<rparr>)"
  obtain ts w' where res: "store_ListRelationTuples (plain_env []) ?q ?w = (Inr ts, w')"
    by (auto simp: store_ListRelationTuples_def scan_def db_Query_def plain_env_def select_rows_def session_def
        rows_seen_def row_of_def viewer_tuple_def Subject_String_def SubjectID_String_def SubjectFromString_cases)
  from list_returns_tuples [OF res] have "key_of ` set ts = {key_of viewer_tuple}"
    by (auto simp: plain_env_def session_def tuples_in_def rows_of_def key_of_def viewer_tuple_def)
  with res show ?thesis by blast
qed

end
