(* ===== verification/Check_Properties.thy ===== *)
theory Check_Properties
  imports Sql_Store
begin

section \<open>Checks over the SQL store\<close>

text \<open>
  The statements about \<open>Check\<close> as a client sees it: the handler on any node of a cluster whose store
  is the SQL store, against the relation that the stored tuples and the rewrite rules define
  (\<open>related (db_acl R d)\<close>). They rest on the two interpretations of the store interface in
  \<open>Sql_Store\<close>.
\<close>

subsection \<open>A small cluster\<close>

text \<open>
  Two nodes, two namespaces: viewers of a document are those it is shared with and its editors;
  members of a group. Node \<open>n2\<close> owns every object.
\<close>

definition cfg_pages :: NamespaceConfig where
  "cfg_pages = \<lparr>cfg_Name = ''pages'', cfg_Relations =
     [\<lparr>rel_Name = ''viewer'', rel_Rewrite = Some (Rewrite_Union [Child_This, Child_ComputedSubjectset ''editor''])\<rparr>,
      \<lparr>rel_Name = ''editor'', rel_Rewrite = None\<rparr>]\<rparr>"

definition cfg_group :: NamespaceConfig where
  "cfg_group = \<lparr>cfg_Name = ''group'', cfg_Relations = [\<lparr>rel_Name = ''member'', rel_Rewrite = None\<rparr>]\<rparr>"

definition team_rules :: "string \<Rightarrow> string \<Rightarrow> Rewrite option" where
  "team_rules ns rel = rewriteFromNamespaceConfig rel
     (if ns = ''pages'' then Some cfg_pages else if ns = ''group'' then Some cfg_group else None)"

definition team_store :: inmemPeerNamespaceConfigStore where
  "team_store = store_of [(''n1'', ''pages'', cfg_pages, utc 1), (''n1'', ''group'', cfg_group, utc 2),
     (''n2'', ''pages'', cfg_pages, utc 1), (''n2'', ''group'', cfg_group, utc 2)]"

definition team_node :: "string \<Rightarrow> string list AccessController" where
  "team_node i =
     \<lparr>RPCRouter = AddClient ''n2'' (CheckServiceClient ''host2'') (AddClient ''n1'' (CheckServiceClient ''host1'') NewMapClientRouter),
      Hashring = \<lparr>ring = [''n2'', ''n1'']\<rparr>,
      PeerStore = team_store,
      Configs = \<lparr>ServerID = i, Advertise = '''', Join = '''', NodePort = 0, ServerPort = 0\<rparr>\<rparr>"

definition team_db :: db where
  "team_db = empty_db\<lparr>tbl_tuples :=
     [''pages'' \<mapsto> [\<lparr>row_object = ''readme'', row_relation = ''viewer'', row_subject = ''group:eng#member''\<rparr>],
      ''group'' \<mapsto> [\<lparr>row_object = ''eng'', row_relation = ''member'', row_subject = ''alice''\<rparr>]]\<rparr>"

definition team :: "sql_env list \<Rightarrow> string list cluster" where
  "team Es = \<lparr>cl_lib = list_ring, cl_store = sql_tuple_store Es team_db,
     cl_server = [''host1'' \<mapsto> team_node ''n1'', ''host2'' \<mapsto> team_node ''n2''],
     cl_transport = (\<lambda>_. []), cl_wire = (\<lambda>ctx. ctx\<lparr>ctx_values := [], ctx_done := None\<rparr>)\<rparr>"

lemma team_nodes: "cl_nodes (team Es) = {team_node ''n1'', team_node ''n2''}"
proof -
  have "cl_server (team Es) addr = Some b \<longleftrightarrow>
      (addr = ''host1'' \<and> b = team_node ''n1'') \<or> (addr = ''host2'' \<and> b = team_node ''n2'')" for addr b
    by (simp add: team_def eq_commute)
  then show ?thesis unfolding cl_nodes_def by simp blast
qed

lemma team_wire [simp]: "wire_drops_values (team Es)"
  by (simp add: wire_drops_values_def team_def)

lemma team_config:
  assumes "i = ''n1'' \<or> i = ''n2''"
  shows "node_config (team_node i) ns =
     (if ns = ''pages'' then Some cfg_pages else if ns = ''group'' then Some cfg_group else None)"
  using assms
  by (auto simp: node_config_def team_node_def team_store_def store_eval chooseNamespaceConfigSnapshot_def
      ListNamespaceConfigSnapshots_def commonTimestamps_def selectTS_def time_Equal_def time_After_def zero_time_def)

lemma team_same_rules [simp]: "same_rules (team Es) (db_acl team_rules d)"
  unfolding same_rules_def team_nodes
  by (auto simp: team_config team_rules_def db_acl_def split: if_splits)

lemma team_quiet [simp]: "quiet (team Es)"
proof -
  have "ring_LocateKey list_ring (Hashring (team_node i)) key = Some ''n2''" for i key
    by (simp add: ring_LocateKey_def list_ring_def team_node_def)
  moreover have "GetClient (RPCRouter (team_node i)) ''n2'' = Inr (CheckServiceClient ''host2'')" for i
    by (simp add: team_node_def GetClient_def AddClient_def NewMapClientRouter_def)
  moreover have "Hashring (team_node i) = Hashring (team_node j)" for i j
    by (simp add: team_node_def)
  moreover have "server_id (team_node i) = i" for i by (simp add: team_node_def)
  ultimately show ?thesis
    unfolding quiet_def team_nodes by (simp add: team_def)
qed

subsection \<open>Reads that do not fail\<close>

definition parseable :: "db \<Rightarrow> string \<Rightarrow> bool" where
  "parseable d ns \<longleftrightarrow> tbl_tuples d ns \<noteq> None \<and>
     (\<forall>r \<in> set (rows_of d ns). sql_LIKE like_subject_set (row_subject r) \<longrightarrow> is_ok (SubjectSetFromString (row_subject r)))"

lemma scanSubjectSets_ok:
  "\<forall>s \<in> set rows. is_ok (SubjectSetFromString s) \<Longrightarrow> \<exists>ss. scanSubjectSets rows = Inr ss"
  by (induction rows) (auto elim!: is_okE)

lemma reliable_sql:
  assumes "Es \<noteq> []" "\<forall>E \<in> set Es. faultless E" "parseable d ns"
  shows "reliable (sql_tuple_store (whole_results Es) d) ns"
proof -
  obtain rows where rows: "tbl_tuples d ns = Some rows" using assms(3) by (auto simp: parseable_def)
  have count: "\<exists>n. \<forall>E \<in> set (whole_results Es). fst (RowCount E \<lparr>q_Object = \<lparr>obj_Namespace = ns, obj_ID = obj\<rparr>,
      q_Relations = [rel], q_Subject = SubjID \<lparr>ID = u\<rparr>\<rparr> (session d)) = Inr n" for obj rel u
    using assms(2) rows
    by (auto simp: RowCount_def db_Query_def session_def whole_results_def faultless_def select_rows_def)
  have sets: "\<exists>ss. \<forall>E \<in> set (whole_results Es). fst (SubjectSets E \<lparr>obj_Namespace = ns, obj_ID = obj\<rparr> [rel] (session d)) = Inr ss"
    for obj rel
  proof -
    let ?P = "\<lambda>r. row_object r = obj \<and> row_relation r = rel \<and> sql_LIKE like_subject_set (row_subject r)"
    obtain ss where "scanSubjectSets (map row_subject (filter ?P rows)) = Inr ss"
      using scanSubjectSets_ok [of "map row_subject (filter ?P rows)"] assms(3) rows
      by (auto simp: parseable_def rows_of_def)
    then have "\<forall>E \<in> set (whole_results Es). fst (SubjectSets E \<lparr>obj_Namespace = ns, obj_ID = obj\<rparr> [rel] (session d)) = Inr ss"
      using assms(2) rows
      by (auto simp: SubjectSets_def scan_def db_Query_def session_def whole_results_def faultless_def select_rows_def)
    then show ?thesis by blast
  qed
  have const: "\<exists>y. set (map f (whole_results Es)) = {Inr y}"
    if "\<exists>y. \<forall>E \<in> set (whole_results Es). f E = Inr y" for f :: "sql_env \<Rightarrow> 'x result"
    using that set_map_constant [of "whole_results Es" f] assms(1) by (auto simp: whole_results_def)
  show ?thesis
    unfolding reliable_def sql_tuple_store_def tuple_store.simps
    by (intro conjI allI const [OF count] const [OF sets])
qed

subsection \<open>The goals of the small cluster\<close>

definition eng :: SubjectSet where
  "eng = \<lparr>ss_Namespace = ''group'', ss_Object = ''eng'', ss_Relation = ''member''\<rparr>"

lemma named_eng: "named_SubjectSet eng" "SubjectSet_String eng = ''group:eng#member''"
  by (simp_all add: named_SubjectSet_def wf_SubjectSet_def eng_def SubjectSet_String_def)

lemma team_acl:
  "acl_direct (db_acl R team_db) ns obj rel =
     (if (ns, obj, rel) = (''pages'', ''readme'', ''viewer'') then {''group:eng#member''}
      else if (ns, obj, rel) = (''group'', ''eng'', ''member'') then {''alice''} else {})"
  "acl_sets (db_acl R team_db) ns obj rel =
     (if (ns, obj, rel) = (''pages'', ''readme'', ''viewer'') then {eng} else {})"
  "acl_rules (db_acl R d) = R"
proof -
  have eng: "s = eng" if "named_SubjectSet s" "SubjectSet_String s = ''group:eng#member''" for s
    by (rule SubjectSet_String_inject) (use that named_eng in \<open>auto simp: named_SubjectSet_def\<close>)
  have alice: "SubjectSet_String s \<noteq> ''alice''" for s
  proof
    assume "SubjectSet_String s = ''alice''"
    then have "set (SubjectSet_String s) = set ''alice''" by simp
    moreover have "CHR ''#'' \<in> set (SubjectSet_String s)" by (simp add: SubjectSet_String_def)
    ultimately show False by simp
  qed
  have rows: "rows_of team_db ns = (if ns = ''pages'' then [\<lparr>row_object = ''readme'', row_relation = ''viewer'', row_subject = ''group:eng#member''\<rparr>]
     else if ns = ''group'' then [\<lparr>row_object = ''eng'', row_relation = ''member'', row_subject = ''alice''\<rparr>] else [])"
    by (simp add: rows_of_def team_db_def empty_db_def)
  show "acl_direct (db_acl R team_db) ns obj rel =
     (if (ns, obj, rel) = (''pages'', ''readme'', ''viewer'') then {''group:eng#member''}
      else if (ns, obj, rel) = (''group'', ''eng'', ''member'') then {''alice''} else {})"
    by (auto simp: db_acl_def rows)
  show "acl_sets (db_acl R team_db) ns obj rel =
     (if (ns, obj, rel) = (''pages'', ''readme'', ''viewer'') then {eng} else {})"
    using eng named_eng alice by (auto simp: db_acl_def rows)
qed (simp add: db_acl_def)

definition team_goals :: "goal set" where
  "team_goals = {(''pages'', ''readme'', ''viewer''), (''pages'', ''readme'', ''editor''), (''group'', ''eng'', ''member'')}"

definition team_rank :: "goal \<Rightarrow> nat" where
  "team_rank g = (if g = (''pages'', ''readme'', ''viewer'') then 1 else 0)"

lemma team_rules_eval:
  "team_rules ''pages'' ''viewer'' = Some (Rewrite_Union [Child_This, Child_ComputedSubjectset ''editor''])"
  "team_rules ''pages'' ''editor'' = Some (Rewrite_Union [Child_This])"
  "team_rules ''group'' ''member'' = Some (Rewrite_Union [Child_This])"
  by (simp_all add: team_rules_def rewriteFromNamespaceConfig_def GetRelations_def cfg_pages_def cfg_group_def this_rewrite_def)

lemma team_ranked: "ranked_goals (team Es) (db_acl team_rules team_db) team_goals team_rank"
  unfolding ranked_goals_def team_goals_def team_nodes
  by (simp add: team_config team_acl team_rules_eval team_rank_def eng_def)

lemma team_parseable: "parseable team_db ''pages''" "parseable team_db ''group''"
proof -
  have "SubjectSetFromString ''group:eng#member'' = Inr eng"
    using named_eng by (simp add: SubjectSetFromString_Inr_iff named_SubjectSet_def)
  moreover have "\<not> sql_LIKE like_subject_set ''alice''"
  proof
    assume "sql_LIKE like_subject_set ''alice''"
    then obtain x y z where "''alice'' = x @ CHR '':'' # y @ CHR ''#'' # z" unfolding like_subject_set_iff by blast
    then have "CHR '':'' \<in> set ''alice''" by (metis in_set_conv_decomp)
    then show False by simp
  qed
  ultimately show "parseable team_db ''pages''" "parseable team_db ''group''"
    by (simp_all add: parseable_def rows_of_def team_db_def empty_db_def)
qed

lemma alice_related: "related (db_acl team_rules team_db) ''alice'' ''pages'' ''readme'' ''viewer''"
proof -
  have "related (db_acl team_rules team_db) ''alice'' ''group'' ''eng'' ''member''"
    by (simp add: related_iff [of _ _ "''group''"] team_acl team_rules_eval)
  then have "sat_child (db_acl team_rules team_db) ''alice'' Child_This ''pages'' ''readme'' ''viewer''"
    by (simp add: team_acl eng_def)
  then have "sat_rewrite (db_acl team_rules team_db) ''alice''
      (Rewrite_Union [Child_This, Child_ComputedSubjectset ''editor'']) ''pages'' ''readme'' ''viewer''"
    by (intro by_union [of Child_This]) simp_all
  from by_rule [OF _ this] show ?thesis by (simp add: team_acl(3) team_rules_eval)
qed

lemma team_store [simp]: "cl_store (team Es) = sql_tuple_store Es team_db"
  by (simp add: team_def)

lemma team_check_alice:
  "set (check (team (whole_results [plain_env []])) 4 (team_node ''n1'') context_Background
     ''pages'' ''readme'' ''viewer'' ''alice'') = {Inr True}"
proof -
  have "set (check (team (whole_results [plain_env []])) 4 (team_node ''n1'') context_Background
     ''pages'' ''readme'' ''viewer'' ''alice'') = {Inr (related (db_acl team_rules team_db) ''alice'' ''pages'' ''readme'' ''viewer'')}"
    by (rule sql_reader.check_settles [where G = team_goals and rank = team_rank, OF team_store])
      (use team_parseable reliable_sql [of "[plain_env []]"] in
        \<open>simp_all add: team_ranked [unfolded team_goals_def] team_nodes context_Background_def team_goals_def team_rank_def\<close>)
  then show ?thesis by (simp add: alice_related)
qed

definition ask_alice :: CheckRequest where
  "ask_alice = \<lparr>chk_Namespace = ''pages'', chk_Object = ''readme'', chk_Relation = ''viewer'',
     chk_Subject = Some \<lparr>pbs_Ref = Some (Subject_Id ''alice'')\<rparr>\<rparr>"

lemma team_Check_alice:
  "Inr True \<in> set (Check (check (team (whole_results [plain_env []])) 4 (team_node ''n1'')) context_Background ask_alice)"
  using team_check_alice
  by (simp add: ask_alice_def Check_def SubjectFromProto_def GetRef_def Subject_String_def SubjectID_String_def)

subsection \<open>Properties\<close>

lemma Check_Inr:
  assumes "Inr b \<in> set (Check chk ctx req)"
  obtains s where "SubjectFromProto (chk_Subject req) = Some s"
    "Inr b \<in> set (chk ctx (chk_Namespace req) (chk_Object req) (chk_Relation req) (Subject_String s))"
  using assms by (auto simp: Check_def split: if_splits option.splits)

text \<open>C1: every answer of \<open>Check\<close> is right. Whatever node is asked, however the request was forwarded,
  retried or fell back to local evaluation, whichever child of a rewrite answered first, and
  whatever reads or calls failed on the way: an \<open>allowed\<close> or \<open>not allowed\<close> answer says whether
  the tuples in the database and the rewrite rules relate the subject to the object, as long as the
  nodes evaluate at configurations with these rules and rows arrive in full.\<close>

theorem check_answers_correctly:
  assumes "cl_store C = sql_tuple_store (whole_results Es) d" "wire_drops_values C" "same_rules C (db_acl R d)"
    and "a \<in> cl_nodes C" "ctx_values ctx = []"
    and "Inr allowed \<in> set (Check (check C k a) ctx req)"
  shows "\<exists>s. SubjectFromProto (chk_Subject req) = Some s \<and>
    allowed = related (db_acl R d) (Subject_String s) (chk_Namespace req) (chk_Object req) (chk_Relation req)"
  using assms(6)
proof (rule Check_Inr)
  fix s
  assume s: "SubjectFromProto (chk_Subject req) = Some s"
    "Inr allowed \<in> set (check C k a ctx (chk_Namespace req) (chk_Object req) (chk_Relation req) (Subject_String s))"
  from sql_reader.check_decides [OF assms(1-4) _ s(2)] assms(5) s(1) show ?thesis by auto
qed

text \<open>C3: permissions are justified even when results break off: if rows are lost while a result is
  read (which the code does not notice), \<open>Check\<close> still allows a subject only if the stored tuples
  and the rules relate it to the object. Lost rows can only deny.\<close>

theorem check_grants_only_related:
  assumes "cl_store C = sql_tuple_store Es d" "wire_drops_values C" "same_rules C (db_acl R d)"
    and "a \<in> cl_nodes C" "ctx_values ctx = []"
    and "Inr True \<in> set (Check (check C k a) ctx req)"
  shows "\<exists>s. SubjectFromProto (chk_Subject req) = Some s \<and>
    related (db_acl R d) (Subject_String s) (chk_Namespace req) (chk_Object req) (chk_Relation req)"
  using assms(6)
proof (rule Check_Inr)
  fix s
  assume s: "SubjectFromProto (chk_Subject req) = Some s"
    "Inr True \<in> set (check C k a ctx (chk_Namespace req) (chk_Object req) (chk_Relation req) (Subject_String s))"
  from sql_source.check_grants [OF assms(1-4) _ s(2)] assms(5) s(1) show ?thesis by auto
qed

text \<open>C2: a check of ranked goals always answers, with one answer only. If the subject sets and
  rewrites reachable from a goal lower a rank (there is no cycle), the nodes agree on the ring, can
  reach the owner of each object and have a configuration of each namespace, and neither database
  nor transport fails, then the only possible outcome of a check, on every node, is the answer of
  the specification; the fuel it takes is twice the rank plus two.\<close>

theorem check_complete:
  assumes "cl_store C = sql_tuple_store (whole_results Es) d" "wire_drops_values C" "same_rules C (db_acl R d)"
    and "quiet C" "Es \<noteq> []" "\<forall>E \<in> set Es. faultless E"
    and "ranked_goals C (db_acl R d) G rank" "\<forall>(ns, obj, rel) \<in> G. parseable d ns"
    and "(ns, obj, rel) \<in> G" "a \<in> cl_nodes C" "ctx_values ctx = []" "ctx_done ctx = None"
    and "k \<ge> 2 * rank (ns, obj, rel) + 2"
  shows "set (check C k a ctx ns obj rel u) = {Inr (related (db_acl R d) u ns obj rel)}"
proof (rule sql_reader.check_settles [OF assms(1-4) _ assms(7,9,10)])
  show "\<forall>(ns, obj, rel) \<in> G. reliable (sql_tuple_store (whole_results Es) d) ns"
    using assms(5,6,8) by (auto intro: reliable_sql)
qed (use assms in simp_all)

theorem check_complete_witness:
  "set (check (team (whole_results [plain_env []])) 4 (team_node ''n1'') context_Background
     ''pages'' ''readme'' ''viewer'' ''alice'') = {Inr True}"
proof -
  have "set (check (team (whole_results [plain_env []])) 4 (team_node ''n1'') context_Background
     ''pages'' ''readme'' ''viewer'' ''alice'') = {Inr (related (db_acl team_rules team_db) ''alice'' ''pages'' ''readme'' ''viewer'')}"
    by (rule check_complete [where G = team_goals and rank = team_rank and Es = "[plain_env []]"])
      (use team_parseable in \<open>simp_all add: team_ranked [unfolded team_goals_def] team_nodes context_Background_def team_goals_def team_rank_def\<close>)
  then show ?thesis by (simp add: alice_related)
qed

theorem check_answers_correctly_witness:
  "Inr True \<in> set (Check (check (team (whole_results [plain_env []])) 4 (team_node ''n1'')) context_Background ask_alice)
   \<and> related (db_acl team_rules team_db) ''alice'' ''pages'' ''readme'' ''viewer''"
proof -
  have "\<exists>s. SubjectFromProto (chk_Subject ask_alice) = Some s \<and> True = related (db_acl team_rules team_db)
      (Subject_String s) (chk_Namespace ask_alice) (chk_Object ask_alice) (chk_Relation ask_alice)"
    by (rule check_answers_correctly [OF _ _ _ _ _ team_Check_alice]) (simp_all add: team_nodes context_Background_def)
  with team_Check_alice show ?thesis
    by (simp add: ask_alice_def SubjectFromProto_def GetRef_def Subject_String_def SubjectID_String_def)
qed

theorem check_grants_only_related_witness:
  "Inr True \<in> set (Check (check (team (whole_results [plain_env []])) 4 (team_node ''n1'')) context_Background ask_alice)
   \<and> related (db_acl team_rules team_db) ''alice'' ''pages'' ''readme'' ''viewer''"
proof -
  have "\<exists>s. SubjectFromProto (chk_Subject ask_alice) = Some s \<and> related (db_acl team_rules team_db)
      (Subject_String s) (chk_Namespace ask_alice) (chk_Object ask_alice) (chk_Relation ask_alice)"
    by (rule check_grants_only_related [OF team_store _ _ _ _ team_Check_alice]) (simp_all add: team_nodes context_Background_def)
  with team_Check_alice show ?thesis
    by (simp add: ask_alice_def SubjectFromProto_def GetRef_def Subject_String_def SubjectID_String_def)
qed

text \<open>C4: there is no cycle detection. Where an object's relation has itself as its only subject set
  (a tuple like \<open>pages:x#editor@pages:x#editor\<close>, which \<open>WriteRelationTuplesTxn\<close> accepts), a check of
  a subject that is not stored directly never answers, whatever the fuel, on the node that owns the
  object and with a context that is not cancelled.\<close>

theorem check_cycle_never_answers:
  assumes "ring_LocateKey (cl_lib C) (Hashring a) obj = Some (server_id a)"
    and "node_config a ns = Some cfg" "rewriteFromNamespaceConfig rel (Some cfg) = Some this_rewrite"
    and "store_RowCount (cl_store C) \<lparr>q_Object = \<lparr>obj_Namespace = ns, obj_ID = obj\<rparr>, q_Relations = [rel],
        q_Subject = SubjID \<lparr>ID = u\<rparr>\<rparr> = [Inr 0]"
    and "store_SubjectSets (cl_store C) \<lparr>obj_Namespace = ns, obj_ID = obj\<rparr> [rel] =
        [Inr [\<lparr>ss_Namespace = ns, ss_Object = obj, ss_Relation = rel\<rparr>]]"
    and "snapshot_ctx a ctx" "checksum_ctx (cl_lib C) a ctx" "ctx_done ctx = None"
  shows "check C k a ctx ns obj rel u = []"
  using assms(6-8)
proof (induction k arbitrary: ctx)
  case (Suc k)
  obtain ctx1 where ctx1: "checkConfig a ctx ns = Inr (cfg, ctx1)"
    using checkConfig_defined [OF Suc.prems(1) assms(2)] by blast
  note c1 = checkConfig_snapshot [OF Suc.prems(1) ctx1]
  have "check C k a ctx1 ns obj rel u = []"
    by (rule Suc.IH) (use c1 Suc.prems in \<open>simp_all add: checksum_ctx_def\<close>)
  then have "checkRewrite (cl_store C) (check C k a) ctx1 this_rewrite ns obj rel u = []"
    using assms(4,5) c1 Suc.prems(3)
    by (simp add: this_rewrite_def checkLeaf_def Let_def checkSubjects_def selectOutcomes_def childErrors_def ctxOutcomes_def)
  then show ?case
    using Suc.prems(2) ctx1 assms(1,3)
    by (auto simp: check_body_def checksum_ctx_def split: option.splits)
qed simp

definition loop_db :: db where
  "loop_db = empty_db\<lparr>tbl_tuples :=
     [''pages'' \<mapsto> [\<lparr>row_object = ''x'', row_relation = ''editor'', row_subject = ''pages:x#editor''\<rparr>]]\<rparr>"

theorem check_cycle_never_answers_witness:
  "check (team [plain_env []]\<lparr>cl_store := sql_tuple_store [plain_env []] loop_db\<rparr>) 1000 (team_node ''n2'')
     context_Background ''pages'' ''x'' ''editor'' ''bob'' = []"
proof (rule check_cycle_never_answers)
  let ?s = "\<lparr>ss_Namespace = ''pages'', ss_Object = ''x'', ss_Relation = ''editor''\<rparr>"
  have s: "wf_SubjectSet ?s" "SubjectSet_String ?s = ''pages:x#editor''" "named_SubjectSet ?s"
    by (simp_all add: wf_SubjectSet_def SubjectSet_String_def named_SubjectSet_def)
  then have "sql_LIKE like_subject_set ''pages:x#editor''" "SubjectSetFromString ''pages:x#editor'' = Inr ?s"
    using like_SubjectSet_String [of ?s] by (simp_all add: SubjectSetFromString_Inr_iff)
  then show "store_SubjectSets (cl_store (team [plain_env []]\<lparr>cl_store := sql_tuple_store [plain_env []] loop_db\<rparr>))
      \<lparr>obj_Namespace = ''pages'', obj_ID = ''x''\<rparr> [''editor''] = [Inr [?s]]"
    by (simp add: sql_tuple_store_def SubjectSets_def scan_def db_Query_def plain_env_def session_def loop_db_def
        select_rows_def rows_seen_def)
  show "store_RowCount (cl_store (team [plain_env []]\<lparr>cl_store := sql_tuple_store [plain_env []] loop_db\<rparr>))
      \<lparr>q_Object = \<lparr>obj_Namespace = ''pages'', obj_ID = ''x''\<rparr>, q_Relations = [''editor''],
        q_Subject = SubjID \<lparr>ID = ''bob''\<rparr>\<rparr> = [Inr 0]"
    by (simp add: sql_tuple_store_def RowCount_def db_Query_def plain_env_def session_def loop_db_def
        select_rows_def Subject_String_def SubjectID_String_def)
  show "node_config (team_node ''n2'') ''pages'' = Some cfg_pages" by (simp add: team_config)
qed (simp_all add: team_def team_node_def ring_LocateKey_def list_ring_def cfg_pages_def rewriteFromNamespaceConfig_def
    GetRelations_def this_rewrite_def context_Background_def)

text \<open>The retry loop of a forwarded check is bounded: after the first call it makes at most six
  more, whatever ring, clients and peers do, and then answers, evaluates locally or panics.\<close>

theorem proxy_calls_bounded:
  "(log, p) \<in> set (proxyRetries self locate getClient call 0 [first] res) \<Longrightarrow> length log \<le> 7"
  using proxyRetries_log [of log p self locate getClient call 0 "[first]" res] by simp

theorem proxy_calls_bounded_witness:
  "\<exists>log. (log, Evaluate) \<in> set (proxyRetries ''n1'' (\<lambda>_. Some ''n2'') (\<lambda>_ _. Inr (CheckServiceClient ''host2''))
     (\<lambda>_. [Inl internalErrorStatus]) 0 [''n2''] (Inl internalErrorStatus)) \<and> length log = 7 \<and> length log \<le> 7"
proof -
  let ?log = "[''n2'', ''n2'', ''n2'', ''n2'', ''n2'', ''n2'', ''n2'']"
  have "(?log, Evaluate) \<in> set (proxyRetries ''n1'' (\<lambda>_. Some ''n2'') (\<lambda>_ _. Inr (CheckServiceClient ''host2''))
     (\<lambda>_. [Inl internalErrorStatus]) 0 [''n2''] (Inl internalErrorStatus))"
    by (simp add: proxyRetries.simps internalErrorStatus_def)
  from this proxy_calls_bounded [OF this] show ?thesis by (intro exI [of _ ?log]) simp
qed

end
