(* ===== verification/Expand_Types.thy ===== *)
theory Expand_Types
  imports Expand_Engine
begin

section \<open>The shape of expansion trees\<close>

text \<open>
  Every tree that an expansion returns is well typed, whatever the store answers: a leaf is a subject
  id without children, an inner node is a union or an intersection and carries the subject set it
  expands. This needs no law of the store, only that the rewrites of the configurations have an
  operation; the code leaves the type of a node empty for one that has none.
\<close>

fun typed_tree :: "SubjectTree \<Rightarrow> bool" where
  "typed_tree (SubjectTree ty (SubjID i) cs) = (ty = LeafNode \<and> cs = [])"
| "typed_tree (SubjectTree ty (SubjSet ss) cs) = ((ty = UnionNode \<or> ty = IntersectionNode) \<and> list_all typed_tree cs)"

fun complete_rewrite :: "Rewrite \<Rightarrow> bool" and complete_child :: "SetOperation_Child \<Rightarrow> bool" where
  "complete_rewrite RewriteNil = False"
| "complete_rewrite (Rewrite_Union cs) = list_all complete_child cs"
| "complete_rewrite (Rewrite_Intersection cs) = list_all complete_child cs"
| "complete_child (Child_Rewrite rw) = complete_rewrite rw"
| "complete_child _ = True"

definition complete_configs :: "inmemPeerNamespaceConfigStore \<Rightarrow> bool" where
  "complete_configs peers \<longleftrightarrow>
     (\<forall>ns snap rel rw. chooseNamespaceConfigSnapshot peers ns = Inr snap \<longrightarrow>
        rewriteFromNamespaceConfig rel (snap_Config snap) = Some rw \<longrightarrow> complete_rewrite rw)"

definition set_node :: "Subject \<Rightarrow> bool" where
  "set_node s \<longleftrightarrow> (\<exists>ss. s = SubjSet ss)"

definition typed_expand :: "'s expand_fun \<Rightarrow> bool" where
  "typed_expand exp \<longleftrightarrow>
     (\<forall>ctx ns obj rel d s t s'. exp ctx ns obj rel d s = Some (Inr (Some t), s') \<longrightarrow>
        typed_tree t \<and> tree_Subject t = SubjSet \<lparr>ss_Namespace = ns, ss_Object = obj, ss_Relation = rel\<rparr>)"

lemma typed_expandD: "typed_expand exp \<Longrightarrow> exp ctx ns obj rel d s = Some (Inr (Some t), s') \<Longrightarrow> typed_tree t"
  unfolding typed_expand_def by blast

lemma typed_wf: "typed_tree t \<Longrightarrow> wf_tree t"
proof (induction t)
  case (SubjectTree ty s cs)
  then show ?case by (cases s) (auto simp: list_all_iff)
qed

lemma typed_append:
  assumes "typed_expand exp" "exp ctx ns obj rel d s = Some (Inr t, s')" "list_all typed_tree children"
  shows "list_all typed_tree (children @ (case t of None \<Rightarrow> [] | Some t' \<Rightarrow> [t']))"
  using assms typed_expandD [OF assms(1), of ctx ns obj rel d s _ s'] by (cases t) auto

lemma expandTuples_typed:
  assumes exp: "typed_expand exp"
  shows "list_all typed_tree children \<Longrightarrow>
     expandTuples exp ctx relation depth tuples children s = Some (Inr cs, s') \<Longrightarrow> list_all typed_tree cs"
proof (induction tuples arbitrary: children s)
  case (Cons tuple tuples)
  show ?case
  proof (cases "irt_Subject tuple")
    case (SubjID i)
    with Cons.prems Cons.IH [of "children @ [SubjectTree LeafNode (SubjID i) []]" s] show ?thesis by simp
  next
    case (SubjSet ss)
    let ?rr = "if ss_Relation ss = ''...'' then relation else ss_Relation ss"
    from Cons.prems(2) SubjSet obtain t s1
      where t: "exp ctx (ss_Namespace ss) (ss_Object ss) ?rr (depth - 1) s = Some (Inr t, s1)"
        and rest: "expandTuples exp ctx relation depth tuples
          (children @ (case t of None \<Rightarrow> [] | Some t' \<Rightarrow> [t'])) s1 = Some (Inr cs, s')"
      by (auto simp: Let_def bind_Inr)
    from Cons.IH [OF typed_append [OF exp t Cons.prems(1)] rest] show ?thesis .
  qed
qed simp

lemma typed_node:
  "list_all typed_tree cs \<Longrightarrow> set_node s \<Longrightarrow> ty = UnionNode \<or> ty = IntersectionNode \<Longrightarrow> typed_tree (SubjectTree ty s cs)"
  by (auto simp: set_node_def)

lemma expandChildren_typed:
  assumes child: "\<And>c tree s cs' s'. c \<in> set cs \<Longrightarrow> list_all typed_tree (tree_Children tree) \<Longrightarrow> set_node (tree_Subject tree) \<Longrightarrow>
      expandChild lister exp ctx c tree ns obj rel depth s = Some (Inr cs', s') \<Longrightarrow> list_all typed_tree cs'"
  shows "list_all typed_tree (tree_Children tree) \<Longrightarrow> set_node (tree_Subject tree) \<Longrightarrow>
     expandChildren lister exp ctx cs tree ns obj rel depth s = Some (Inr t, s') \<Longrightarrow>
     list_all typed_tree (tree_Children t) \<and> tree_Type t = tree_Type tree \<and> tree_Subject t = tree_Subject tree"
  using child
proof (induction cs arbitrary: tree s)
  case (Cons c cs)
  from Cons.prems(3) obtain cs' s1 where c: "expandChild lister exp ctx c tree ns obj rel depth s = Some (Inr cs', s1)"
    and rest: "expandChildren lister exp ctx cs (SubjectTree (tree_Type tree) (tree_Subject tree) cs') ns obj rel depth s1
      = Some (Inr t, s')"
    by (auto simp: bind_Inr)
  have cs': "list_all typed_tree cs'" by (rule Cons.prems(4) [OF _ Cons.prems(1,2) c]) simp
  have "list_all typed_tree (tree_Children t) \<and> tree_Type t = tree_Type (SubjectTree (tree_Type tree) (tree_Subject tree) cs')
      \<and> tree_Subject t = tree_Subject (SubjectTree (tree_Type tree) (tree_Subject tree) cs')"
  proof (rule Cons.IH [OF _ _ rest])
    show "list_all typed_tree bs" if "d \<in> set cs" "list_all typed_tree (tree_Children tr)" "set_node (tree_Subject tr)"
      "expandChild lister exp ctx d tr ns obj rel depth r = Some (Inr bs, r')" for d tr r bs r'
      by (rule Cons.prems(4) [OF _ that(2-4)]) (use that(1) in simp)
  qed (use cs' Cons.prems(2) in simp_all)
  then show ?case by simp
qed simp

lemma expandWithRewrite_typed:
  assumes exp: "typed_expand exp"
  shows "complete_rewrite rw \<Longrightarrow> list_all typed_tree (tree_Children tree) \<Longrightarrow> set_node (tree_Subject tree) \<Longrightarrow>
      expandWithRewrite lister exp ctx rw tree ns obj rel depth s = Some (Inr t, s') \<Longrightarrow>
      typed_tree t \<and> tree_Subject t = tree_Subject tree"
    and "complete_child c \<Longrightarrow> list_all typed_tree (tree_Children tree') \<Longrightarrow> set_node (tree_Subject tree') \<Longrightarrow>
      expandChild lister exp ctx c tree' ns obj rel depth s1 = Some (Inr cs, s1') \<Longrightarrow> list_all typed_tree cs"
proof (induction rw and c arbitrary: tree s t s' and tree' s1 cs s1')
  case (Rewrite_Union cs)
  let ?tree = "SubjectTree UnionNode (tree_Subject tree) (tree_Children tree)"
  have "list_all typed_tree (tree_Children t) \<and> tree_Type t = tree_Type ?tree \<and> tree_Subject t = tree_Subject ?tree"
    by (rule expandChildren_typed [of cs lister exp ctx ns obj rel depth ?tree s])
      (use Rewrite_Union in \<open>auto simp: list_all_iff\<close>)
  with Rewrite_Union.prems(3) show ?case by (cases t) (auto intro: typed_node)
next
  case (Rewrite_Intersection cs)
  let ?tree = "SubjectTree IntersectionNode (tree_Subject tree) (tree_Children tree)"
  have "list_all typed_tree (tree_Children t) \<and> tree_Type t = tree_Type ?tree \<and> tree_Subject t = tree_Subject ?tree"
    by (rule expandChildren_typed [of cs lister exp ctx ns obj rel depth ?tree s])
      (use Rewrite_Intersection in \<open>auto simp: list_all_iff\<close>)
  with Rewrite_Intersection.prems(3) show ?case by (cases t) (auto intro: typed_node)
next
  case (Child_ComputedSubjectset r)
  then obtain t where "exp ctx ns obj r (depth - 1) s1 = Some (Inr t, s1')"
    "cs = tree_Children tree' @ (case t of None \<Rightarrow> [] | Some t' \<Rightarrow> [t'])"
    by (auto simp: bind_Inr)
  then show ?case using typed_append [OF exp] Child_ComputedSubjectset.prems(2) by blast
next
  case (Child_Rewrite rw)
  from Child_Rewrite.prems(4) obtain t where
    t: "expandWithRewrite lister exp ctx rw (SubjectTree '''' (tree_Subject tree') []) ns obj rel depth s1 = Some (Inr t, s1')"
    and cs: "cs = tree_Children tree' @ [t]"
    by (auto simp: bind_Inr)
  have "typed_tree t" using Child_Rewrite.IH [OF _ _ _ t] Child_Rewrite.prems(1,3) by simp
  with cs Child_Rewrite.prems(2) show ?case by simp
qed (auto simp: bind_Inr Let_def intro: expandTuples_typed [OF exp])

lemma expand_typed:
  assumes "complete_configs peers"
  shows "typed_expand (expand peers lister k)"
proof (induction k)
  case (Suc k)
  show ?case unfolding typed_expand_def
  proof (intro allI impI)
    fix ctx ns obj rel d s t s'
    let ?tree = "SubjectTree '''' (SubjSet \<lparr>ss_Namespace = ns, ss_Object = obj, ss_Relation = rel\<rparr>) []"
    assume "expand peers lister (Suc k) ctx ns obj rel d s = Some (Inr (Some t), s')"
    then obtain snap rw where snap: "chooseNamespaceConfigSnapshot peers ns = Inr snap"
      and rw: "rewriteFromNamespaceConfig rel (snap_Config snap) = Some rw"
      and run: "expandWithRewrite lister (expand peers lister k)
        (NewContextWithNamespaceConfigTimestamp ctx ns (snap_Timestamp snap)) rw ?tree ns obj rel d s = Some (Inr t, s')"
      by (auto simp: expand_body_def Let_def bind_Inr split: sum.splits option.splits)
    have "complete_rewrite rw" using assms snap rw unfolding complete_configs_def by blast
    from expandWithRewrite_typed(1) [OF Suc this _ _ run]
    show "typed_tree t \<and> tree_Subject t = SubjSet \<lparr>ss_Namespace = ns, ss_Object = obj, ss_Relation = rel\<rparr>"
      by (simp add: set_node_def)
  qed
qed (simp add: typed_expand_def)

end
