(* ===== verification/Expand_Properties.thy ===== *)
theory Expand_Properties
  imports Check_Properties Expand_Types
begin

section \<open>Expansions over the SQL store\<close>

text \<open>
  The statements about \<open>Expand\<close> as a client sees it: the handler over the SQL store, against the
  relation that the stored tuples and the rewrite rules define. They rest on the interpretation
  \<open>sql_lister\<close> of the store interface in \<open>Sql_Store\<close>.
\<close>

subsection \<open>The handler on the SQL store\<close>

text \<open>The \<open>expand\<close> of a node, on a database session in which results arrive in full.\<close>

definition sql_expand :: "sql_env \<Rightarrow> 'r AccessController \<Rightarrow> nat \<Rightarrow> world expand_fun" where
  "sql_expand E a k = expand (PeerStore a) (\<lambda>ctx. store_ListRelationTuples (E\<lparr>cut := \<lambda>_. None\<rparr>)) k"

definition subject_set :: "string \<Rightarrow> string \<Rightarrow> string \<Rightarrow> pb_SubjectSet" where
  "subject_set ns obj rel = \<lparr>pbss_Namespace = ns, pbss_Object = obj, pbss_Relation = rel\<rparr>"

lemma Expand_Inr:
  assumes "Expand exp ctx (Some (subject_set ns obj rel)) s = Some (Inr p, s')"
  obtains t where "exp ctx ns obj rel 12 s = Some (Inr t, s')" "p = SubjectTree_ToProto_ptr t" "obj \<noteq> ''''"
  using assms by (auto simp: Expand_def subject_set_def bind_Inr split: if_splits)

definition response_has :: "string \<Rightarrow> pb_SubjectTree option \<Rightarrow> bool" where
  "response_has u p \<longleftrightarrow> (case p of None \<Rightarrow> False | Some t \<Rightarrow> pb_tree_has u t)"

lemma response_has_ToProto: "response_has u (SubjectTree_ToProto_ptr t) \<longleftrightarrow> (\<exists>t'. t = Some t' \<and> tree_has u t')"
  by (cases t) (simp_all add: response_has_def SubjectTree_ToProto_ptr_def pb_tree_has_ToProto)

lemma Expand_exact:
  assumes A: "faithful_rules (db_acl R d)" "expands_rules (PeerStore a) (db_acl R d)" "tidy_sets (db_acl R d)"
    and u: "CHR ''#'' \<notin> set u" and w: "w_db w = d"
    and run: "Expand (sql_expand E a k) ctx (Some (subject_set ns obj rel)) w = Some (Inr p, w')"
  shows "response_has u p \<longleftrightarrow> related (db_acl R d) u ns obj rel"
proof -
  obtain t where t: "sql_expand E a k ctx ns obj rel 12 w = Some (Inr t, w')" "p = SubjectTree_ToProto_ptr t" "obj \<noteq> ''''"
    by (rule Expand_Inr [OF run])
  have "sql_lister.shows_goal R d u (ns, obj, rel) t"
    using sql_lister.exactD [OF sql_lister.expand_exact [OF A u] t(1) [unfolded sql_expand_def] t(3) w] by blast
  then show ?thesis unfolding t(2) response_has_ToProto sql_lister.shows_goal_def by simp
qed

subsection \<open>Tuples that can be listed\<close>

definition listable :: "db \<Rightarrow> string \<Rightarrow> bool" where
  "listable d ns \<longleftrightarrow> tbl_tuples d ns \<noteq> None \<and> (\<forall>r \<in> set (rows_of d ns). is_ok (SubjectFromString (row_subject r)))"

lemma scanTuples_ok: "\<forall>r \<in> set rows. is_ok (SubjectFromString (row_subject r)) \<Longrightarrow> \<exists>ts. scanTuples ns rows = Inr ts"
  by (induction rows) (auto elim!: is_okE)

lemma store_List_ok:
  assumes "listable (w_db w) (lq_Namespace q)" "faultless E" "lq_Subject q = None"
  shows "\<exists>ts w'. store_ListRelationTuples (E\<lparr>cut := \<lambda>_. None\<rparr>) q w = (Inr ts, w')"
proof -
  obtain rows where rows: "tbl_tuples (w_db w) (lq_Namespace q) = Some rows" using assms(1) by (auto simp: listable_def)
  let ?P = "\<lambda>r. (lq_Object q \<noteq> '''' \<longrightarrow> row_object r = lq_Object q)
    \<and> (lq_Relations q \<noteq> [] \<longrightarrow> row_relation r \<in> set (lq_Relations q))"
  obtain ts where "scanTuples (lq_Namespace q) (filter ?P rows) = Inr ts"
    using scanTuples_ok [of "filter ?P rows"] assms(1) rows by (auto simp: listable_def rows_of_def)
  then show ?thesis using assms(2,3) rows
    by (simp add: store_ListRelationTuples_def scan_def db_Query_def select_rows_def faultless_def)
qed

lemma Expand_ends:
  assumes A: "faithful_rules (db_acl R d)" "expands_rules (PeerStore a) (db_acl R d)" "tidy_sets (db_acl R d)"
    and G: "ranked_expansion (db_acl R d) (listable d) (PeerStore a) G rank" and E: "faultless E"
    and g: "(ns, obj, rel) \<in> G" "rank (ns, obj, rel) \<le> k" "ns \<noteq> ''''" "rel \<noteq> ''''" and w: "w_db w = d"
  shows "\<exists>p w'. Expand (sql_expand E a (Suc k)) ctx (Some (subject_set ns obj rel)) w = Some (Inr p, w')"
proof -
  have "sql_lister.lists_ok E d ns" if "listable d ns" for ns
    using store_List_ok [of _ _ E] that E unfolding sql_lister.lists_ok_def by simp
  from sql_lister.expand_ends [OF A G this]
  have "sql_lister.ends_on d (sql_expand E a (Suc k)) {g \<in> G. rank g \<le> k}"
    unfolding sql_expand_def .
  from sql_lister.ends_onD [OF this, of ns obj rel w ctx 12] g w
  obtain t w' where t: "sql_expand E a (Suc k) ctx ns obj rel 12 w = Some (Inr t, w')" by blast
  have "obj \<noteq> ''''" using G g(1) unfolding ranked_expansion_def by auto
  with g(3,4) t show ?thesis by (simp add: Expand_def subject_set_def bind_def returns_def)
qed

subsection \<open>The example cluster\<close>

lemma team_faithful: "faithful_rules (db_acl team_rules d)"
  by (auto simp: faithful_rules_def db_acl_def team_rules_def rewriteFromNamespaceConfig_def cfg_pages_def cfg_group_def
      GetRelations_def this_rewrite_def split: if_splits)

lemma team_expands: "expands_rules (PeerStore (team_node i)) (db_acl team_rules d)"
  by (auto simp: expands_rules_def db_acl_def team_rules_def team_node_def team_store_def store_eval
      chooseNamespaceConfigSnapshot_def ListNamespaceConfigSnapshots_def commonTimestamps_def selectTS_def
      time_Equal_def time_After_def zero_time_def split: if_splits)

lemma team_tidy: "tidy_sets (db_acl R team_db)"
proof -
  have "wf_SubjectSet eng" "SubjectSet_String eng = ''group:eng#member''"
    by (simp_all add: eng_def wf_SubjectSet_def SubjectSet_String_def)
  then have "SubjectSet_String ss = ''group:eng#member'' \<longleftrightarrow> ss = eng" if "wf_SubjectSet ss" for ss
    using SubjectSet_String_inject [OF that, of eng] by metis
  moreover have "SubjectSet_String ss \<noteq> ''alice''" for ss
  proof
    assume "SubjectSet_String ss = ''alice''"
    with hash_in_SubjectSet_String [of ss] have "CHR ''#'' \<in> set ''alice''" by metis
    then show False by simp
  qed
  ultimately show ?thesis
    by (auto simp: tidy_sets_def db_acl_def rows_of_def team_db_def named_SubjectSet_def eng_def split: if_splits)
qed

lemma team_choice: "is_ok (chooseNamespaceConfigSnapshot (PeerStore (team_node i)) ''pages'')"
  "is_ok (chooseNamespaceConfigSnapshot (PeerStore (team_node i)) ''group'')"
  by (simp_all add: team_node_def team_store_def store_eval chooseNamespaceConfigSnapshot_def
      ListNamespaceConfigSnapshots_def commonTimestamps_def selectTS_def time_Equal_def time_After_def zero_time_def)

lemma team_listable: "listable team_db ''pages''" "listable team_db ''group''"
proof -
  have "SubjectFromString ''group:eng#member'' = Inr (SubjSet eng)"
    by (simp add: SubjectFromString_Inr_iff Subject_String_def wf_Subject_def eng_def wf_SubjectSet_def SubjectSet_String_def)
  then show "listable team_db ''pages''" by (simp add: listable_def rows_of_def team_db_def)
  show "listable team_db ''group''" by (simp add: listable_def rows_of_def team_db_def SubjectFromString_cases)
qed

lemma team_ranked_expansion:
  "ranked_expansion (db_acl team_rules team_db) (listable team_db) (PeerStore (team_node i)) team_goals team_rank"
  unfolding ranked_expansion_def team_goals_def
  by (simp add: team_choice team_listable team_acl team_rules_eval team_rank_def eng_def)

lemma team_Expand:
  "\<exists>p w'. Expand (sql_expand (plain_env []) (team_node i) 2) context_Background
      (Some (subject_set ''pages'' ''readme'' ''viewer'')) (session team_db) = Some (Inr p, w')"
proof -
  have "\<exists>p w'. Expand (sql_expand (plain_env []) (team_node i) (Suc 1)) context_Background
      (Some (subject_set ''pages'' ''readme'' ''viewer'')) (session team_db) = Some (Inr p, w')"
    by (rule Expand_ends [OF team_faithful team_expands team_tidy team_ranked_expansion])
      (simp_all add: team_goals_def team_rank_def faultless_def plain_env_def session_def)
  then show ?thesis by (simp add: numeral_2_eq_2)
qed

subsection \<open>Properties\<close>



text \<open>C17: \<open>Expand\<close> and \<open>Check\<close> agree. On any node of a cluster, a subject id is in the tree that an
  expansion returns exactly if a check of it (on any node, forwarded or not) answers that it is
  allowed, for faithfully expanded rules and tuples.\<close>

theorem expand_agrees_with_check:
  assumes "faithful_rules (db_acl R d)" "expands_rules (PeerStore a) (db_acl R d)" "tidy_sets (db_acl R d)"
    and "CHR ''#'' \<notin> set u" "w_db w = d"
    and "Expand (sql_expand E a k) ctx (Some (subject_set ns obj rel)) w = Some (Inr p, w')"
    and "cl_store C = sql_tuple_store (whole_results Es) d" "wire_drops_values C" "same_rules C (db_acl R d)"
    and "b \<in> cl_nodes C" "ctx_values ctx' = []"
    and "Inr allowed \<in> set (Check (check C j b) ctx' (check_request ns obj rel u))"
  shows "response_has u p \<longleftrightarrow> allowed"
proof -
  have "Inr allowed \<in> set (check C j b ctx' ns obj rel u)"
    using assms(12) by (auto simp: Check_def check_request_def SubjectID_ToProto_def SubjectFromProto_def GetRef_def
        Subject_String_def SubjectID_String_def split: if_splits)
  from sql_reader.check_decides [OF assms(7-10) _ this] assms(11)
  have "allowed = related (db_acl R d) u ns obj rel" by simp
  with Expand_exact [OF assms(1-6)] show ?thesis by simp
qed

text \<open>C20: an expansion ends with a tree: on goals that are ranked (every nested expansion has a lower
  rank), in namespaces with a configuration and readable tuples and without database faults, \<open>Expand\<close>
  returns a response once the fuel is above the rank.\<close>

theorem expand_complete:
  assumes "faithful_rules (db_acl R d)" "expands_rules (PeerStore a) (db_acl R d)" "tidy_sets (db_acl R d)"
    and "ranked_expansion (db_acl R d) (listable d) (PeerStore a) G rank" "faultless E"
    and "(ns, obj, rel) \<in> G" "rank (ns, obj, rel) \<le> k" "ns \<noteq> ''''" "rel \<noteq> ''''" "w_db w = d"
  shows "\<exists>p w'. Expand (sql_expand E a (Suc k)) ctx (Some (subject_set ns obj rel)) w = Some (Inr p, w')"
  by (rule Expand_ends [OF assms])

theorem expand_complete_witness:
  "\<exists>p w'. Expand (sql_expand (plain_env []) (team_node ''n1'') (Suc 1)) context_Background
      (Some (subject_set ''pages'' ''readme'' ''viewer'')) (session team_db) = Some (Inr p, w')"
  by (rule expand_complete [OF team_faithful team_expands team_tidy team_ranked_expansion])
    (simp_all add: team_goals_def team_rank_def faultless_def plain_env_def session_def)

text \<open>C19: every response is well typed: whatever the tuple store answers, the tree of a successful \<open>Expand\<close>
  reads back from its protobuf form as a tree for the requested subject set whose leaves are exactly
  its subject ids, and whose inner nodes are unions and intersections that carry subject sets, as
  long as no rewrite in the configurations lacks its operation.\<close>

theorem expand_tree_typed:
  assumes "complete_configs peers"
    and "Expand (expand peers lister k) ctx (Some (subject_set ns obj rel)) s = Some (Inr (Some p), s')"
  shows "\<exists>t. tree_of_proto p = Some t \<and> typed_tree t
    \<and> tree_Subject t = SubjSet \<lparr>ss_Namespace = ns, ss_Object = obj, ss_Relation = rel\<rparr>"
proof (rule Expand_Inr [OF assms(2)])
  fix t
  assume run: "expand peers lister k ctx ns obj rel 12 s = Some (Inr t, s')" and "Some p = SubjectTree_ToProto_ptr t"
  then obtain t' where t: "t = Some t'" "p = SubjectTree_ToProto t'"
    by (cases t) (auto simp: SubjectTree_ToProto_ptr_def)
  with expand_typed [OF assms(1), of lister k] run have typed: "typed_tree t'"
    "tree_Subject t' = SubjSet \<lparr>ss_Namespace = ns, ss_Object = obj, ss_Relation = rel\<rparr>"
    unfolding typed_expand_def by blast+
  with tree_of_proto_ToProto [OF typed_wf] t(2) show ?thesis by blast
qed

lemma team_complete: "complete_configs (PeerStore (team_node i))"
proof -
  have "complete_rewrite rw" if "team_rules ns rel = Some rw" for ns rel rw
    using that by (auto simp: team_rules_def rewriteFromNamespaceConfig_def GetRelations_def cfg_pages_def cfg_group_def
        this_rewrite_def split: if_splits)
  then show ?thesis
    using team_expands [of i team_db] unfolding complete_configs_def expands_rules_def by (simp add: db_acl_def)
qed

theorem expand_tree_typed_witness:
  "\<exists>p w' t. Expand (sql_expand (plain_env []) (team_node ''n1'') 2) context_Background
      (Some (subject_set ''pages'' ''readme'' ''viewer'')) (session team_db) = Some (Inr (Some p), w')
    \<and> tree_of_proto p = Some t \<and> typed_tree t"
proof -
  obtain p w' where run: "Expand (sql_expand (plain_env []) (team_node ''n1'') 2) context_Background
      (Some (subject_set ''pages'' ''readme'' ''viewer'')) (session team_db) = Some (Inr p, w')"
    using team_Expand by blast
  have "response_has ''alice'' p"
    using Expand_exact [OF team_faithful team_expands team_tidy _ _ run, of "''alice''"] alice_related
    by (simp add: session_def)
  then obtain q where q: "p = Some q" by (cases p) (auto simp: response_has_def)
  from expand_tree_typed [OF team_complete run [unfolded q sql_expand_def]] run q show ?thesis by blast
qed

text \<open>C22: the depth does not limit an expansion: whatever depth it is called with, the result is the
  same, although the handler passes 12 and every nested call passes one less.\<close>

theorem expand_depth_irrelevant:
  "expand peers lister k ctx ns obj rel depth s = expand peers lister k ctx ns obj rel depth' s"
proof -
  have "expand peers lister k ctx ns obj rel depth = expand peers lister k ctx ns obj rel depth'"
    using ignores_depth_expand [of peers lister k] unfolding ignores_depth_def by blast
  then show ?thesis by simp
qed

text \<open>C21: an expansion of a relation that has itself as its only subject set never returns, whatever the
  fuel: neither the depth nor anything else stops it.\<close>

theorem expand_cycle_diverges:
  assumes "chooseNamespaceConfigSnapshot peers ns = Inr snap"
    and "rewriteFromNamespaceConfig rel (snap_Config snap) = Some this_rewrite"
    and "\<forall>ctx s. ok s \<longrightarrow> (\<exists>s'. lister ctx \<lparr>lq_Namespace = ns, lq_Object = obj, lq_Relations = [rel], lq_Subject = None\<rparr> s =
      (Inr [\<lparr>irt_Namespace = ns, irt_Object = obj, irt_Relation = rel,
             irt_Subject = SubjSet \<lparr>ss_Namespace = ns, ss_Object = obj, ss_Relation = rel\<rparr>\<rparr>], s') \<and> ok s')"
    and "ok s"
  shows "expand peers lister k ctx ns obj rel depth s = None"
  using assms(4)
proof (induction k arbitrary: ctx depth s)
  case (Suc k)
  obtain s' where s': "lister (NewContextWithNamespaceConfigTimestamp ctx ns (snap_Timestamp snap))
      \<lparr>lq_Namespace = ns, lq_Object = obj, lq_Relations = [rel], lq_Subject = None\<rparr> s = (Inr
      [\<lparr>irt_Namespace = ns, irt_Object = obj, irt_Relation = rel,
        irt_Subject = SubjSet \<lparr>ss_Namespace = ns, ss_Object = obj, ss_Relation = rel\<rparr>\<rparr>], s')" "ok s'"
    using assms(3) Suc.prems by blast
  have "expandTuples (expand peers lister k) (NewContextWithNamespaceConfigTimestamp ctx ns (snap_Timestamp snap)) rel depth
      [\<lparr>irt_Namespace = ns, irt_Object = obj, irt_Relation = rel,
        irt_Subject = SubjSet \<lparr>ss_Namespace = ns, ss_Object = obj, ss_Relation = rel\<rparr>\<rparr>] [] s' = None"
    unfolding expandTuples.simps InternalRelationTuple.simps Subject.case SubjectSet.simps if_cancel Let_def bind_None
    using Suc.IH [OF s'(2)] by blast
  with s'(1) assms(1,2) show ?case
    by (simp add: expand_body_def this_rewrite_def Let_def bind_def listTuples_def del: expandTuples.simps)
qed simp

lemma loop_list:
  "w_db w = loop_db \<Longrightarrow> fst (store_ListRelationTuples ((plain_env [])\<lparr>cut := \<lambda>_. None\<rparr>)
     \<lparr>lq_Namespace = ''pages'', lq_Object = ''x'', lq_Relations = [''editor''], lq_Subject = None\<rparr> w) =
   Inr [\<lparr>irt_Namespace = ''pages'', irt_Object = ''x'', irt_Relation = ''editor'',
         irt_Subject = SubjSet \<lparr>ss_Namespace = ''pages'', ss_Object = ''x'', ss_Relation = ''editor''\<rparr>\<rparr>]"
proof -
  assume w: "w_db w = loop_db"
  have "SubjectFromString ''pages:x#editor'' = Inr (SubjSet \<lparr>ss_Namespace = ''pages'', ss_Object = ''x'', ss_Relation = ''editor''\<rparr>)"
    by (simp add: SubjectFromString_Inr_iff Subject_String_def wf_Subject_def wf_SubjectSet_def SubjectSet_String_def)
  then show ?thesis
    by (simp add: store_ListRelationTuples_def scan_def db_Query_def plain_env_def w loop_db_def select_rows_def)
qed

theorem expand_cycle_diverges_witness:
  "sql_expand (plain_env []) (team_node ''n1'') 1000 context_Background ''pages'' ''x'' ''editor'' 12 (session loop_db) = None"
  unfolding sql_expand_def
proof (rule expand_cycle_diverges [where ok = "\<lambda>w. w_db w = loop_db"])
  let ?q = "\<lparr>lq_Namespace = ''pages'', lq_Object = ''x'', lq_Relations = [''editor''], lq_Subject = None\<rparr>"
  obtain snap where snap: "chooseNamespaceConfigSnapshot (PeerStore (team_node ''n1'')) ''pages'' = Inr snap"
    using team_choice(1) by (rule is_okE)
  then show "chooseNamespaceConfigSnapshot (PeerStore (team_node ''n1'')) ''pages'' =
      Inr (projr (chooseNamespaceConfigSnapshot (PeerStore (team_node ''n1'')) ''pages''))" by simp
  from snap team_expands [of "''n1''" team_db]
  show "rewriteFromNamespaceConfig ''editor'' (snap_Config (projr (chooseNamespaceConfigSnapshot (PeerStore (team_node ''n1'')) ''pages'')))
      = Some this_rewrite"
    by (simp add: expands_rules_def team_acl team_rules_eval this_rewrite_def)
  show "\<forall>ctx w. w_db w = loop_db \<longrightarrow> (\<exists>w'. store_ListRelationTuples ((plain_env [])\<lparr>cut := \<lambda>_. None\<rparr>) ?q w =
      (Inr [\<lparr>irt_Namespace = ''pages'', irt_Object = ''x'', irt_Relation = ''editor'',
         irt_Subject = SubjSet \<lparr>ss_Namespace = ''pages'', ss_Object = ''x'', ss_Relation = ''editor''\<rparr>\<rparr>], w') \<and> w_db w' = loop_db)"
  proof (intro allI impI)
    fix w :: world
    assume w: "w_db w = loop_db"
    obtain r w' where run: "store_ListRelationTuples ((plain_env [])\<lparr>cut := \<lambda>_. None\<rparr>) ?q w = (r, w')" by fastforce
    show "\<exists>w'. store_ListRelationTuples ((plain_env [])\<lparr>cut := \<lambda>_. None\<rparr>) ?q w =
      (Inr [\<lparr>irt_Namespace = ''pages'', irt_Object = ''x'', irt_Relation = ''editor'',
         irt_Subject = SubjSet \<lparr>ss_Namespace = ''pages'', ss_Object = ''x'', ss_Relation = ''editor''\<rparr>\<rparr>], w') \<and> w_db w' = loop_db"
      using run loop_list [OF w] store_List_db [OF run] w by simp
  qed
qed (simp add: session_def)

theorem expand_agrees_with_check_witness:
  "\<exists>p w'. Expand (sql_expand (plain_env []) (team_node ''n1'') 2) context_Background
      (Some (subject_set ''pages'' ''readme'' ''viewer'')) (session team_db) = Some (Inr p, w')
    \<and> response_has ''alice'' p"
proof -
  let ?C = "team (whole_results [plain_env []])"
  obtain p w' where run: "Expand (sql_expand (plain_env []) (team_node ''n1'') 2) context_Background
      (Some (subject_set ''pages'' ''readme'' ''viewer'')) (session team_db) = Some (Inr p, w')"
    using team_Expand by blast
  have "set (check ?C 4 (team_node ''n1'') context_Background ''pages'' ''readme'' ''viewer'' ''alice'') = {Inr True}"
    by (rule team_check_alice)
  then have out: "Inr True \<in> set (Check (check ?C 4 (team_node ''n1'')) context_Background
      (check_request ''pages'' ''readme'' ''viewer'' ''alice''))"
    by (simp add: Check_def check_request_def SubjectID_ToProto_def SubjectFromProto_def GetRef_def Subject_String_def SubjectID_String_def)
  have "response_has ''alice'' p \<longleftrightarrow> True"
    by (rule expand_agrees_with_check [OF team_faithful team_expands team_tidy _ _ run _ _ _ _ _ out, where Es = "[plain_env []]"])
      (simp_all add: session_def team_nodes context_Background_def)
  with run show ?thesis by blast
qed

subsection \<open>An intersection that is not expanded faithfully\<close>

text \<open>
  Viewers are the stored ones who are editors too. The two stored viewers become leaves of the
  intersection node itself, beside the tree of the editors, and the tree denotes nobody.
\<close>

definition cfg_both :: NamespaceConfig where
  "cfg_both = \<lparr>cfg_Name = ''docs'', cfg_Relations =
     [\<lparr>rel_Name = ''viewer'', rel_Rewrite = Some (Rewrite_Intersection [Child_This, Child_ComputedSubjectset ''editor''])\<rparr>,
      \<lparr>rel_Name = ''editor'', rel_Rewrite = None\<rparr>]\<rparr>"

definition both_lister :: "unit list_fun" where
  "both_lister ctx q s = (Inr (map (\<lambda>i. \<lparr>irt_Namespace = lq_Namespace q, irt_Object = lq_Object q,
     irt_Relation = hd (lq_Relations q), irt_Subject = SubjID \<lparr>ID = i\<rparr>\<rparr>) [''alice'', ''bob'']), s)"

definition both_acl :: acl where
  "both_acl = \<lparr>acl_rules = (\<lambda>ns rel. rewriteFromNamespaceConfig rel (Some cfg_both)),
     acl_direct = (\<lambda>ns obj rel. {''alice'', ''bob''}), acl_sets = (\<lambda>ns obj rel. {})\<rparr>"

lemma both_rules:
  "rewriteFromNamespaceConfig ''viewer'' (Some cfg_both) = Some (Rewrite_Intersection [Child_This, Child_ComputedSubjectset ''editor''])"
  "rewriteFromNamespaceConfig ''editor'' (Some cfg_both) = Some (Rewrite_Union [Child_This])"
  by (simp_all add: rewriteFromNamespaceConfig_def GetRelations_def cfg_both_def this_rewrite_def)

lemma both_related: "related both_acl ''alice'' ns obj ''viewer''"
proof -
  have "related both_acl ''alice'' ns obj ''editor''"
    by (rule by_rule [where rw = "Rewrite_Union [Child_This]"]) (simp_all add: both_acl_def both_rules)
  then show ?thesis
    by (intro by_rule [where rw = "Rewrite_Intersection [Child_This, Child_ComputedSubjectset ''editor'']"])
      (simp_all add: both_acl_def both_rules)
qed

lemma expand_flattens_intersection:
  "\<exists>t. expand (store_of [(''n1'', ''docs'', cfg_both, utc 1)]) both_lister 2 ctx ''docs'' ''a'' ''viewer'' 12 () =
     Some (Inr (Some t), ()) \<and> \<not> tree_has ''alice'' t \<and> related both_acl ''alice'' ''docs'' ''a'' ''viewer''"
proof -
  let ?p = "store_of [(''n1'', ''docs'', cfg_both, utc 1)]"
  have choose: "chooseNamespaceConfigSnapshot ?p ''docs'' = Inr \<lparr>snap_Config = Some cfg_both, snap_Timestamp = utc 1\<rparr>"
    by (simp add: store_eval chooseNamespaceConfigSnapshot_def ListNamespaceConfigSnapshots_def selectTS_def
        time_After_def zero_time_def MaxInt32_def)
  have "expand ?p both_lister (Suc k) ctx ''docs'' ''a'' ''editor'' d () = Some (Inr (Some (SubjectTree UnionNode
      (SubjSet \<lparr>ss_Namespace = ''docs'', ss_Object = ''a'', ss_Relation = ''editor''\<rparr>)
      [SubjectTree LeafNode (SubjID \<lparr>ID = ''alice''\<rparr>) [], SubjectTree LeafNode (SubjID \<lparr>ID = ''bob''\<rparr>) []])), ())" for k ctx d
    by (simp add: expand_body_def choose both_rules bind_def returns_def listTuples_def both_lister_def)
  from this [of 0]
  have "expand ?p both_lister 2 ctx ''docs'' ''a'' ''viewer'' 12 () = Some (Inr (Some (SubjectTree IntersectionNode
      (SubjSet \<lparr>ss_Namespace = ''docs'', ss_Object = ''a'', ss_Relation = ''viewer''\<rparr>)
      [SubjectTree LeafNode (SubjID \<lparr>ID = ''alice''\<rparr>) [], SubjectTree LeafNode (SubjID \<lparr>ID = ''bob''\<rparr>) [],
       SubjectTree UnionNode (SubjSet \<lparr>ss_Namespace = ''docs'', ss_Object = ''a'', ss_Relation = ''editor''\<rparr>)
         [SubjectTree LeafNode (SubjID \<lparr>ID = ''alice''\<rparr>) [], SubjectTree LeafNode (SubjID \<lparr>ID = ''bob''\<rparr>) []]])), ())"
    by (simp add: numeral_2_eq_2 expand_body_def choose both_rules bind_def returns_def listTuples_def both_lister_def)
  then show ?thesis using both_related by simp
qed

end
