(* ===== verification/Namespace_Manager.thy ===== *)
theory Namespace_Manager
  imports Sql_Store "HOL-Library.Product_Lexorder"
begin

section \<open>The namespace manager (\<open>internal/namespace-manager/postgres/manager.go\<close>)\<close>

text \<open>
  Namespace configurations are rows of \<open>namespace-configs\<close>, one per version; every change is also
  logged in \<open>namespace-changelog\<close>. The methods run in the transaction their context carries, if it
  carries one (type \<open>txn option\<close>, returned updated), and otherwise in one of their own.
\<close>

subsection \<open>Transactions\<close>

text \<open>
  \<open>withTransaction\<close>: its own transaction is committed by a deferred function that assigns the error
  of the commit to a local variable, after the result has been evaluated; so the commit also runs
  when \<open>fn\<close> fails, and its error is dropped.
\<close>

definition withTransaction ::
  "sql_env \<Rightarrow> (txn \<Rightarrow> 'a result \<times> txn) \<Rightarrow> txn option \<Rightarrow> world \<Rightarrow> 'a result \<times> txn option \<times> world" where
  "withTransaction E fn ctx w =
     (case ctx of
        Some t \<Rightarrow> (case fn t of (r, t') \<Rightarrow> (r, Some t', w))
      | None \<Rightarrow>
          (case db_Begin E w of
             (Inl err, w1) \<Rightarrow> (Inl err, None, w1)
           | (Inr t, w1) \<Rightarrow> (case fn t of (r, t') \<Rightarrow> (r, None, snd (txn_Commit E t' w1)))))"

text \<open>
  \<open>WrapTransaction\<close>: on an error of \<open>fn\<close> or of the commit the transaction is rolled back, and the
  error is returned.
\<close>

definition WrapTransaction ::
  "sql_env \<Rightarrow> (txn \<Rightarrow> unit result \<times> txn) \<Rightarrow> world \<Rightarrow> unit result \<times> world" where
  "WrapTransaction E fn w =
     (case db_Begin E w of
        (Inl err, w1) \<Rightarrow> (Inl err, w1)
      | (Inr t, w1) \<Rightarrow>
          (case fn t of
             (Inl err, t') \<Rightarrow> (Inl err, snd (txn_Rollback E t' w1))
           | (Inr _, t') \<Rightarrow>
               (case txn_Commit E t' w1 of
                  (Inl err, w2) \<Rightarrow> (Inl err, snd (txn_Rollback E (t'\<lparr>t_tick := w_tick w2\<rparr>) w2))
                | (Inr _, w2) \<Rightarrow> (Inr (), w2))))"

subsection \<open>Statements\<close>

definition stmt_count_configs :: "string \<Rightarrow> nat stmt" where
  "stmt_count_configs ns now d = Inr (length (filter (\<lambda>r. cfgrow_namespace r = ns) (tbl_configs d)), d)"

definition stmt_create_table :: "sql_env \<Rightarrow> string \<Rightarrow> unit stmt" where
  "stmt_create_table E name now d =
     (case ddl_table E name of
        None \<Rightarrow> Inl syntaxError
      | Some tbl \<Rightarrow> Inr ((), if tbl_tuples d tbl = None then d\<lparr>tbl_tuples := (tbl_tuples d)(tbl \<mapsto> [])\<rparr> else d))"

definition uniqueViolation :: error where
  "uniqueViolation = ErrLibrary ''duplicate key value violates unique constraint''"

definition stmt_insert_config :: "string \<Rightarrow> string \<Rightarrow> unit stmt" where
  "stmt_insert_config ns json now d =
     (if \<exists>r \<in> set (tbl_configs d). cfgrow_namespace r = ns \<and> cfgrow_timestamp r = now then Inl uniqueViolation
      else Inr ((), d\<lparr>tbl_configs := tbl_configs d @
        [\<lparr>cfgrow_namespace = ns, cfgrow_config = json, cfgrow_timestamp = now\<rparr>]\<rparr>))"

definition stmt_insert_ns_change :: "string \<Rightarrow> string \<Rightarrow> string \<Rightarrow> unit stmt" where
  "stmt_insert_ns_change ns operation json now d =
     (if \<exists>r \<in> set (tbl_ns_changelog d). nscl_namespace r = ns \<and> nscl_operation r = operation \<and> nscl_timestamp r = now
      then Inl uniqueViolation
      else Inr ((), d\<lparr>tbl_ns_changelog := tbl_ns_changelog d @
        [\<lparr>nscl_namespace = ns, nscl_operation = operation, nscl_config = json, nscl_timestamp = now\<rparr>]\<rparr>))"

text \<open>The rows of the latest version of a configuration.\<close>

definition latest_rows :: "string \<Rightarrow> config_row list \<Rightarrow> config_row list" where
  "latest_rows ns rows =
     (let mine = filter (\<lambda>r. cfgrow_namespace r = ns) rows
      in filter (\<lambda>r. list_all (\<lambda>r'. cfgrow_timestamp r' \<le> cfgrow_timestamp r) mine) mine)"

definition stmt_select_latest :: "string \<Rightarrow> string option stmt" where
  "stmt_select_latest ns now d =
     Inr (case latest_rows ns (tbl_configs d) of [] \<Rightarrow> None | r # _ \<Rightarrow> Some (cfgrow_config r), d)"

text \<open>\<open>SELECT relation, COUNT(*) \<dots> WHERE namespace = \<dots> AND relation IN (\<dots>) GROUP BY relation\<close>.\<close>

definition stmt_count_references :: "sql_env \<Rightarrow> string \<Rightarrow> string list \<Rightarrow> (string \<times> nat) list stmt" where
  "stmt_count_references E ns relations now d =
     (case refused_in E relations of
        Some err \<Rightarrow> Inl err
      | None \<Rightarrow> let rows = filter (\<lambda>r. lk_namespace r = ns \<and> lk_relation r \<in> set relations) (tbl_lookup d)
           in Inr (map (\<lambda>rel. (rel, length (filter (\<lambda>r. lk_relation r = rel) rows)))
                (remdups (map lk_relation rows)), d))"

subsection \<open>Configurations\<close>

definition upsertTxn :: "sql_env \<Rightarrow> NamespaceConfig \<Rightarrow> string \<Rightarrow> txn \<Rightarrow> unit result \<times> txn" where
  "upsertTxn E cfg jsonConfig =
     andThen (txn_Exec E (stmt_count_configs (cfg_Name cfg))) (\<lambda>count.
     andThen (if count > 0 then (\<lambda>t. (Inr UpdateNamespace, t))
              else andThen (txn_Exec E (stmt_create_table E (cfg_Name cfg))) (\<lambda>_ t. (Inr AddNamespace, t))) (\<lambda>operation.
     andThen (txn_Exec E (stmt_insert_config (cfg_Name cfg) (jsonb_text E jsonConfig))) (\<lambda>_.
     txn_Exec E (stmt_insert_ns_change (cfg_Name cfg) operation (jsonb_text E jsonConfig)))))"

definition UpsertConfig ::
  "sql_env \<Rightarrow> NamespaceConfig \<Rightarrow> txn option \<Rightarrow> world \<Rightarrow> unit result \<times> txn option \<times> world" where
  "UpsertConfig E cfg ctx w =
     (case pj_Marshal E cfg of
        Inl err \<Rightarrow> (Inl err, ctx, w)
      | Inr jsonConfig \<Rightarrow> withTransaction E (upsertTxn E cfg jsonConfig) ctx w)"

definition getConfigTxn :: "sql_env \<Rightarrow> string \<Rightarrow> txn \<Rightarrow> string result \<times> txn" where
  "getConfigTxn E ns =
     andThen (txn_Exec E (stmt_select_latest ns)) (\<lambda>row t.
       (case row of None \<Rightarrow> Inl ErrNamespaceDoesntExist | Some jsonConfig \<Rightarrow> Inr jsonConfig, t))"

definition GetConfig ::
  "sql_env \<Rightarrow> string \<Rightarrow> txn option \<Rightarrow> world \<Rightarrow> NamespaceConfig result \<times> txn option \<times> world" where
  "GetConfig E ns ctx w =
     (case withTransaction E (getConfigTxn E ns) ctx w of
        (Inl err, ctx', w') \<Rightarrow> (Inl err, ctx', w')
      | (Inr jsonConfig, ctx', w') \<Rightarrow> (pj_Unmarshal E jsonConfig, ctx', w'))"

definition manager_GetRewrite ::
  "sql_env \<Rightarrow> string \<Rightarrow> string \<Rightarrow> txn option \<Rightarrow> world \<Rightarrow> Rewrite option result \<times> txn option \<times> world" where
  "manager_GetRewrite E ns relation ctx w =
     (case GetConfig E ns ctx w of
        (Inl err, ctx', w') \<Rightarrow> (Inl err, ctx', w')
      | (Inr cfg, ctx', w') \<Rightarrow> (Inr (rewriteFromRelations relation (cfg_Relations cfg)), ctx', w'))"

definition lookupTxn :: "sql_env \<Rightarrow> string \<Rightarrow> string list \<Rightarrow> txn \<Rightarrow> (string, nat) gomap result \<times> txn" where
  "lookupTxn E ns relations t =
     andThen (txn_Exec E (stmt_count_references E ns relations))
       (\<lambda>rows t'. (Inr (fold (\<lambda>(relation, count) m. AList.update relation count m) (rows_seen E (t_tick t) rows) []), t')) t"

definition LookupRelationReferencesByCount ::
  "sql_env \<Rightarrow> string \<Rightarrow> string list \<Rightarrow> txn option \<Rightarrow> world \<Rightarrow> (string, nat) gomap result \<times> txn option \<times> world" where
  "LookupRelationReferencesByCount E ns relations ctx w = withTransaction E (lookupTxn E ns relations) ctx w"

subsection \<open>The changelog\<close>

definition top_timestamps :: "nat \<Rightarrow> string \<Rightarrow> ns_change_row list \<Rightarrow> int list" where
  "top_timestamps n ns rows = take n (rev (sort (map nscl_timestamp (filter (\<lambda>r. nscl_namespace r = ns) rows))))"

record iterator =
  it_current :: "ns_change_row option"
  it_rest :: "ns_change_row list"

definition TopChanges :: "sql_env \<Rightarrow> nat \<Rightarrow> world \<Rightarrow> iterator result \<times> world" where
  "TopChanges E n w =
     (case db_Query E (\<lambda>d. Inr (sort_key (\<lambda>r. (nscl_namespace r, nscl_timestamp r))
         (filter (\<lambda>r. nscl_timestamp r \<in> set (top_timestamps n (nscl_namespace r) (tbl_ns_changelog d)))
            (tbl_ns_changelog d)))) w of
        (Inl err, w') \<Rightarrow> (Inl err, w')
      | (Inr rows, w') \<Rightarrow> (Inr \<lparr>it_current = None, it_rest = rows_seen E (w_tick w) rows\<rparr>, w'))"

definition iterator_Next :: "iterator \<Rightarrow> bool \<times> iterator" where
  "iterator_Next i =
     (case it_rest i of
        [] \<Rightarrow> (False, i\<lparr>it_current := None\<rparr>)
      | r # rs \<Rightarrow> (True, \<lparr>it_current = Some r, it_rest = rs\<rparr>))"

definition iterator_Value :: "sql_env \<Rightarrow> iterator \<Rightarrow> NamespaceChangelogEntry result" where
  "iterator_Value E i =
     (case it_current i of
        None \<Rightarrow> Inl (ErrLibrary ''sql: Scan called without calling Next'')
      | Some r \<Rightarrow>
          if nscl_operation r = ''ADD'' \<or> nscl_operation r = ''UPDATE'' then
            (case pj_Unmarshal E (nscl_config r) of
               Inl err \<Rightarrow> Inl err
             | Inr cfg \<Rightarrow> Inr \<lparr>entry_Namespace = nscl_namespace r,
                 entry_Operation = (if nscl_operation r = ''ADD'' then AddNamespace else UpdateNamespace),
                 entry_Config = cfg,
                 entry_Timestamp = \<lparr>wall = nscl_timestamp r, mono = None, loc = row_location E\<rparr>\<rparr>)
          else Inl (Panic ''An unexpected namespace operation was encountered. Underlying system invariants were not met!''))"

definition iterator_Close :: "iterator \<Rightarrow> unit result" where
  "iterator_Close i = Inr ()"

declare iterator_Close_def [simp]

subsection \<open>The manager as a value\<close>

text \<open>The \<open>NamespaceManager\<close> interface, and the SQL manager that \<open>NewNamespaceManager\<close> makes of a database.\<close>

record NamespaceManager =
  mgr_UpsertConfig :: "NamespaceConfig \<Rightarrow> txn option \<Rightarrow> world \<Rightarrow> unit result \<times> txn option \<times> world"
  mgr_GetConfig :: "string \<Rightarrow> txn option \<Rightarrow> world \<Rightarrow> NamespaceConfig result \<times> txn option \<times> world"
  mgr_GetRewrite :: "string \<Rightarrow> string \<Rightarrow> txn option \<Rightarrow> world \<Rightarrow> Rewrite option result \<times> txn option \<times> world"
  mgr_TopChanges :: "nat \<Rightarrow> world \<Rightarrow> iterator result \<times> world"
  mgr_LookupRelationReferencesByCount ::
    "string \<Rightarrow> string list \<Rightarrow> txn option \<Rightarrow> world \<Rightarrow> (string, nat) gomap result \<times> txn option \<times> world"
  mgr_WrapTransaction :: "(txn \<Rightarrow> unit result \<times> txn) \<Rightarrow> world \<Rightarrow> unit result \<times> world"

definition sqlNamespaceManager :: "sql_env \<Rightarrow> NamespaceManager" where
  "sqlNamespaceManager E =
     \<lparr>mgr_UpsertConfig = UpsertConfig E, mgr_GetConfig = GetConfig E, mgr_GetRewrite = manager_GetRewrite E,
      mgr_TopChanges = TopChanges E,
      mgr_LookupRelationReferencesByCount = LookupRelationReferencesByCount E,
      mgr_WrapTransaction = WrapTransaction E\<rparr>"

definition NewNamespaceManager :: "sql_env \<Rightarrow> NamespaceManager result" where
  "NewNamespaceManager E = Inr (sqlNamespaceManager E)"

subsection \<open>What an upsert writes\<close>

definition known_namespace :: "db \<Rightarrow> string \<Rightarrow> bool" where
  "known_namespace d ns \<longleftrightarrow> (\<exists>r \<in> set (tbl_configs d). cfgrow_namespace r = ns)"

definition upsert_operation :: "db \<Rightarrow> string \<Rightarrow> NamespaceOperation" where
  "upsert_operation d ns = (if known_namespace d ns then UpdateNamespace else AddNamespace)"

definition with_table :: "sql_env \<Rightarrow> string \<Rightarrow> db \<Rightarrow> db" where
  "with_table E ns d =
     (if known_namespace d ns then d
      else case ddl_table E ns of
        None \<Rightarrow> d
      | Some tbl \<Rightarrow> if tbl_tuples d tbl = None then d\<lparr>tbl_tuples := (tbl_tuples d)(tbl \<mapsto> [])\<rparr> else d)"

definition upserted :: "sql_env \<Rightarrow> int \<Rightarrow> string \<Rightarrow> string \<Rightarrow> db \<Rightarrow> db" where
  "upserted E now ns json d =
     (with_table E ns d)
       \<lparr>tbl_configs := tbl_configs d @ [\<lparr>cfgrow_namespace = ns, cfgrow_config = json, cfgrow_timestamp = now\<rparr>],
        tbl_ns_changelog := tbl_ns_changelog d @
          [\<lparr>nscl_namespace = ns, nscl_operation = upsert_operation d ns, nscl_config = json, nscl_timestamp = now\<rparr>]\<rparr>"

text \<open>The clock has moved on since the last version of the namespace was written.\<close>

definition later_than :: "db \<Rightarrow> string \<Rightarrow> int \<Rightarrow> bool" where
  "later_than d ns now \<longleftrightarrow>
     (\<forall>r \<in> set (tbl_configs d). cfgrow_namespace r = ns \<longrightarrow> cfgrow_timestamp r < now)
   \<and> (\<forall>r \<in> set (tbl_ns_changelog d). nscl_namespace r = ns \<longrightarrow> nscl_timestamp r < now)"

lemma count_configs_pos: "length (filter (\<lambda>r. cfgrow_namespace r = ns) (tbl_configs d)) > 0 \<longleftrightarrow> known_namespace d ns"
  by (auto simp: known_namespace_def filter_empty_conv)

lemma with_table_frame [simp]:
  "tbl_configs (with_table E ns d) = tbl_configs d" "tbl_ns_changelog (with_table E ns d) = tbl_ns_changelog d"
  by (simp_all add: with_table_def split: option.splits)

lemma upsertTxn_Inr:
  assumes "upsertTxn E cfg json t = (Inr y, t')"
  shows "t_db t' = upserted E (t_now t) (cfg_Name cfg) (jsonb_text E json) (t_db t) \<and> \<not> t_aborted t'"
proof -
  obtain count t1 op t2 y3 t3 where count: "txn_Exec E (stmt_count_configs (cfg_Name cfg)) t = (Inr count, t1)"
    and op: "(if count > 0 then (\<lambda>t. (Inr UpdateNamespace, t))
      else andThen (txn_Exec E (stmt_create_table E (cfg_Name cfg))) (\<lambda>_ t. (Inr AddNamespace, t))) t1 = (Inr op, t2)"
    and ins: "txn_Exec E (stmt_insert_config (cfg_Name cfg) (jsonb_text E json)) t2 = (Inr y3, t3)"
    and log: "txn_Exec E (stmt_insert_ns_change (cfg_Name cfg) op (jsonb_text E json)) t3 = (Inr y, t')"
    using assms unfolding upsertTxn_def andThen_Inr by blast
  from count have t1: "t_db t1 = t_db t" "t_now t1 = t_now t"
    and c: "count > 0 \<longleftrightarrow> known_namespace (t_db t) (cfg_Name cfg)"
    unfolding txn_Exec_Inr stmt_count_configs_def count_configs_pos [symmetric] by auto
  have t2: "t_db t2 = with_table E (cfg_Name cfg) (t_db t)" "t_now t2 = t_now t" "op = upsert_operation (t_db t) (cfg_Name cfg)"
    using op t1 c
    by (cases "known_namespace (t_db t) (cfg_Name cfg)";
        auto simp: andThen_Inr txn_Exec_Inr stmt_create_table_def with_table_def upsert_operation_def split: option.splits)+
  from ins log show ?thesis
    by (auto simp: txn_Exec_Inr stmt_insert_config_def stmt_insert_ns_change_def upserted_def t2 split: if_splits)
qed

text \<open>The version's key was free.\<close>

lemma upsertTxn_fresh:
  assumes "upsertTxn E cfg json t = (Inr y, t')"
  shows "\<forall>v \<in> set (tbl_configs (t_db t)). cfgrow_namespace v = cfg_Name cfg \<longrightarrow> cfgrow_timestamp v \<noteq> t_now t"
proof -
  obtain count t1 op t2 y3 t3 where count: "txn_Exec E (stmt_count_configs (cfg_Name cfg)) t = (Inr count, t1)"
    and op: "(if count > 0 then (\<lambda>t. (Inr UpdateNamespace, t))
      else andThen (txn_Exec E (stmt_create_table E (cfg_Name cfg))) (\<lambda>_ t. (Inr AddNamespace, t))) t1 = (Inr op, t2)"
    and ins: "txn_Exec E (stmt_insert_config (cfg_Name cfg) (jsonb_text E json)) t2 = (Inr y3, t3)"
    using assms unfolding upsertTxn_def andThen_Inr by blast
  from count have "t_db t1 = t_db t" "t_now t1 = t_now t" unfolding txn_Exec_Inr stmt_count_configs_def by auto
  with op have "tbl_configs (t_db t2) = tbl_configs (t_db t)" "t_now t2 = t_now t"
    by (auto simp: andThen_Inr txn_Exec_Inr stmt_create_table_def split: if_splits option.splits)
  with ins show ?thesis by (auto simp: txn_Exec_Inr stmt_insert_config_def split: if_splits)
qed

lemma upsertTxn_succeeds:
  assumes "faultless E" "\<not> t_aborted t" "later_than (t_db t) (cfg_Name cfg) (t_now t)"
    and "known_namespace (t_db t) (cfg_Name cfg) \<or> ddl_table E (cfg_Name cfg) \<noteq> None"
  shows "\<exists>t'. upsertTxn E cfg json t = (Inr (), t')"
proof -
  obtain t1 where t1: "txn_Exec E (stmt_count_configs (cfg_Name cfg)) t =
      (Inr (length (filter (\<lambda>r. cfgrow_namespace r = cfg_Name cfg) (tbl_configs (t_db t)))), t1)"
    "t_db t1 = t_db t" "t_now t1 = t_now t" "\<not> t_aborted t1"
    by (rule that [of "t\<lparr>t_tick := Suc (t_tick t)\<rparr>"])
      (use assms(1,2) in \<open>simp_all add: txn_Exec_def faultless_def stmt_count_configs_def Let_def\<close>)
  let ?count = "length (filter (\<lambda>r. cfgrow_namespace r = cfg_Name cfg) (tbl_configs (t_db t)))"
  obtain op t2 where t2: "(if ?count > 0 then (\<lambda>t. (Inr UpdateNamespace, t))
      else andThen (txn_Exec E (stmt_create_table E (cfg_Name cfg))) (\<lambda>_ t. (Inr AddNamespace, t))) t1 = (Inr op, t2)"
    "tbl_configs (t_db t2) = tbl_configs (t_db t)" "tbl_ns_changelog (t_db t2) = tbl_ns_changelog (t_db t)"
    "t_now t2 = t_now t" "\<not> t_aborted t2"
  proof (cases "known_namespace (t_db t) (cfg_Name cfg)")
    case True
    with that [of UpdateNamespace t1] t1 show ?thesis by (simp only: count_configs_pos if_True) simp
  next
    case False
    with assms(4) obtain tbl where tbl: "ddl_table E (cfg_Name cfg) = Some tbl" by blast
    obtain t2 where "txn_Exec E (stmt_create_table E (cfg_Name cfg)) t1 = (Inr (), t2)"
      "tbl_configs (t_db t2) = tbl_configs (t_db t)" "tbl_ns_changelog (t_db t2) = tbl_ns_changelog (t_db t)"
      "t_now t2 = t_now t" "\<not> t_aborted t2"
      using t1 assms(1) tbl by (auto simp: txn_Exec_def faultless_def stmt_create_table_def)
    with that [of AddNamespace t2] False show ?thesis
      by (simp only: count_configs_pos if_False) (simp add: andThen_def)
  qed
  have "\<exists>t'. andThen (txn_Exec E (stmt_insert_config (cfg_Name cfg) (jsonb_text E json)))
      (\<lambda>_. txn_Exec E (stmt_insert_ns_change (cfg_Name cfg) op (jsonb_text E json))) t2 = (Inr (), t')"
    using t2(2-5) assms(1,3)
    by (auto simp: andThen_def txn_Exec_def faultless_def stmt_insert_config_def stmt_insert_ns_change_def later_than_def)
  with t1 t2(1) show ?thesis by (simp add: upsertTxn_def andThen_def)
qed

lemma latest_upserted:
  assumes "later_than d ns now"
  shows "latest_rows ns (tbl_configs (upserted E now ns json d)) =
    [\<lparr>cfgrow_namespace = ns, cfgrow_config = json, cfgrow_timestamp = now\<rparr>]"
proof -
  let ?mine = "filter (\<lambda>r. cfgrow_namespace r = ns) (tbl_configs d)"
  have old: "\<forall>r \<in> set ?mine. cfgrow_timestamp r < now" using assms by (auto simp: later_than_def)
  then have "filter (\<lambda>r. list_all (\<lambda>r'. cfgrow_timestamp r' \<le> cfgrow_timestamp r) ?mine \<and> now \<le> cfgrow_timestamp r) ?mine = []"
    by (auto simp: filter_empty_conv)
  moreover have "list_all (\<lambda>r'. cfgrow_timestamp r' \<le> now) ?mine" using old by (auto simp: list_all_iff)
  ultimately show ?thesis
    by (simp add: latest_rows_def upserted_def Let_def del: filter_filter)
qed

subsection \<open>The most recent changes\<close>

lemma take_descending:
  fixes ys :: "int list"
  shows "sorted_wrt (>) ys \<Longrightarrow> x \<in> set (take n ys) \<longleftrightarrow> x \<in> set ys \<and> card {y \<in> set ys. x < y} < n"
proof (induction ys arbitrary: n)
  case (Cons z zs)
  show ?case
  proof (cases n)
    case (Suc m)
    have z: "z \<notin> set zs" "{y \<in> set (z # zs). z < y} = {}" using Cons.prems by auto
    have IH: "x \<in> set (take m zs) \<longleftrightarrow> x \<in> set zs \<and> card {y \<in> set zs. x < y} < m"
      using Cons.IH Cons.prems by simp
    consider "x = z" | "x \<in> set zs" "x \<noteq> z" | "x \<notin> set (z # zs)" by auto
    then show ?thesis
    proof cases
      case 1
      have "card {y \<in> set (z # zs). x < y} = 0" unfolding 1 z(2) by simp
      moreover have "x \<in> set (take n (z # zs))" "x \<in> set (z # zs)" using 1 Suc by simp_all
      ultimately show ?thesis using Suc by (metis zero_less_Suc)
    next
      case 2
      have "{y \<in> set (z # zs). x < y} = insert z {y \<in> set zs. x < y}" "z \<notin> {y \<in> set zs. x < y}"
        using Cons.prems 2 by auto
      then have "card {y \<in> set (z # zs). x < y} = Suc (card {y \<in> set zs. x < y})" by simp
      then have "x \<in> set (z # zs) \<and> card {y \<in> set (z # zs). x < y} < n \<longleftrightarrow> x \<in> set (take m zs)"
        unfolding IH Suc using 2 by simp
      moreover have "x \<in> set (take n (z # zs)) \<longleftrightarrow> x \<in> set (take m zs)" using 2 Suc by simp
      ultimately show ?thesis by blast
    next
      case 3
      then have "x \<notin> set (take n (z # zs))" using in_set_takeD [of x n "z # zs"] by blast
      with 3 show ?thesis by blast
    qed
  qed simp
qed simp

lemma take_rev_sort:
  fixes xs :: "int list"
  assumes "distinct xs"
  shows "x \<in> set (take n (rev (sort xs))) \<longleftrightarrow> x \<in> set xs \<and> card {y \<in> set xs. x < y} < n"
  using take_descending [of "rev (sort xs)" x n] assms by (simp add: sorted_wrt_rev strict_sorted_iff)

text \<open>The rows that \<open>TopChanges\<close> selects.\<close>

lemma TopChanges_rows:
  assumes "TopChanges E n w = (Inr it, w')" "cut E (w_tick w) = None"
    and "\<forall>ns. distinct (map nscl_timestamp (filter (\<lambda>r. nscl_namespace r = ns) (tbl_ns_changelog (w_db w))))"
  shows "set (it_rest it) = {r \<in> set (tbl_ns_changelog (w_db w)).
      card {s \<in> nscl_timestamp ` {q \<in> set (tbl_ns_changelog (w_db w)). nscl_namespace q = nscl_namespace r}. nscl_timestamp r < s} < n}
    \<and> sorted (map (\<lambda>r. (nscl_namespace r, nscl_timestamp r)) (it_rest it))"
proof -
  let ?log = "tbl_ns_changelog (w_db w)"
  let ?rows = "filter (\<lambda>r. nscl_timestamp r \<in> set (top_timestamps n (nscl_namespace r) ?log)) ?log"
  have it: "it_rest it = sort_key (\<lambda>r. (nscl_namespace r, nscl_timestamp r)) ?rows"
    using assms(1,2) by (auto simp: TopChanges_def db_Query_def split: option.splits)
  have "nscl_timestamp r \<in> set (top_timestamps n (nscl_namespace r) ?log) \<longleftrightarrow>
      card {s \<in> nscl_timestamp ` {q \<in> set ?log. nscl_namespace q = nscl_namespace r}. nscl_timestamp r < s} < n"
    if "r \<in> set ?log" for r
  proof -
    have "nscl_timestamp r \<in> set (map nscl_timestamp (filter (\<lambda>q. nscl_namespace q = nscl_namespace r) ?log))"
      using that by auto
    with take_rev_sort [OF spec [OF assms(3), of "nscl_namespace r"], of "nscl_timestamp r" n] show ?thesis
      by (simp add: top_timestamps_def)
  qed
  then show ?thesis unfolding it by (auto simp: sorted_sort_key)
qed

subsection \<open>Counting references\<close>

lemma map_of_fold_update:
  "map_of (fold (\<lambda>(k, v) m. AList.update k v m) kvs m0) k =
     (case map_of (rev kvs) k of Some v \<Rightarrow> Some v | None \<Rightarrow> map_of m0 k)"
  by (induction kvs arbitrary: m0) (auto simp: update_conv' split: option.splits)

definition references :: "db \<Rightarrow> string \<Rightarrow> string \<Rightarrow> lookup_row list" where
  "references d ns rel = filter (\<lambda>r. lk_namespace r = ns \<and> lk_relation r = rel) (tbl_lookup d)"

lemma lookupTxn_Inr:
  assumes "lookupTxn E ns relations t = (Inr refs, t')" "cut E (t_tick t) = None"
  shows "map_of refs rel =
    (if rel \<in> set relations \<and> references (t_db t) ns rel \<noteq> [] then Some (length (references (t_db t) ns rel)) else None)"
proof -
  let ?rows = "filter (\<lambda>r. lk_namespace r = ns \<and> lk_relation r \<in> set relations) (tbl_lookup (t_db t))"
  let ?counts = "map (\<lambda>rel. (rel, length (filter (\<lambda>r. lk_relation r = rel) ?rows))) (remdups (map lk_relation ?rows))"
  have "refs = fold (\<lambda>(relation, count) m. AList.update relation count m) ?counts []"
    using assms by (auto simp: lookupTxn_def andThen_Inr txn_Exec_Inr stmt_count_references_def Let_def split: if_splits option.splits)
  moreover have "map_of (rev ?counts) rel = map_of ?counts rel"
    by (rule map_of_rev_distinct) (simp add: comp_def)
  ultimately have "map_of refs rel = map_of ?counts rel"
    by (simp add: map_of_fold_update split: option.splits)
  moreover have "rel \<in> set (map lk_relation ?rows) \<longleftrightarrow> rel \<in> set relations \<and> references (t_db t) ns rel \<noteq> []"
    by (auto simp: references_def filter_empty_conv)
  moreover have "filter (\<lambda>r. lk_relation r = rel) ?rows = references (t_db t) ns rel" if "rel \<in> set relations"
    using that by (auto simp: references_def intro!: filter_cong)
  ultimately show ?thesis by (auto simp: map_of_map_restrict restrict_map_def)
qed

subsection \<open>Properties\<close>

text \<open>A configuration that was written is read back: after \<open>UpsertConfig\<close> in a transaction of its
  own, at a time later than every earlier version, \<open>GetConfig\<close> returns that configuration, for every
  configuration that \<open>protojson\<close> and the \<open>jsonb\<close> column preserve.\<close>

theorem upsert_then_get:
  assumes "faultless E" "pj_Marshal E cfg = Inr json" "pj_Unmarshal E (jsonb_text E json) = Inr cfg"
    and "later_than (w_db w) (cfg_Name cfg) (clock E (w_tick w))"
    and "known_namespace (w_db w) (cfg_Name cfg) \<or> ddl_table E (cfg_Name cfg) \<noteq> None"
  shows "\<exists>w'. UpsertConfig E cfg None w = (Inr (), None, w')
    \<and> fst (GetConfig E (cfg_Name cfg) None w') = Inr cfg
    \<and> w_db w' = upserted E (clock E (w_tick w)) (cfg_Name cfg) (jsonb_text E json) (w_db w)"
proof -
  let ?t = "\<lparr>t_db = w_db w, t_tick = Suc (w_tick w), t_now = clock E (w_tick w), t_aborted = False\<rparr>"
  obtain t' where t': "upsertTxn E cfg json ?t = (Inr (), t')"
    using upsertTxn_succeeds [OF assms(1), of ?t cfg json] assms(4,5) by auto
  note eff = upsertTxn_Inr [OF t']
  define w' where "w' = snd (txn_Commit E t' (w\<lparr>w_tick := Suc (w_tick w)\<rparr>))"
  have up: "UpsertConfig E cfg None w = (Inr (), None, w')"
    using assms(1,2) t' by (simp add: UpsertConfig_def withTransaction_def db_Begin_def faultless_def Let_def w'_def)
  have db: "w_db w' = upserted E (clock E (w_tick w)) (cfg_Name cfg) (jsonb_text E json) (w_db w)"
    using eff assms(1) by (simp add: w'_def txn_Commit_def faultless_def Let_def)
  have "fst (GetConfig E (cfg_Name cfg) None w') = Inr cfg"
    using assms(1,3) latest_upserted [OF assms(4), of E "jsonb_text E json"]
    by (simp add: GetConfig_def withTransaction_def db_Begin_def faultless_def Let_def getConfigTxn_def andThen_def
        txn_Exec_def stmt_select_latest_def db)
  with up db show ?thesis by blast
qed

theorem upsert_then_get_witness:
  "\<exists>w'. UpsertConfig (plain_env [(cfg_docs, ''{}'')]) cfg_docs None (session empty_db) = (Inr (), None, w')
    \<and> fst (GetConfig (plain_env [(cfg_docs, ''{}'')]) ''docs'' None w') = Inr cfg_docs"
proof -
  have "\<exists>w'. UpsertConfig (plain_env [(cfg_docs, ''{}'')]) cfg_docs None (session empty_db) = (Inr (), None, w')
    \<and> fst (GetConfig (plain_env [(cfg_docs, ''{}'')]) (cfg_Name cfg_docs) None w') = Inr cfg_docs
    \<and> w_db w' = upserted (plain_env [(cfg_docs, ''{}'')]) (clock (plain_env [(cfg_docs, ''{}'')]) (w_tick (session empty_db)))
        (cfg_Name cfg_docs) (jsonb_text (plain_env [(cfg_docs, ''{}'')]) ''{}'') (w_db (session empty_db))"
    by (rule upsert_then_get)
      (simp_all add: plain_env_def faultless_def later_than_def session_def empty_db_def known_namespace_def)
  then show ?thesis by (auto simp: cfg_docs_def)
qed

text \<open>C39: a failed commit of \<open>UpsertConfig\<close> is not reported: when the statements succeed and the commit
  of its own transaction fails, the method returns no error, and the configuration is not there.\<close>

theorem upsert_commit_error_lost:
  assumes "pj_Marshal E cfg = Inr json" "db_Begin E w = (Inr t, w1)"
    and "upsertTxn E cfg json t = (Inr (), t')" "fault E (t_tick t') = Some err"
  shows "\<exists>w'. UpsertConfig E cfg None w = (Inr (), None, w') \<and> w_db w' = w_db w"
  using assms
  by (auto simp: UpsertConfig_def withTransaction_def txn_Commit_def db_Begin_def Let_def split: option.splits)

theorem upsert_commit_error_lost_witness:
  "\<exists>w'. UpsertConfig (plain_env [(cfg_docs, ''{}'')]\<lparr>fault := \<lambda>n. if n = 5 then Some (ErrLibrary ''conn reset'') else None\<rparr>)
      cfg_docs None (session empty_db) = (Inr (), None, w') \<and> w_db w' = empty_db"
proof -
  let ?E = "plain_env [(cfg_docs, ''{}'')]\<lparr>fault := \<lambda>n. if n = 5 then Some (ErrLibrary ''conn reset'') else None\<rparr>"
  let ?t = "\<lparr>t_db = empty_db, t_tick = 1, t_now = 0, t_aborted = False\<rparr>"
  have b: "db_Begin ?E (session empty_db) = (Inr ?t, (session empty_db)\<lparr>w_tick := 1\<rparr>)"
    by (simp add: db_Begin_def plain_env_def session_def)
  obtain t' where t': "upsertTxn ?E cfg_docs ''{}'' ?t = (Inr (), t')" "t_tick t' = 5"
    by (auto simp: upsertTxn_def andThen_def txn_Exec_def stmt_count_configs_def stmt_create_table_def
        stmt_insert_config_def stmt_insert_ns_change_def plain_env_def empty_db_def)
  have "\<exists>w'. UpsertConfig ?E cfg_docs None (session empty_db) = (Inr (), None, w') \<and> w_db w' = w_db (session empty_db)"
    by (rule upsert_commit_error_lost [OF _ b t'(1)]) (simp_all add: plain_env_def t'(2))
  then show ?thesis by (simp add: session_def)
qed

text \<open>\<open>TopChanges\<close> returns, for every namespace, exactly its \<open>n\<close> most recent changes (those with
  fewer than \<open>n\<close> later ones), ordered by namespace and time, when no two changes of a namespace have
  the same time and the rows arrive in full.\<close>

theorem top_changes_exact:
  assumes "TopChanges E n w = (Inr it, w')" "cut E (w_tick w) = None"
    and "\<forall>ns. distinct (map nscl_timestamp (filter (\<lambda>r. nscl_namespace r = ns) (tbl_ns_changelog (w_db w))))"
  shows "set (it_rest it) = {r \<in> set (tbl_ns_changelog (w_db w)).
      card {s \<in> nscl_timestamp ` {q \<in> set (tbl_ns_changelog (w_db w)). nscl_namespace q = nscl_namespace r}. nscl_timestamp r < s} < n}
    \<and> sorted (map (\<lambda>r. (nscl_namespace r, nscl_timestamp r)) (it_rest it))"
  by (rule TopChanges_rows [OF assms])

theorem top_changes_exact_witness:
  "\<exists>it w'. TopChanges (plain_env []) 1 (session (empty_db\<lparr>tbl_ns_changelog :=
       [\<lparr>nscl_namespace = ''a'', nscl_operation = ''ADD'', nscl_config = '''', nscl_timestamp = 1\<rparr>,
        \<lparr>nscl_namespace = ''a'', nscl_operation = ''UPDATE'', nscl_config = '''', nscl_timestamp = 2\<rparr>]\<rparr>)) = (Inr it, w')
     \<and> sorted (map (\<lambda>r. (nscl_namespace r, nscl_timestamp r)) (it_rest it))"
proof -
  let ?d = "empty_db\<lparr>tbl_ns_changelog :=
       [\<lparr>nscl_namespace = ''a'', nscl_operation = ''ADD'', nscl_config = '''', nscl_timestamp = 1\<rparr>,
        \<lparr>nscl_namespace = ''a'', nscl_operation = ''UPDATE'', nscl_config = '''', nscl_timestamp = 2\<rparr>]\<rparr>"
  obtain it w' where res: "TopChanges (plain_env []) 1 (session ?d) = (Inr it, w')"
    by (simp add: TopChanges_def db_Query_def plain_env_def)
  have "cut (plain_env []) (w_tick (session ?d)) = None"
    "\<forall>ns. distinct (map nscl_timestamp (filter (\<lambda>r. nscl_namespace r = ns) (tbl_ns_changelog (w_db (session ?d)))))"
    by (simp_all add: plain_env_def session_def)
  from top_changes_exact [OF res this] res show ?thesis by blast
qed

text \<open>\<open>LookupRelationReferencesByCount\<close> counts, for each of the given relations, the rows of the
  reverse lookup under that namespace and relation, and has no entry for a relation without any, when
  the rows arrive in full.\<close>

theorem lookup_counts_references:
  assumes "LookupRelationReferencesByCount E ns relations None w = (Inr refs, ctx', w')" "cut E (Suc (w_tick w)) = None"
  shows "map_of refs rel =
    (if rel \<in> set relations \<and> references (w_db w) ns rel \<noteq> [] then Some (length (references (w_db w) ns rel)) else None)"
proof -
  obtain t w1 t' where "db_Begin E w = (Inr t, w1)" "lookupTxn E ns relations t = (Inr refs, t')"
    using assms(1) by (auto simp: LookupRelationReferencesByCount_def withTransaction_def split: prod.splits sum.splits)
  moreover from this(1) have "t_db t = w_db w" "t_tick t = Suc (w_tick w)"
    by (auto simp: db_Begin_def Let_def split: option.splits)
  ultimately show ?thesis using lookupTxn_Inr [of E ns relations t refs t' rel] assms(2) by simp
qed

theorem lookup_counts_references_witness:
  "\<exists>refs ctx' w'. LookupRelationReferencesByCount (plain_env []) ''docs'' [''viewer'', ''editor''] None
      (session (empty_db\<lparr>tbl_lookup := lookup_values editors_tuple\<rparr>)) = (Inr refs, ctx', w') \<and> map_of refs ''editor'' = Some 1"
proof -
  let ?w = "session (empty_db\<lparr>tbl_lookup := lookup_values editors_tuple\<rparr>)"
  obtain refs ctx' w' where res: "LookupRelationReferencesByCount (plain_env []) ''docs'' [''viewer'', ''editor''] None ?w = (Inr refs, ctx', w')"
    by (auto simp: LookupRelationReferencesByCount_def withTransaction_def db_Begin_def plain_env_def lookupTxn_def andThen_def
        txn_Exec_def stmt_count_references_def Let_def split: prod.splits)
  have "map_of refs ''editor'' = Some 1"
    using lookup_counts_references [OF res, of "''editor''"]
    by (simp add: plain_env_def references_def session_def lookup_values_def editors_tuple_def)
  with res show ?thesis by blast
qed

end
