(* ===== verification/Membership.thy ===== *)
theory Membership
  imports Namespace_Manager Check_Properties
begin

section \<open>Cluster membership and the configuration watch (\<open>internal/access-controller.go\<close>)\<close>

text \<open>
  How a node comes up and follows its cluster: \<open>NewAccessController\<close>, one round of
  \<open>watchNamespaceConfigs\<close>, and the delegates that the memberlist package calls back (\<open>NodeMeta\<close>,
  \<open>LocalState\<close>, \<open>MergeRemoteState\<close>, \<open>NotifyJoin\<close>, \<open>NotifyLeave\<close> and the empty ones).

  Code that is not in the repository is a parameter, the record \<open>net_env\<close>: the memberlist package
  (which members and remote states it reports while it is created and while it joins), the result of
  \<open>grpc.Dial\<close>, the JSON form of \<open>NodeMetadata\<close>, and how often the backoff policy lets a call be retried.
  The JSON codec is not spelled out: what the exchange relies on is that a message survives it
  (\<open>meta_survives\<close>, a named hypothesis).
\<close>

subsection \<open>Definitions\<close>

text \<open>A \<open>memberlist.Node\<close>: its \<open>String()\<close>, the text of its IP address, and its metadata.\<close>

record member =
  mem_String :: string
  mem_Addr :: string
  mem_Meta :: string

datatype cluster_event =
    MemberJoins member
  | MemberLeaves member
  | MemberUpdates member
  | Msg string
  | RemoteState string

record net_env =
  json_Marshal :: "NodeMetadata \<Rightarrow> string result"
  json_Unmarshal :: "string \<Rightarrow> NodeMetadata result"
  grpc_Dial :: "string \<Rightarrow> error option"
  ml_Create :: "string \<Rightarrow> string \<Rightarrow> int \<Rightarrow> cluster_event list result"
  ml_Join :: "string list \<Rightarrow> int \<times> error option \<times> cluster_event list"
  ml_Leave :: "error option"
  backoff_retries :: nat

subsubsection \<open>Decimal numbers (\<open>fmt\<close>)\<close>

function fmt_digits :: "int \<Rightarrow> string" where
  "fmt_digits n = (if n < 10 then [char_of (48 + n)] else fmt_digits (n div 10) @ [char_of (48 + n mod 10)])"
  by pat_completeness auto
termination
  by (relation "measure nat") auto

declare fmt_digits.simps [simp del]

definition fmt_d :: "int \<Rightarrow> string" where
  "fmt_d i = (if i < 0 then CHR ''-'' # fmt_digits (- i) else fmt_digits i)"

subsubsection \<open>Metadata and state exchange\<close>

text \<open>On a marshalling error the code logs it and sends nothing.\<close>

definition sent :: "string result \<Rightarrow> string" where
  "sent r = (case r of Inl _ \<Rightarrow> '''' | Inr data \<Rightarrow> data)"

definition NodeMeta :: "net_env \<Rightarrow> int \<Rightarrow> 'r AccessController \<Rightarrow> string" where
  "NodeMeta N limit a =
     sent (json_Marshal N \<lparr>meta_NodeID = '''', meta_ServerPort = ServerPort (Configs a),
       meta_NamespaceConfigSnapshots = []\<rparr>)"

definition NotifyMsg :: "string \<Rightarrow> 'r AccessController \<Rightarrow> 'r AccessController" where
  "NotifyMsg msg a = a"

definition GetBroadcasts :: "int \<Rightarrow> int \<Rightarrow> 'r AccessController \<Rightarrow> string list" where
  "GetBroadcasts overhead limit a = []"

definition NotifyUpdate :: "member \<Rightarrow> 'r AccessController \<Rightarrow> 'r AccessController" where
  "NotifyUpdate m a = a"

text \<open>
  The serialised configurations: the body of the nested loops, which adds one snapshot to the map of
  its namespace. A configuration that cannot be marshalled is sent as an empty byte string.
\<close>

definition addSerialized ::
  "string \<Rightarrow> time \<Rightarrow> string \<Rightarrow> (string, (time, string) gomap) gomap \<Rightarrow> (string, (time, string) gomap) gomap" where
  "addSerialized namespace timestamp bytes m =
     (case map_of m namespace of
        None \<Rightarrow> AList.update namespace [(timestamp, bytes)] m
      | Some inner \<Rightarrow> AList.update namespace (AList.update timestamp bytes inner) m)"

definition serializeConfigs ::
  "sql_env \<Rightarrow> (string, snapshots) gomap \<Rightarrow> (string, (time, string) gomap) gomap" where
  "serializeConfigs E cfgs =
     fold (\<lambda>(namespace, sn). fold (\<lambda>(timestamp, config).
        addSerialized namespace timestamp (sent (pj_Marshal E config))) sn) cfgs []"

definition LocalState :: "sql_env \<Rightarrow> net_env \<Rightarrow> bool \<Rightarrow> 'r AccessController \<Rightarrow> string result" where
  "LocalState E N join a =
     (case GetNamespaceConfigSnapshots (PeerStore a) (server_id a) of
        Inl err \<Rightarrow> Inl (Panic ''This node's local namespace config snapshots do not exist. Something is seriously wrong!'')
      | Inr cfgs \<Rightarrow>
          Inr (sent (json_Marshal N \<lparr>meta_NodeID = server_id a, meta_ServerPort = ServerPort (Configs a),
            meta_NamespaceConfigSnapshots = serializeConfigs E cfgs\<rparr>)))"

definition mergeSnapshot ::
  "sql_env \<Rightarrow> string \<Rightarrow> string \<Rightarrow> time \<times> string \<Rightarrow> inmemPeerNamespaceConfigStore \<Rightarrow> inmemPeerNamespaceConfigStore" where
  "mergeSnapshot E nodeID namespace snapshot p =
     (case pj_Unmarshal E (snd snapshot) of
        Inl _ \<Rightarrow> p
      | Inr config \<Rightarrow> snd (SetNamespaceConfigSnapshot nodeID namespace config (fst snapshot) p))"

definition MergeRemoteState :: "sql_env \<Rightarrow> net_env \<Rightarrow> string \<Rightarrow> 'r AccessController \<Rightarrow> 'r AccessController" where
  "MergeRemoteState E N buf a =
     (case json_Unmarshal N buf of
        Inl _ \<Rightarrow> a
      | Inr remoteState \<Rightarrow>
          a\<lparr>PeerStore := fold (\<lambda>(namespace, sn). fold (mergeSnapshot E (meta_NodeID remoteState) namespace) sn)
             (meta_NamespaceConfigSnapshots remoteState) (PeerStore a)\<rparr>)"

subsubsection \<open>Members\<close>

definition NotifyJoin :: "'r consistent_lib \<Rightarrow> net_env \<Rightarrow> member \<Rightarrow> 'r AccessController \<Rightarrow> 'r AccessController" where
  "NotifyJoin L N m a =
     (let nodeID = mem_String m; joined = (\<lambda>a'. a'\<lparr>Hashring := ring_Add L nodeID (Hashring a')\<rparr>) in
      if nodeID \<noteq> server_id a then
        (case json_Unmarshal N (mem_Meta m) of
           Inl _ \<Rightarrow> a
         | Inr meta \<Rightarrow>
             (let remoteAddr = mem_Addr m @ '':'' @ fmt_d (meta_ServerPort meta) in
              case grpc_Dial N remoteAddr of
                Some _ \<Rightarrow> a
              | None \<Rightarrow> joined (a\<lparr>RPCRouter := AddClient nodeID (CheckServiceClient remoteAddr) (RPCRouter a)\<rparr>)))
      else joined a)"

definition NotifyLeave :: "'r consistent_lib \<Rightarrow> member \<Rightarrow> 'r AccessController \<Rightarrow> 'r AccessController" where
  "NotifyLeave L m a =
     (let nodeID = mem_String m;
          a1 = (if nodeID \<noteq> server_id a then a\<lparr>RPCRouter := RemoveClient nodeID (RPCRouter a)\<rparr> else a);
          a2 = a1\<lparr>Hashring := ring_Remove L nodeID (Hashring a1)\<rparr>
      in a2\<lparr>PeerStore := snd (DeleteNamespaceConfigSnapshots nodeID (PeerStore a2))\<rparr>)"

text \<open>The callback that an event of the memberlist package invokes.\<close>

fun on_event :: "'r consistent_lib \<Rightarrow> sql_env \<Rightarrow> net_env \<Rightarrow> cluster_event \<Rightarrow> 'r AccessController \<Rightarrow> 'r AccessController" where
  "on_event L E N (MemberJoins m) a = NotifyJoin L N m a"
| "on_event L E N (MemberLeaves m) a = NotifyLeave L m a"
| "on_event L E N (MemberUpdates m) a = NotifyUpdate m a"
| "on_event L E N (Msg b) a = NotifyMsg b a"
| "on_event L E N (RemoteState buf) a = MergeRemoteState E N buf a"

subsubsection \<open>The configuration watch\<close>

text \<open>
  One pass over the changes: \<open>watchChanges\<close> stops at an entry that cannot be read and keeps what it
  has, \<open>preloadChanges\<close> returns its error. A panic of the iterator ends both. Closing the iterator has
  no error (\<open>iterator_Close\<close>), and the watch would only log one.
\<close>

definition is_change :: "NamespaceChangelogEntry \<Rightarrow> bool" where
  "is_change entry \<longleftrightarrow> entry_Operation entry = AddNamespace \<or> entry_Operation entry = UpdateNamespace"

definition setOwn ::
  "string \<Rightarrow> NamespaceChangelogEntry \<Rightarrow> inmemPeerNamespaceConfigStore \<Rightarrow> unit result \<times> inmemPeerNamespaceConfigStore" where
  "setOwn serverID entry p =
     SetNamespaceConfigSnapshot serverID (entry_Namespace entry) (entry_Config entry) (entry_Timestamp entry) p"

definition unexpectedOperation :: error where
  "unexpectedOperation = Panic ''An expected namespace operation was encountered''"

function watchChanges ::
  "sql_env \<Rightarrow> string \<Rightarrow> iterator \<Rightarrow> inmemPeerNamespaceConfigStore \<Rightarrow> unit result \<times> inmemPeerNamespaceConfigStore" where
  "watchChanges E serverID it p =
     (case iterator_Next it of
        (False, it') \<Rightarrow> (Inr (), p)
      | (True, it') \<Rightarrow>
          (case iterator_Value E it' of
             Inl (Panic m) \<Rightarrow> (Inl (Panic m), p)
           | Inl _ \<Rightarrow> (Inr (), p)
           | Inr change \<Rightarrow>
               if is_change change then watchChanges E serverID it' (snd (setOwn serverID change p))
               else (Inl unexpectedOperation, p)))"
  by pat_completeness auto
termination
  by (relation "measure (\<lambda>(_, _, it, _). length (it_rest it))") (auto simp: iterator_Next_def split: list.splits)

function preloadChanges ::
  "sql_env \<Rightarrow> string \<Rightarrow> iterator \<Rightarrow> inmemPeerNamespaceConfigStore \<Rightarrow> unit result \<times> inmemPeerNamespaceConfigStore" where
  "preloadChanges E serverID it p =
     (case iterator_Next it of
        (False, it') \<Rightarrow> (iterator_Close it', p)
      | (True, it') \<Rightarrow>
          (case iterator_Value E it' of
             Inl err \<Rightarrow> (Inl err, p)
           | Inr entry \<Rightarrow>
               if is_change entry then
                 (case setOwn serverID entry p of
                    (Inl err, p') \<Rightarrow> (Inl err, p')
                  | (Inr _, p') \<Rightarrow> preloadChanges E serverID it' p')
               else (Inl unexpectedOperation, p)))"
  by pat_completeness auto
termination
  by (relation "measure (\<lambda>(_, _, it, _). length (it_rest it))") (auto simp: iterator_Next_def split: list.splits)

declare watchChanges.simps [simp del] preloadChanges.simps [simp del]

text \<open>\<open>backoff.Retry\<close>: the query is repeated until it succeeds or the policy gives up.\<close>

fun retryTopChanges :: "sql_env \<Rightarrow> nat \<Rightarrow> nat \<Rightarrow> world \<Rightarrow> iterator result \<times> world" where
  "retryTopChanges E n 0 w = TopChanges E n w"
| "retryTopChanges E n (Suc retries) w =
     (case TopChanges E n w of
        (Inl _, w') \<Rightarrow> retryTopChanges E n retries w'
      | (Inr it, w') \<Rightarrow> (Inr it, w'))"

text \<open>One turn of the endless loop of \<open>watchNamespaceConfigs\<close>.\<close>

definition watchRound ::
  "sql_env \<Rightarrow> net_env \<Rightarrow> 'r AccessController \<Rightarrow> world \<Rightarrow> 'r AccessController result \<times> world" where
  "watchRound E N a w =
     (case retryTopChanges E 3 (backoff_retries N) w of
        (Inl _, w') \<Rightarrow> (Inr a, w')
      | (Inr it, w') \<Rightarrow>
          (case watchChanges E (server_id a) it (PeerStore a) of
             (Inl err, _) \<Rightarrow> (Inl err, w')
           | (Inr _, p) \<Rightarrow> (Inr (a\<lparr>PeerStore := p\<rparr>), w')))"

subsubsection \<open>Coming up and going away\<close>

text \<open>
  The controller under construction: the state of the node, and the two interface values that the
  options set. The configuration options are functions on it.
\<close>

record 'r controller =
  ctl_node :: "'r AccessController"
  ctl_RelationTupleStore :: "RelationTupleStore option"
  ctl_NamespaceManager :: "NamespaceManager option"

type_synonym 'r AccessControllerOption = "'r controller \<Rightarrow> 'r controller"

definition WithStore :: "RelationTupleStore \<Rightarrow> 'r AccessControllerOption" where
  "WithStore store ac = ac\<lparr>ctl_RelationTupleStore := Some store\<rparr>"

definition WithNamespaceManager :: "NamespaceManager \<Rightarrow> 'r AccessControllerOption" where
  "WithNamespaceManager m ac = ac\<lparr>ctl_NamespaceManager := Some m\<rparr>"

definition WithNodeConfigs :: "NodeConfigs \<Rightarrow> 'r AccessControllerOption" where
  "WithNodeConfigs cfg ac = ac\<lparr>ctl_node := (ctl_node ac)\<lparr>Configs := cfg\<rparr>\<rparr>"

text \<open>The options that \<open>main\<close> passes, for a manager \<open>m\<close>.\<close>

definition ctrlOpts :: "sql_env \<Rightarrow> NamespaceManager \<Rightarrow> NodeConfigs \<Rightarrow> 'r AccessControllerOption list" where
  "ctrlOpts E m cfg = [WithStore (SQLStore E), WithNamespaceManager m, WithNodeConfigs cfg]"

definition zero_NodeConfigs :: NodeConfigs where
  "zero_NodeConfigs = \<lparr>ServerID = '''', Advertise = '''', Join = '''', NodePort = 0, ServerPort = 0\<rparr>"

definition new_controller :: "'r consistent_lib \<Rightarrow> 'r controller" where
  "new_controller L =
     \<lparr>ctl_node = \<lparr>RPCRouter = NewMapClientRouter, Hashring = NewConsistentHashring L None,
        PeerStore = NewInMemoryPeerNamespaceConfigStore, Configs = zero_NodeConfigs\<rparr>,
      ctl_RelationTupleStore = None, ctl_NamespaceManager = None\<rparr>"

text \<open>The second half of the constructor: the member list is created, and other members are joined.\<close>

definition joinCluster ::
  "'r consistent_lib \<Rightarrow> sql_env \<Rightarrow> net_env \<Rightarrow> 'r AccessController \<Rightarrow> 'r AccessController result" where
  "joinCluster L E N ac =
     (case ml_Create N (server_id ac) (Advertise (Configs ac)) (NodePort (Configs ac)) of
        Inl err \<Rightarrow> Inl err
      | Inr events \<Rightarrow>
          (let ac2 = fold (on_event L E N) events ac in
           if Join (Configs ac2) \<noteq> '''' then
             (case ml_Join N (strings_Split (CHR '','') (Join (Configs ac2))) of
                (numJoined, err, events') \<Rightarrow>
                  (case err of
                     Some e \<Rightarrow> if numJoined < 1 then Inl e else Inr (fold (on_event L E N) events' ac2)
                   | None \<Rightarrow> Inr (fold (on_event L E N) events' ac2)))
           else Inr ac2))"

text \<open>Without a namespace manager the first method call dereferences a nil interface.\<close>

definition nilDereference :: error where
  "nilDereference = Panic ''runtime error: invalid memory address or nil pointer dereference''"

definition NewAccessController ::
  "'r consistent_lib \<Rightarrow> sql_env \<Rightarrow> net_env \<Rightarrow> 'r AccessControllerOption list \<Rightarrow> world \<Rightarrow> 'r controller result \<times> world" where
  "NewAccessController L E N opts w =
     (let ac = fold (\<lambda>opt. opt) opts (new_controller L) in
      case ctl_NamespaceManager ac of
        None \<Rightarrow> (Inl nilDereference, w)
      | Some m \<Rightarrow>
          (case mgr_TopChanges m 3 w of
             (Inl err, w') \<Rightarrow> (Inl (ErrWithMessage ''Failed to list top namespace changelog changes.'' err), w')
           | (Inr it, w') \<Rightarrow>
               (case preloadChanges E (server_id (ctl_node ac)) it (PeerStore (ctl_node ac)) of
                  (Inl err, _) \<Rightarrow> (Inl err, w')
                | (Inr _, p) \<Rightarrow>
                    (case joinCluster L E N ((ctl_node ac)\<lparr>PeerStore := p\<rparr>) of
                       Inl err \<Rightarrow> (Inl err, w')
                     | Inr a \<Rightarrow> (Inr (ac\<lparr>ctl_node := a\<rparr>), w')))))"

text \<open>
  \<open>Close\<close> hands a token to the goroutine that waits in \<open>watchNamespaceConfigs\<close>; when it has already
  been taken, nobody receives and the call blocks (\<open>None\<close>).
\<close>

definition Close :: "net_env \<Rightarrow> bool \<Rightarrow> (error option \<times> bool) option" where
  "Close N watching = (if watching then Some (ml_Leave N, False) else None)"

subsection \<open>Ring, router and store stay in step\<close>

definition in_step :: "'r consistent_lib \<Rightarrow> 'r AccessController \<Rightarrow> bool" where
  "in_step L a \<longleftrightarrow>
     (\<forall>m. (\<exists>addr. GetClient (RPCRouter a) m = Inr (CheckServiceClient addr)) \<longleftrightarrow>
        m \<in> ring_members L (Hashring a) \<and> m \<noteq> server_id a)"

definition node_inv :: "'r consistent_lib \<Rightarrow> 'r AccessController \<Rightarrow> bool" where
  "node_inv L a \<longleftrightarrow> wf_peer_store (PeerStore a) \<and> wf_router (RPCRouter a) \<and> in_step L a"

lemma wf_mergeSnapshot: "wf_peer_store p \<Longrightarrow> wf_peer_store (mergeSnapshot E i ns x p)"
  by (simp add: mergeSnapshot_def wf_peer_store_Set split: sum.splits)

lemma fold_inv: "(\<And>x s. P s \<Longrightarrow> P (f x s)) \<Longrightarrow> P s \<Longrightarrow> P (fold f xs s)"
  by (induction xs arbitrary: s) auto

lemma wf_MergeRemoteState: "wf_peer_store (PeerStore a) \<Longrightarrow> wf_peer_store (PeerStore (MergeRemoteState E N buf a))"
  by (auto simp: MergeRemoteState_def split: sum.splits
      intro!: fold_inv [where P = wf_peer_store] wf_mergeSnapshot)

lemma MergeRemoteState_frame [simp]:
  "RPCRouter (MergeRemoteState E N buf a) = RPCRouter a" "Hashring (MergeRemoteState E N buf a) = Hashring a"
  "Configs (MergeRemoteState E N buf a) = Configs a"
  by (simp_all add: MergeRemoteState_def split: sum.splits)

lemma NotifyJoin_frame [simp]:
  "PeerStore (NotifyJoin L N m a) = PeerStore a" "Configs (NotifyJoin L N m a) = Configs a"
  by (simp_all add: NotifyJoin_def Let_def split: sum.splits option.splits)

lemma NotifyLeave_fields [simp]:
  "RPCRouter (NotifyLeave L m a) =
     (if mem_String m \<noteq> server_id a then RemoveClient (mem_String m) (RPCRouter a) else RPCRouter a)"
  "Hashring (NotifyLeave L m a) = ring_Remove L (mem_String m) (Hashring a)"
  "PeerStore (NotifyLeave L m a) = snd (DeleteNamespaceConfigSnapshots (mem_String m) (PeerStore a))"
  "Configs (NotifyLeave L m a) = Configs a"
  by (simp_all add: NotifyLeave_def Let_def)

lemma node_inv_Join:
  assumes "consistent_laws L" "node_inv L a"
  shows "node_inv L (NotifyJoin L N m a)"
  using assms
  by (auto simp: node_inv_def in_step_def NotifyJoin_def Let_def ring_members_ops [OF assms(1)] map_router.get_add
      split: sum.splits option.splits)

lemma node_inv_Leave:
  assumes "consistent_laws L" "node_inv L a"
  shows "node_inv L (NotifyLeave L m a)"
  using assms
  by (auto simp: node_inv_def in_step_def ring_members_ops [OF assms(1)] map_router.get_remove wf_peer_store_Delete)

lemma node_inv_Merge: "node_inv L a \<Longrightarrow> node_inv L (MergeRemoteState E N buf a)"
  by (simp add: node_inv_def in_step_def wf_MergeRemoteState)

lemma node_inv_event: "consistent_laws L \<Longrightarrow> node_inv L a \<Longrightarrow> node_inv L (on_event L E N e a)"
  by (cases e) (simp_all add: node_inv_Join node_inv_Leave node_inv_Merge NotifyUpdate_def NotifyMsg_def)

lemma Configs_event: "Configs (on_event L E N e a) = Configs a"
  by (cases e) (simp_all add: NotifyUpdate_def NotifyMsg_def)

lemma node_inv_store: "node_inv L a \<Longrightarrow> wf_peer_store p \<Longrightarrow> node_inv L (a\<lparr>PeerStore := p\<rparr>)"
  by (simp add: node_inv_def in_step_def)

lemma wf_setOwn: "wf_peer_store p \<Longrightarrow> wf_peer_store (snd (setOwn i e p))"
  by (simp add: setOwn_def wf_peer_store_Set)

text \<open>The two loops, one row at a time.\<close>

lemma watchChanges_rows:
  "watchChanges E i \<lparr>it_current = c, it_rest = []\<rparr> p = (Inr (), p)"
  "watchChanges E i \<lparr>it_current = c, it_rest = r # rs\<rparr> p =
     (case iterator_Value E \<lparr>it_current = Some r, it_rest = rs\<rparr> of
        Inl (Panic m) \<Rightarrow> (Inl (Panic m), p)
      | Inl _ \<Rightarrow> (Inr (), p)
      | Inr change \<Rightarrow>
          if is_change change then watchChanges E i \<lparr>it_current = Some r, it_rest = rs\<rparr> (snd (setOwn i change p))
          else (Inl unexpectedOperation, p))"
  by (subst watchChanges.simps, simp add: iterator_Next_def)+

lemma preloadChanges_rows:
  "preloadChanges E i \<lparr>it_current = c, it_rest = []\<rparr> p = (Inr (), p)"
  "preloadChanges E i \<lparr>it_current = c, it_rest = r # rs\<rparr> p =
     (case iterator_Value E \<lparr>it_current = Some r, it_rest = rs\<rparr> of
        Inl err \<Rightarrow> (Inl err, p)
      | Inr entry \<Rightarrow>
          if is_change entry then preloadChanges E i \<lparr>it_current = Some r, it_rest = rs\<rparr> (snd (setOwn i entry p))
          else (Inl unexpectedOperation, p))"
proof -
  have ok: "\<exists>p'. setOwn i e p = (Inr (), p')" for e
    by (simp add: setOwn_def SetNamespaceConfigSnapshot_def Let_def split: option.splits)
  show "preloadChanges E i \<lparr>it_current = c, it_rest = []\<rparr> p = (Inr (), p)"
    by (subst preloadChanges.simps, simp add: iterator_Next_def)
  show "preloadChanges E i \<lparr>it_current = c, it_rest = r # rs\<rparr> p =
     (case iterator_Value E \<lparr>it_current = Some r, it_rest = rs\<rparr> of
        Inl err \<Rightarrow> (Inl err, p)
      | Inr entry \<Rightarrow>
          if is_change entry then preloadChanges E i \<lparr>it_current = Some r, it_rest = rs\<rparr> (snd (setOwn i entry p))
          else (Inl unexpectedOperation, p))"
  proof (cases "iterator_Value E \<lparr>it_current = Some r, it_rest = rs\<rparr>")
    case (Inr entry)
    obtain p' where "setOwn i entry p = (Inr (), p')" using ok by blast
    with Inr show ?thesis by (subst preloadChanges.simps, simp add: iterator_Next_def)
  qed (subst preloadChanges.simps, simp add: iterator_Next_def)
qed

lemma wf_watchChanges: "wf_peer_store p \<Longrightarrow> wf_peer_store (snd (watchChanges E i it p))"
proof (cases it)
  case (fields c rows)
  show "wf_peer_store p \<Longrightarrow> ?thesis" unfolding fields
  proof (induction rows arbitrary: c p)
    case (Cons r rows)
    then show ?case unfolding watchChanges_rows by (simp add: wf_setOwn split: sum.split error.split)
  qed (simp add: watchChanges_rows)
qed

lemma wf_preloadChanges: "wf_peer_store p \<Longrightarrow> wf_peer_store (snd (preloadChanges E i it p))"
proof (cases it)
  case (fields c rows)
  show "wf_peer_store p \<Longrightarrow> ?thesis" unfolding fields
  proof (induction rows arbitrary: c p)
    case (Cons r rows)
    then show ?case unfolding preloadChanges_rows by (simp add: wf_setOwn split: sum.split)
  qed (simp add: preloadChanges_rows)
qed

lemma node_inv_watch:
  assumes "node_inv L a" "watchRound E N a w = (Inr a', w')"
  shows "node_inv L a' \<and> Configs a' = Configs a"
proof -
  obtain r0 w0 where retry: "retryTopChanges E 3 (backoff_retries N) w = (r0, w0)" by fastforce
  show ?thesis
  proof (cases r0)
    case (Inl err)
    with assms retry show ?thesis by (simp add: watchRound_def)
  next
    case (Inr it)
    obtain r p where p: "watchChanges E (server_id a) it (PeerStore a) = (r, p)" by fastforce
    have "wf_peer_store p"
      using wf_watchChanges [of "PeerStore a" E "server_id a" it] assms(1) p by (simp add: node_inv_def)
    moreover have "a' = a\<lparr>PeerStore := p\<rparr>"
      using assms(2) retry Inr p by (cases r) (simp_all add: watchRound_def)
    ultimately show ?thesis using node_inv_store [OF assms(1)] by simp
  qed
qed

subsection \<open>The nodes that can occur\<close>

text \<open>A node that came up, and then any sequence of callbacks and watch rounds.\<close>

inductive reachable_node :: "'r consistent_lib \<Rightarrow> net_env \<Rightarrow> NodeConfigs \<Rightarrow> 'r AccessController \<Rightarrow> bool"
  for L N cfg where
  started: "NewNamespaceManager E = Inr m \<Longrightarrow> NewAccessController L E N (ctrlOpts E m cfg) w = (Inr c, w') \<Longrightarrow>
    reachable_node L N cfg (ctl_node c)"
| notified: "reachable_node L N cfg a \<Longrightarrow> reachable_node L N cfg (on_event L E N e a)"
| watched: "reachable_node L N cfg a \<Longrightarrow> watchRound E N a w = (Inr a', w') \<Longrightarrow> reachable_node L N cfg a'"

lemma fold_events:
  "consistent_laws L \<Longrightarrow> node_inv L a \<Longrightarrow> node_inv L (fold (on_event L E N) es a) \<and> Configs (fold (on_event L E N) es a) = Configs a"
  by (induction es arbitrary: a) (simp_all add: node_inv_event Configs_event)

text \<open>What the constructor did when it succeeded: preload, then the events of the member list.\<close>

definition startup_events :: "net_env \<Rightarrow> NodeConfigs \<Rightarrow> cluster_event set" where
  "startup_events N cfg =
     (case ml_Create N (ServerID cfg) (Advertise cfg) (NodePort cfg) of Inl _ \<Rightarrow> {} | Inr events \<Rightarrow> set events)
     \<union> set (snd (snd (ml_Join N (strings_Split (CHR '','') (Join cfg)))))"

lemma Configs_events: "Configs (fold (on_event L E N) es a) = Configs a"
  by (induction es arbitrary: a) (simp_all add: Configs_event)

lemma joinCluster_Inr:
  assumes "joinCluster L E N a = Inr a'"
  obtains es where "a' = fold (on_event L E N) es a" "set es \<subseteq> startup_events N (Configs a)"
proof -
  obtain events where created: "ml_Create N (server_id a) (Advertise (Configs a)) (NodePort (Configs a)) = Inr events"
    using assms by (auto simp: joinCluster_def split: sum.splits)
  obtain n err events' where joined: "ml_Join N (strings_Split (CHR '','') (Join (Configs a))) = (n, err, events')"
    by (metis prod_cases3)
  have ev: "set events \<subseteq> startup_events N (Configs a)" "set (events @ events') \<subseteq> startup_events N (Configs a)"
    using created joined by (auto simp: startup_events_def)
  have "a' = fold (on_event L E N) events a \<or> a' = fold (on_event L E N) (events @ events') a"
    using assms created joined
    by (simp add: joinCluster_def Let_def Configs_events split: if_splits option.splits)
  with ev that show thesis by blast
qed

lemma New_Inr:
  assumes "NewNamespaceManager E = Inr m" "NewAccessController L E N (ctrlOpts E m cfg) w = (Inr c, w')"
  obtains it r p es where "TopChanges E 3 w = (Inr it, w')"
    "preloadChanges E (ServerID cfg) it NewInMemoryPeerNamespaceConfigStore = (r, p)"
    "ctl_node c = fold (on_event L E N) es \<lparr>RPCRouter = NewMapClientRouter, Hashring = NewConsistentHashring L None,
       PeerStore = p, Configs = cfg\<rparr>"
    "set es \<subseteq> startup_events N cfg"
    "ctl_RelationTupleStore c = Some (SQLStore E)" "ctl_NamespaceManager c = Some m"
proof -
  let ?a = "\<lambda>p. \<lparr>RPCRouter = NewMapClientRouter, Hashring = NewConsistentHashring L None, PeerStore = p, Configs = cfg\<rparr>"
  have m: "mgr_TopChanges m = TopChanges E" using assms(1) by (auto simp: NewNamespaceManager_def sqlNamespaceManager_def)
  obtain it where it: "TopChanges E 3 w = (Inr it, w')"
    using assms(2) by (auto simp: NewAccessController_def ctrlOpts_def WithStore_def WithNamespaceManager_def
        WithNodeConfigs_def new_controller_def Let_def m split: prod.splits sum.splits)
  obtain r p where p: "preloadChanges E (ServerID cfg) it NewInMemoryPeerNamespaceConfigStore = (r, p)" by fastforce
  have "joinCluster L E N (?a p) = Inr (ctl_node c)"
    and fields: "ctl_RelationTupleStore c = Some (SQLStore E)" "ctl_NamespaceManager c = Some m"
    using assms(2) it p by (auto simp: NewAccessController_def ctrlOpts_def WithStore_def WithNamespaceManager_def
        WithNodeConfigs_def new_controller_def Let_def m split: prod.splits sum.splits)
  from joinCluster_Inr [OF this(1)] that [OF it p _ _ fields] show thesis by (metis AccessController.select_convs(4))
qed

lemma node_inv_New:
  assumes laws: "consistent_laws L"
    and new: "NewNamespaceManager E = Inr m" "NewAccessController L E N (ctrlOpts E m cfg) w = (Inr c, w')"
  shows "node_inv L (ctl_node c) \<and> Configs (ctl_node c) = cfg"
  using new
proof (rule New_Inr)
  fix it r p es
  let ?ac = "\<lparr>RPCRouter = NewMapClientRouter, Hashring = NewConsistentHashring L None, PeerStore = p, Configs = cfg\<rparr>"
  assume p: "preloadChanges E (ServerID cfg) it NewInMemoryPeerNamespaceConfigStore = (r, p)"
    and a: "ctl_node c = fold (on_event L E N) es ?ac"
  have "wf_peer_store p"
    using wf_preloadChanges [of NewInMemoryPeerNamespaceConfigStore E "ServerID cfg" it] p by simp
  then have start: "node_inv L ?ac"
    by (simp add: node_inv_def in_step_def ring_members_ops [OF laws] map_router.get_new)
  from fold_events [OF laws start] show ?thesis unfolding a by simp
qed

lemma reachable_node_inv:
  assumes "consistent_laws L" "reachable_node L N cfg a"
  shows "node_inv L a \<and> Configs a = cfg"
  using assms(2)
proof (induction rule: reachable_node.induct)
  case (watched a E w a' w')
  with node_inv_watch [of L a E N w a' w'] show ?case by simp
qed (simp_all add: node_inv_New [OF assms(1)] node_inv_event [OF assms(1)] Configs_event)

subsection \<open>Exchanging snapshots\<close>

definition serialized_at :: "(string, (time, string) gomap) gomap \<Rightarrow> string \<Rightarrow> time \<Rightarrow> string option" where
  "serialized_at m ns t = (case map_of m ns of None \<Rightarrow> None | Some inner \<Rightarrow> map_of inner t)"

lemma serialized_at_Nil: "serialized_at [] ns t = None"
  by (simp add: serialized_at_def)

lemma serialized_at_add:
  "serialized_at (addSerialized ns t b m) ns' t' = (if ns' = ns \<and> t' = t then Some b else serialized_at m ns' t')"
  by (simp add: serialized_at_def addSerialized_def go_map split: option.splits)

lemma serialized_at_inner:
  "distinct (keys sn) \<Longrightarrow> serialized_at (fold (\<lambda>(t, c). addSerialized ns t (f c)) sn m) ns' t' =
     (if ns' = ns \<and> t' \<in> set (keys sn) then map_option f (map_of sn t') else serialized_at m ns' t')"
proof (induction sn arbitrary: m)
  case (Cons x sn)
  obtain t c where x: "x = (t, c)" by fastforce
  have "t \<notin> set (keys sn)" using Cons.prems x by simp
  then have "map_of sn t = None" by (simp add: map_of_eq_None_iff)
  with Cons x show ?case by (auto simp: serialized_at_add)
qed simp

lemma serialized_at_outer:
  "distinct (keys cfgs) \<Longrightarrow> \<forall>(ns, sn) \<in> set cfgs. distinct (keys sn) \<Longrightarrow>
   serialized_at (fold (\<lambda>(ns, sn). fold (\<lambda>(t, c). addSerialized ns t (f c)) sn) cfgs m) ns' t' =
     (case map_of cfgs ns' of
        Some sn \<Rightarrow> (case map_of sn t' of Some c \<Rightarrow> Some (f c) | None \<Rightarrow> serialized_at m ns' t')
      | None \<Rightarrow> serialized_at m ns' t')"
proof (induction cfgs arbitrary: m)
  case (Cons x cfgs)
  obtain ns sn where x: "x = (ns, sn)" by fastforce
  have "ns \<notin> set (keys cfgs)" "distinct (keys sn)" using Cons.prems x by auto
  then have ns: "map_of cfgs ns = None" "distinct (keys sn)" by (simp_all add: map_of_eq_None_iff)
  have "t' \<in> set (keys sn) \<longleftrightarrow> map_of sn t' \<noteq> None" by (rule keys_iff_map_of)
  with Cons ns x show ?case
    by (auto simp: serialized_at_inner [OF ns(2)] simp del: set_map split: option.splits)
qed simp

lemma serialized_at_configs:
  assumes "wf_peer_store p" "GetNamespaceConfigSnapshots p peer = Inr cfgs"
  shows "serialized_at (serializeConfigs E cfgs) ns t =
    map_option (\<lambda>c. sent (pj_Marshal E c)) (snapshot_at p peer ns t)"
proof (cases "map_of (configs p) peer")
  case None
  with assms(2) have "cfgs = []" by (simp add: GetNamespaceConfigSnapshots_def)
  with None show ?thesis by (simp add: serializeConfigs_def serialized_at_def snapshot_at_def snapshots_of_def)
next
  case (Some cs)
  with assms(2) have cs: "cfgs = cs" by (simp add: GetNamespaceConfigSnapshots_def)
  have "distinct (keys cs)" "\<forall>(ns, sn) \<in> set cs. distinct (keys sn)"
    using assms(1) map_of_SomeD [OF Some] unfolding wf_peer_store_def wf_snapshots_def by blast+
  from serialized_at_outer [OF this, of "\<lambda>c. sent (pj_Marshal E c)" "[]" ns t] Some show ?thesis
    unfolding serializeConfigs_def cs snapshot_at_def snapshots_of_def
    by (simp add: serialized_at_Nil split: option.splits)
qed

text \<open>What the JSON form of a message has to keep: its sender and every serialised snapshot.\<close>

definition meta_survives :: "net_env \<Rightarrow> NodeMetadata \<Rightarrow> bool" where
  "meta_survives N m \<longleftrightarrow>
     (\<exists>buf m'. json_Marshal N m = Inr buf \<and> json_Unmarshal N buf = Inr m'
       \<and> meta_NodeID m' = meta_NodeID m \<and> meta_ServerPort m' = meta_ServerPort m
       \<and> distinct (keys (meta_NamespaceConfigSnapshots m'))
       \<and> (\<forall>(ns, sn) \<in> set (meta_NamespaceConfigSnapshots m'). distinct (keys sn))
       \<and> (\<forall>ns t. serialized_at (meta_NamespaceConfigSnapshots m') ns t = serialized_at (meta_NamespaceConfigSnapshots m) ns t))"

definition received :: "sql_env \<Rightarrow> string option \<Rightarrow> NamespaceConfig option" where
  "received E b = (case b of None \<Rightarrow> None | Some bytes \<Rightarrow> (case pj_Unmarshal E bytes of Inl _ \<Rightarrow> None | Inr c \<Rightarrow> Some c))"

definition override :: "'a option \<Rightarrow> 'a option \<Rightarrow> 'a option" where
  "override new old = (case new of None \<Rightarrow> old | Some x \<Rightarrow> Some x)"

lemma merge_inner:
  "distinct (keys sn) \<Longrightarrow> \<forall>t \<in> set (keys sn). utc_time t \<Longrightarrow>
   snapshot_at (fold (mergeSnapshot E i ns) sn p) peer ns' t' =
     (if peer = i \<and> ns' = ns then override (received E (map_of sn t')) (snapshot_at p peer ns' t')
      else snapshot_at p peer ns' t')"
proof (induction sn arbitrary: p)
  case Nil
  show ?case by (simp add: override_def received_def)
next
  case (Cons x sn)
  obtain t b where x: "x = (t, b)" by fastforce
  have t: "map_of sn t = None" "utc_time t" using Cons.prems x by (auto simp: map_of_eq_None_iff)
  have "snapshot_at (mergeSnapshot E i ns x p) peer ns' t' =
      (if peer = i \<and> ns' = ns \<and> t' = t then override (received E (Some b)) (snapshot_at p peer ns' t')
       else snapshot_at p peer ns' t')"
    by (simp add: x mergeSnapshot_def snapshot_at_Set normalise_utc_time [OF t(2)] override_def received_def split: sum.splits)
  with Cons t x show ?case by (auto simp: override_def received_def split: option.splits)
qed

lemma merge_outer:
  "distinct (keys m) \<Longrightarrow> \<forall>(ns, sn) \<in> set m. distinct (keys sn) \<and> (\<forall>t \<in> set (keys sn). utc_time t) \<Longrightarrow>
   snapshot_at (fold (\<lambda>(ns, sn). fold (mergeSnapshot E i ns) sn) m p) peer ns' t' =
     (if peer = i then override (received E (serialized_at m ns' t')) (snapshot_at p peer ns' t')
      else snapshot_at p peer ns' t')"
proof (induction m arbitrary: p)
  case Nil
  show ?case by (simp add: override_def received_def serialized_at_def)
next
  case (Cons x m)
  obtain ns sn where x: "x = (ns, sn)" by fastforce
  have ns: "map_of m ns = None" "distinct (keys sn)" "\<forall>t \<in> set (keys sn). utc_time t"
    using Cons.prems x by (auto simp: map_of_eq_None_iff)
  have IH: "snapshot_at (fold (\<lambda>(ns, sn). fold (mergeSnapshot E i ns) sn) m p') peer ns' t' =
     (if peer = i then override (received E (serialized_at m ns' t')) (snapshot_at p' peer ns' t')
      else snapshot_at p' peer ns' t')" for p'
    using Cons.IH Cons.prems by simp
  show ?case
    using ns(1) by (auto simp: x IH merge_inner [OF ns(2,3)] override_def received_def serialized_at_def split: option.splits)
qed

definition pj_survives :: "sql_env \<Rightarrow> NamespaceConfig \<Rightarrow> bool" where
  "pj_survives E c \<longleftrightarrow> (\<exists>j. pj_Marshal E c = Inr j \<and> pj_Unmarshal E j = Inr c)"

lemma gossip_snapshots:
  assumes wf: "wf_peer_store (PeerStore a)"
    and cfgs: "GetNamespaceConfigSnapshots (PeerStore a) (server_id a) = Inr cfgs"
    and meta: "meta_survives N \<lparr>meta_NodeID = server_id a, meta_ServerPort = ServerPort (Configs a),
      meta_NamespaceConfigSnapshots = serializeConfigs E cfgs\<rparr>"
    and pj: "\<forall>ns t c. snapshot_at (PeerStore a) (server_id a) ns t = Some c \<longrightarrow> pj_survives E c"
    and buf: "LocalState E N join a = Inr buf"
  shows "snapshot_at (PeerStore (MergeRemoteState E N buf b)) peer ns t =
    (if peer = server_id a then override (snapshot_at (PeerStore a) peer ns t) (snapshot_at (PeerStore b) peer ns t)
     else snapshot_at (PeerStore b) peer ns t)"
proof -
  let ?m = "serializeConfigs E cfgs"
  obtain buf' m' where m': "json_Marshal N \<lparr>meta_NodeID = server_id a, meta_ServerPort = ServerPort (Configs a),
      meta_NamespaceConfigSnapshots = ?m\<rparr> = Inr buf'" "json_Unmarshal N buf' = Inr m'"
    "meta_NodeID m' = server_id a" "distinct (keys (meta_NamespaceConfigSnapshots m'))"
    "\<forall>(ns, sn) \<in> set (meta_NamespaceConfigSnapshots m'). distinct (keys sn)"
    "\<forall>ns t. serialized_at (meta_NamespaceConfigSnapshots m') ns t = serialized_at ?m ns t"
    using meta unfolding meta_survives_def NodeMetadata.simps by blast
  have "buf' = buf" using buf cfgs m'(1) by (simp add: LocalState_def sent_def)
  with m' obtain st where st: "json_Unmarshal N buf = Inr st" "meta_NodeID st = server_id a"
    "distinct (keys (meta_NamespaceConfigSnapshots st))"
    "\<forall>(ns, sn) \<in> set (meta_NamespaceConfigSnapshots st). distinct (keys sn)"
    "\<And>ns t. serialized_at (meta_NamespaceConfigSnapshots st) ns t = serialized_at ?m ns t"
    by blast
  have at: "serialized_at (meta_NamespaceConfigSnapshots st) ns t =
      map_option (\<lambda>c. sent (pj_Marshal E c)) (snapshot_at (PeerStore a) (server_id a) ns t)" for ns t
    unfolding st(5) by (rule serialized_at_configs [OF wf cfgs])
  have "utc_time t" if "(ns, sn) \<in> set (meta_NamespaceConfigSnapshots st)" "t \<in> set (keys sn)" for ns sn t
  proof -
    have "map_of (meta_NamespaceConfigSnapshots st) ns = Some sn" using st(3) that(1) by simp
    moreover have "map_of sn t \<noteq> None" using that(2) unfolding keys_iff_map_of .
    ultimately have "snapshot_at (PeerStore a) (server_id a) ns t \<noteq> None"
      using at [of ns t] by (auto simp: serialized_at_def)
    then have "t \<in> set (keys (snapshots_of (PeerStore a) (server_id a) ns))"
      unfolding snapshot_at_def keys_iff_map_of .
    with wf_snapshots_of [OF wf, of "server_id a" ns] show ?thesis unfolding wf_snapshots_def by blast
  qed
  with st(4) have keys: "\<forall>(ns, sn) \<in> set (meta_NamespaceConfigSnapshots st). distinct (keys sn) \<and> (\<forall>t \<in> set (keys sn). utc_time t)"
    by blast
  have "received E (serialized_at (meta_NamespaceConfigSnapshots st) ns t) = snapshot_at (PeerStore a) (server_id a) ns t"
  proof (cases "snapshot_at (PeerStore a) (server_id a) ns t")
    case (Some c)
    then obtain j where "pj_Marshal E c = Inr j" "pj_Unmarshal E j = Inr c" using pj unfolding pj_survives_def by blast
    with Some show ?thesis unfolding at by (simp add: received_def sent_def)
  qed (simp add: at received_def)
  then show ?thesis by (simp add: MergeRemoteState_def st(1,2) merge_outer [OF st(3) keys])
qed

subsection \<open>What a watch round loads\<close>

definition readable_change :: "sql_env \<Rightarrow> ns_change_row \<Rightarrow> bool" where
  "readable_change E r \<longleftrightarrow> (nscl_operation r = ''ADD'' \<or> nscl_operation r = ''UPDATE'') \<and> is_ok (pj_Unmarshal E (nscl_config r))"

definition change_config :: "sql_env \<Rightarrow> ns_change_row \<Rightarrow> NamespaceConfig" where
  "change_config E r = projr (pj_Unmarshal E (nscl_config r))"

definition load_change :: "sql_env \<Rightarrow> string \<Rightarrow> ns_change_row \<Rightarrow> inmemPeerNamespaceConfigStore \<Rightarrow> inmemPeerNamespaceConfigStore" where
  "load_change E i r p = snd (SetNamespaceConfigSnapshot i (nscl_namespace r) (change_config E r)
     \<lparr>wall = nscl_timestamp r, mono = None, loc = row_location E\<rparr> p)"

lemma watchChanges_load:
  "\<forall>r \<in> set rows. readable_change E r \<Longrightarrow>
     watchChanges E i \<lparr>it_current = c, it_rest = rows\<rparr> p = (Inr (), fold (load_change E i) rows p)"
proof (induction rows arbitrary: c p)
  case (Cons r rows)
  then have r: "readable_change E r" by simp
  then obtain cfg where cfg: "pj_Unmarshal E (nscl_config r) = Inr cfg" by (auto simp: readable_change_def elim: is_okE)
  define entry where "entry = \<lparr>entry_Namespace = nscl_namespace r,
      entry_Operation = (if nscl_operation r = ''ADD'' then AddNamespace else UpdateNamespace),
      entry_Config = cfg, entry_Timestamp = \<lparr>wall = nscl_timestamp r, mono = None, loc = row_location E\<rparr>\<rparr>"
  have "iterator_Value E \<lparr>it_current = Some r, it_rest = rows\<rparr> = Inr entry"
    using r cfg by (simp add: iterator_Value_def readable_change_def entry_def)
  moreover have "is_change entry" by (simp add: is_change_def entry_def)
  moreover have "snd (setOwn i entry p) = load_change E i r p"
    by (simp add: setOwn_def load_change_def change_config_def cfg entry_def)
  ultimately show ?case using Cons by (simp add: watchChanges_rows)
qed (simp add: watchChanges_rows)

lemma utc_of_row: "time_UTC (time_Round0 \<lparr>wall = n, mono = None, loc = l\<rparr>) = utc n"
  by (simp add: time_UTC_def time_Round0_def utc_def)

lemma snapshot_at_load:
  "snapshot_at (load_change E i r p) peer ns t =
     (if peer = i \<and> ns = nscl_namespace r \<and> t = utc (nscl_timestamp r) then Some (change_config E r)
      else snapshot_at p peer ns t)"
  by (simp add: load_change_def snapshot_at_Set utc_of_row)

lemma loaded_frame:
  "snapshot_at (fold (load_change E i) rows p) peer ns t \<noteq> snapshot_at p peer ns t \<Longrightarrow>
     peer = i \<and> (\<exists>r \<in> set rows. ns = nscl_namespace r \<and> t = utc (nscl_timestamp r))"
proof (induction rows rule: rev_induct)
  case (snoc r rows)
  then show ?case by (auto simp: snapshot_at_load split: if_splits)
qed simp

definition change_key :: "ns_change_row \<Rightarrow> string \<times> int" where
  "change_key r = (nscl_namespace r, nscl_timestamp r)"

lemma loaded_change:
  "inj_on change_key (set rows) \<Longrightarrow> r \<in> set rows \<Longrightarrow>
     snapshot_at (fold (load_change E i) rows p) i (nscl_namespace r) (utc (nscl_timestamp r)) = Some (change_config E r)"
proof (induction rows rule: rev_induct)
  case (snoc q rows)
  show ?case
  proof (cases "change_key q = change_key r")
    case True
    with snoc.prems have "q = r" by (auto dest: inj_onD)
    then show ?thesis by (simp add: snapshot_at_load)
  next
    case False
    with snoc show ?thesis by (auto simp: snapshot_at_load change_key_def utc_def inj_on_def)
  qed
qed simp

text \<open>The changes that are newest: fewer than \<open>n\<close> later ones in their namespace.\<close>

definition newest_changes :: "nat \<Rightarrow> db \<Rightarrow> ns_change_row set" where
  "newest_changes n d = {r \<in> set (tbl_ns_changelog d).
     card {s \<in> nscl_timestamp ` {q \<in> set (tbl_ns_changelog d). nscl_namespace q = nscl_namespace r}. nscl_timestamp r < s} < n}"

definition dated_changes :: "db \<Rightarrow> bool" where
  "dated_changes d \<longleftrightarrow> (\<forall>ns. distinct (map nscl_timestamp (filter (\<lambda>r. nscl_namespace r = ns) (tbl_ns_changelog d))))"

lemma change_key_inj: "dated_changes d \<Longrightarrow> inj_on change_key (set (tbl_ns_changelog d))"
proof (rule inj_onI)
  fix q r
  assume d: "dated_changes d" and mem: "q \<in> set (tbl_ns_changelog d)" "r \<in> set (tbl_ns_changelog d)" "change_key q = change_key r"
  let ?rows = "filter (\<lambda>x. nscl_namespace x = nscl_namespace r) (tbl_ns_changelog d)"
  have "inj_on nscl_timestamp (set ?rows)" using d unfolding dated_changes_def distinct_map by blast
  moreover have "q \<in> set ?rows" "r \<in> set ?rows" using mem by (auto simp: change_key_def)
  ultimately show "q = r" using mem(3) by (auto simp: change_key_def dest: inj_onD)
qed

lemma retryTopChanges_ok:
  assumes "faultless E"
  shows "retryTopChanges E n k w = TopChanges E n w"
  using assms by (cases k) (simp_all add: TopChanges_def db_Query_def faultless_def)

lemma watchRound_load:
  assumes E: "faultless E" "\<forall>n. cut E n = None" and d: "dated_changes (w_db w)"
    and rows: "\<forall>r \<in> newest_changes 3 (w_db w). readable_change E r"
  obtains rs w' where "watchRound E N a w = (Inr (a\<lparr>PeerStore := fold (load_change E (server_id a)) rs (PeerStore a)\<rparr>), w')"
    "set rs = newest_changes 3 (w_db w)" "inj_on change_key (set rs)"
proof -
  obtain it w' where it: "TopChanges E 3 w = (Inr it, w')"
    using E(1) by (simp add: TopChanges_def db_Query_def faultless_def)
  have cur: "it = \<lparr>it_current = None, it_rest = it_rest it\<rparr>"
    using it by (auto simp: TopChanges_def db_Query_def split: option.splits)
  have set: "set (it_rest it) = newest_changes 3 (w_db w)"
    unfolding newest_changes_def
    by (rule conjunct1 [OF TopChanges_rows [OF it]]) (use E(2) d in \<open>simp_all add: dated_changes_def\<close>)
  have "watchChanges E (server_id a) it (PeerStore a) = (Inr (), fold (load_change E (server_id a)) (it_rest it) (PeerStore a))"
    by (subst cur, rule watchChanges_load) (simp add: set rows)
  then have "watchRound E N a w = (Inr (a\<lparr>PeerStore := fold (load_change E (server_id a)) (it_rest it) (PeerStore a)\<rparr>), w')"
    by (simp add: watchRound_def retryTopChanges_ok [OF E(1)] it)
  moreover have "inj_on change_key (set (it_rest it))"
    unfolding set by (rule inj_on_subset [OF change_key_inj [OF d]]) (auto simp: newest_changes_def)
  ultimately show thesis using that set by blast
qed

subsection \<open>A peer that does not know a namespace\<close>

lemma choose_unaware:
  assumes "wf_peer_store p" "peer \<in> known_peers p" "snapshots_of p peer ns = []"
  shows "chooseNamespaceConfigSnapshot p ns = Inl ErrNoLocalNamespacesDefined"
proof -
  obtain m where m: "ListNamespaceConfigSnapshots p ns = Inr m" by (simp add: ListNamespaceConfigSnapshots_def)
  have "map_of m peer = Some []" using ListNamespaceConfigSnapshots_eq [OF m, of peer] assms(2,3) by simp
  then have mem: "(peer, []) \<in> set m" by (rule map_of_SomeD)
  obtain l q s where min: "minPeer m MaxInt32 '''' [] = (l, q, s)" by (metis prod_cases3)
  from minPeer_spec [OF min] mem have "s = []" by (auto simp: MaxInt32_def)
  with m min mem show ?thesis
    by (auto simp: chooseNamespaceConfigSnapshot_def commonTimestamps_def Let_def)
qed

lemma known_peers_merge:
  "known_peers (fold (mergeSnapshot E i ns) sn p) =
     (if \<exists>x \<in> set sn. is_ok (pj_Unmarshal E (snd x)) then insert i (known_peers p) else known_peers p)"
proof (induction sn arbitrary: p)
  case (Cons x sn)
  then show ?case by (cases "pj_Unmarshal E (snd x)") (auto simp: mergeSnapshot_def)
qed simp

lemma known_peers_merge_all:
  assumes "(ns, sn) \<in> set m" "x \<in> set sn" "is_ok (pj_Unmarshal E (snd x))"
  shows "i \<in> known_peers (fold (\<lambda>(ns, sn). fold (mergeSnapshot E i ns) sn) m p)"
  using assms
proof (induction m arbitrary: p)
  case (Cons y m)
  have keep: "i \<in> known_peers q \<Longrightarrow> i \<in> known_peers (fold (\<lambda>(ns, sn). fold (mergeSnapshot E i ns) sn) m q)" for q
    by (rule fold_inv [where P = "\<lambda>q. i \<in> known_peers q"]) (auto simp: known_peers_merge)
  show ?case
  proof (cases "y = (ns, sn)")
    case True
    have "i \<in> known_peers (fold (mergeSnapshot E i ns) sn p)"
      using Cons.prems(2,3) by (auto simp: known_peers_merge)
    from keep [OF this] True show ?thesis by simp
  next
    case False
    with Cons show ?thesis by simp
  qed
qed simp

lemma merge_other_namespace:
  "ns \<notin> set (keys m) \<Longrightarrow> snapshots_of (fold (\<lambda>(ns, sn). fold (mergeSnapshot E i ns) sn) m p) peer ns = snapshots_of p peer ns"
proof (induction m arbitrary: p)
  case (Cons y m)
  obtain ns' sn where y: "y = (ns', sn)" by fastforce
  have "snapshots_of (fold (mergeSnapshot E i ns') sn p) peer ns = snapshots_of p peer ns"
    by (rule fold_inv [where P = "\<lambda>q. snapshots_of q peer ns = snapshots_of p peer ns"])
      (use Cons.prems y in \<open>auto simp: mergeSnapshot_def snapshots_of_Set split: sum.splits\<close>)
  with Cons y show ?case by simp
qed simp

subsection \<open>A small network\<close>

text \<open>
  A network for concrete runs: the JSON codec knows the messages of a table, every dial succeeds, and
  creating the member list reports the node itself.
\<close>

definition table_net :: "(NodeMetadata \<times> string) list \<Rightarrow> net_env" where
  "table_net table =
     \<lparr>json_Marshal = (\<lambda>m. case map_of table m of Some j \<Rightarrow> Inr j | None \<Rightarrow> Inl (ErrLibrary ''json'')),
      json_Unmarshal = (\<lambda>j. case map_of (map prod.swap table) j of Some m \<Rightarrow> Inr m | None \<Rightarrow> Inl (ErrLibrary ''json'')),
      grpc_Dial = (\<lambda>_. None),
      ml_Create = (\<lambda>name adv port. Inr [MemberJoins \<lparr>mem_String = name, mem_Addr = ''10.0.0.1'', mem_Meta = ''''\<rparr>]),
      ml_Join = (\<lambda>_. (0, None, [])), ml_Leave = None, backoff_retries = 0\<rparr>"

definition cfg_n1 :: NodeConfigs where
  "cfg_n1 = \<lparr>ServerID = ''n1'', Advertise = '''', Join = '''', NodePort = 7946, ServerPort = 50052\<rparr>"

definition port_meta :: NodeMetadata where
  "port_meta = \<lparr>meta_NodeID = '''', meta_ServerPort = 50052, meta_NamespaceConfigSnapshots = []\<rparr>"

definition peer_n2 :: member where
  "peer_n2 = \<lparr>mem_String = ''n2'', mem_Addr = ''10.0.0.2'', mem_Meta = ''port''\<rparr>"

definition node_n1 :: "inmemPeerNamespaceConfigStore \<Rightarrow> string list AccessController" where
  "node_n1 p = \<lparr>RPCRouter = NewMapClientRouter, Hashring = \<lparr>ring = [''n1'']\<rparr>, PeerStore = p, Configs = cfg_n1\<rparr>"

definition fresh_node :: "NodeConfigs \<Rightarrow> string list AccessController" where
  "fresh_node cfg = \<lparr>RPCRouter = NewMapClientRouter, Hashring = \<lparr>ring = [ServerID cfg]\<rparr>,
     PeerStore = NewInMemoryPeerNamespaceConfigStore, Configs = cfg\<rparr>"

lemma fresh_starts:
  assumes "tbl_ns_changelog (w_db w) = []" "Join cfg = ''''"
  shows "\<exists>c w'. NewAccessController list_ring (plain_env cfgs) (table_net table)
      (ctrlOpts (plain_env cfgs) (sqlNamespaceManager (plain_env cfgs)) cfg) w = (Inr c, w')
    \<and> ctl_node c = fresh_node cfg \<and> w_db w' = w_db w"
proof -
  obtain w' where top: "TopChanges (plain_env cfgs) 3 w = (Inr \<lparr>it_current = None, it_rest = []\<rparr>, w')" "w_db w' = w_db w"
    using assms by (simp add: TopChanges_def db_Query_def plain_env_def)
  have "joinCluster list_ring (plain_env cfgs) (table_net table) \<lparr>RPCRouter = NewMapClientRouter,
      Hashring = NewConsistentHashring list_ring None, PeerStore = NewInMemoryPeerNamespaceConfigStore, Configs = cfg\<rparr> =
      Inr (fresh_node cfg)"
    using assms(2) by (simp add: joinCluster_def table_net_def Let_def NotifyJoin_def fresh_node_def
        ring_Add_def NewConsistentHashring_def list_ring_def)
  with top show ?thesis
    by (simp add: NewAccessController_def ctrlOpts_def WithStore_def WithNamespaceManager_def WithNodeConfigs_def
        new_controller_def sqlNamespaceManager_def preloadChanges_rows)
qed

lemma n1_starts:
  assumes "tbl_ns_changelog d = []"
  shows "\<exists>c w'. NewAccessController list_ring (plain_env cfgs) (table_net table)
      (ctrlOpts (plain_env cfgs) (sqlNamespaceManager (plain_env cfgs)) cfg_n1) (session d) = (Inr c, w')
    \<and> ctl_node c = node_n1 NewInMemoryPeerNamespaceConfigStore \<and> w_db w' = d"
  using fresh_starts [of "session d" cfg_n1 cfgs table] assms
  by (simp add: session_def fresh_node_def node_n1_def cfg_n1_def)

lemma fmt_50052: "fmt_d 50052 = ''50052''"
  by code_simp

definition cluster_n1 :: "string list AccessController" where
  "cluster_n1 = on_event list_ring (plain_env []) (table_net [(port_meta, ''port'')]) (MemberJoins peer_n2)
     (node_n1 NewInMemoryPeerNamespaceConfigStore)"

lemma cluster_n1_reachable: "reachable_node list_ring (table_net [(port_meta, ''port'')]) cfg_n1 cluster_n1"
proof -
  obtain c w' where c: "NewAccessController list_ring (plain_env []) (table_net [(port_meta, ''port'')])
      (ctrlOpts (plain_env []) (sqlNamespaceManager (plain_env [])) cfg_n1) (session empty_db) = (Inr c, w')"
    "ctl_node c = node_n1 NewInMemoryPeerNamespaceConfigStore"
    using n1_starts [of empty_db "[]" "[(port_meta, ''port'')]"] by (auto simp: empty_db_def)
  from notified [OF started [OF NewNamespaceManager_def c(1)]] show ?thesis
    unfolding cluster_n1_def c(2) .
qed

lemma cluster_n1_eq:
  "cluster_n1 = (node_n1 NewInMemoryPeerNamespaceConfigStore)\<lparr>
     RPCRouter := AddClient ''n2'' (CheckServiceClient ''10.0.0.2:50052'') NewMapClientRouter,
     Hashring := \<lparr>ring = [''n2'', ''n1'']\<rparr>\<rparr>"
  by (simp add: cluster_n1_def NotifyJoin_def Let_def peer_n2_def node_n1_def cfg_n1_def table_net_def port_meta_def
      fmt_50052 ring_Add_def list_ring_def)

subsection \<open>Properties\<close>

text \<open>In every state a node can reach (after it came up, through any sequence of joins, leaves,
  remote states, updates and watch rounds, including callbacks that fail), the store of snapshots is
  well formed and the owner that the hash ring names for a key is the node itself or a peer whose RPC
  client the router has: a check is never sent to a member that cannot be called.\<close>

theorem owner_is_reachable:
  assumes "consistent_laws L" "reachable_node L N cfg a" "ring_LocateKey L (Hashring a) key = Some m"
  shows "wf_peer_store (PeerStore a) \<and>
    (m = ServerID cfg \<or> (\<exists>addr. GetClient (RPCRouter a) m = Inr (CheckServiceClient addr)))"
proof -
  have "node_inv L a" "Configs a = cfg" using reachable_node_inv [OF assms(1,2)] by simp_all
  moreover have "m \<in> ring_members L (Hashring a)" by (rule ring_LocateKey_member [OF assms(1,3)])
  ultimately show ?thesis unfolding node_inv_def in_step_def by blast
qed

theorem owner_is_reachable_witness:
  "ring_LocateKey list_ring (Hashring cluster_n1) ''readme'' = Some ''n2'' \<and>
   (\<exists>addr. GetClient (RPCRouter cluster_n1) ''n2'' = Inr (CheckServiceClient addr))"
proof -
  have owner: "ring_LocateKey list_ring (Hashring cluster_n1) ''readme'' = Some ''n2''"
    by (simp add: cluster_n1_eq ring_LocateKey_def list_ring_def)
  from owner_is_reachable [OF list_ring_laws cluster_n1_reachable owner] owner show ?thesis by (simp add: cfg_n1_def)
qed

text \<open>A state exchange carries over every snapshot: after a node merged what \<open>LocalState\<close> of another
  sent, it has exactly the sender's own snapshots for the sender (and keeps the ones the sender no
  longer has), and its view of all other peers is unchanged, provided the JSON and the protobuf forms
  can be read back.\<close>

theorem gossip_roundtrip:
  assumes "wf_peer_store (PeerStore a)" "GetNamespaceConfigSnapshots (PeerStore a) (server_id a) = Inr cfgs"
    and "meta_survives N \<lparr>meta_NodeID = server_id a, meta_ServerPort = ServerPort (Configs a),
      meta_NamespaceConfigSnapshots = serializeConfigs E cfgs\<rparr>"
    and "\<forall>ns t c. snapshot_at (PeerStore a) (server_id a) ns t = Some c \<longrightarrow> pj_survives E c"
    and "LocalState E N join a = Inr buf"
  shows "snapshot_at (PeerStore (MergeRemoteState E N buf b)) peer ns t =
    (if peer = server_id a then override (snapshot_at (PeerStore a) peer ns t) (snapshot_at (PeerStore b) peer ns t)
     else snapshot_at (PeerStore b) peer ns t)"
  by (rule gossip_snapshots [OF assms])

definition docs_meta :: NodeMetadata where
  "docs_meta = \<lparr>meta_NodeID = ''n1'', meta_ServerPort = 50052,
     meta_NamespaceConfigSnapshots = [(''docs'', [(utc 1, ''docs-json'')])]\<rparr>"

theorem gossip_roundtrip_witness:
  "snapshot_at (PeerStore (MergeRemoteState (plain_env [(cfg_docs, ''docs-json'')]) (table_net [(docs_meta, ''state'')]) ''state''
     (team_node ''n2''))) ''n1'' ''docs'' (utc 1) = Some cfg_docs"
proof -
  let ?E = "plain_env [(cfg_docs, ''docs-json'')]" and ?N = "table_net [(docs_meta, ''state'')]"
  let ?a = "node_n1 (store_of [(''n1'', ''docs'', cfg_docs, utc 1)])"
  have id: "server_id ?a = ''n1''" "ServerPort (Configs ?a) = 50052" by (simp_all add: node_n1_def cfg_n1_def)
  have wf: "wf_peer_store (PeerStore ?a)" by (simp add: node_n1_def)
  have cfgs: "GetNamespaceConfigSnapshots (PeerStore ?a) (server_id ?a) = Inr [(''docs'', [(utc 1, cfg_docs)])]"
    unfolding id by (simp add: GetNamespaceConfigSnapshots_def node_n1_def store_eval)
  have ser: "serializeConfigs ?E [(''docs'', [(utc 1, cfg_docs)])] = [(''docs'', [(utc 1, ''docs-json'')])]"
    by (simp add: serializeConfigs_def addSerialized_def sent_def plain_env_def)
  have meta: "\<lparr>meta_NodeID = server_id ?a, meta_ServerPort = ServerPort (Configs ?a),
      meta_NamespaceConfigSnapshots = serializeConfigs ?E [(''docs'', [(utc 1, cfg_docs)])]\<rparr> = docs_meta"
    by (simp add: id ser docs_meta_def)
  have survives: "meta_survives ?N docs_meta"
    by (simp add: meta_survives_def table_net_def) (simp add: docs_meta_def)
  have at: "snapshot_at (PeerStore ?a) ''n1'' ''docs'' (utc 1) = Some cfg_docs"
    by (simp add: node_n1_def store_eval)
  have pj: "\<forall>ns t c. snapshot_at (PeerStore ?a) (server_id ?a) ns t = Some c \<longrightarrow> pj_survives ?E c"
    unfolding id by (auto simp: node_n1_def store_eval pj_survives_def plain_env_def split: if_splits)
  have buf: "LocalState ?E ?N True ?a = Inr ''state''"
    unfolding LocalState_def cfgs by (simp add: meta) (simp add: table_net_def sent_def)
  from gossip_roundtrip [OF wf cfgs _ pj buf, of "team_node ''n2''" "''n1''" "''docs''" "utc 1"] survives meta at
  show ?thesis by (simp add: id override_def)
qed

text \<open>A watch round without faults loads the three newest changes of every namespace: for each of
  them the node has its configuration under its own id at the time of the change, and nothing else
  in the store is different.\<close>

theorem watch_round_loads:
  assumes "faultless E" "\<forall>n. cut E n = None" "dated_changes (w_db w)"
    and "\<forall>r \<in> newest_changes 3 (w_db w). readable_change E r"
  shows "\<exists>a' w'. watchRound E N a w = (Inr a', w')
    \<and> (\<forall>r \<in> newest_changes 3 (w_db w).
         snapshot_at (PeerStore a') (server_id a) (nscl_namespace r) (utc (nscl_timestamp r)) = Some (change_config E r))
    \<and> (\<forall>peer ns t. snapshot_at (PeerStore a') peer ns t \<noteq> snapshot_at (PeerStore a) peer ns t \<longrightarrow>
         peer = server_id a \<and> (\<exists>r \<in> newest_changes 3 (w_db w). ns = nscl_namespace r \<and> t = utc (nscl_timestamp r)))"
proof -
  obtain rs w' where rs: "watchRound E N a w = (Inr (a\<lparr>PeerStore := fold (load_change E (server_id a)) rs (PeerStore a)\<rparr>), w')"
    "set rs = newest_changes 3 (w_db w)" "inj_on change_key (set rs)"
    by (rule watchRound_load [OF assms])
  let ?a' = "a\<lparr>PeerStore := fold (load_change E (server_id a)) rs (PeerStore a)\<rparr>"
  have "\<forall>r \<in> newest_changes 3 (w_db w).
      snapshot_at (PeerStore ?a') (server_id a) (nscl_namespace r) (utc (nscl_timestamp r)) = Some (change_config E r)"
    using loaded_change [OF rs(3)] rs(2) by simp
  moreover have "\<forall>peer ns t. snapshot_at (PeerStore ?a') peer ns t \<noteq> snapshot_at (PeerStore a) peer ns t \<longrightarrow>
      peer = server_id a \<and> (\<exists>r \<in> newest_changes 3 (w_db w). ns = nscl_namespace r \<and> t = utc (nscl_timestamp r))"
    using loaded_frame [of E "server_id a" rs "PeerStore a"] rs(2) by simp
  ultimately show ?thesis using rs(1) by blast
qed

definition docs_change :: ns_change_row where
  "docs_change = \<lparr>nscl_namespace = ''docs'', nscl_operation = ''ADD'', nscl_config = ''docs-json'', nscl_timestamp = 5\<rparr>"

lemma only_change:
  assumes "tbl_ns_changelog d = [r]"
  shows "newest_changes 3 d = {r}"
proof -
  have "{s \<in> nscl_timestamp ` {q. q = r \<and> nscl_namespace q = nscl_namespace r}. nscl_timestamp r < s} = {}" by auto
  then show ?thesis unfolding newest_changes_def by (auto simp: assms simp del: Collect_empty_eq)
qed

theorem watch_round_loads_witness:
  "\<exists>a' w'. watchRound (plain_env [(cfg_docs, ''docs-json'')]) (table_net []) (team_node ''n2'')
      (session (empty_db\<lparr>tbl_ns_changelog := [docs_change]\<rparr>)) = (Inr a', w')
    \<and> snapshot_at (PeerStore a') ''n2'' ''docs'' (utc 5) = Some cfg_docs"
proof -
  let ?E = "plain_env [(cfg_docs, ''docs-json'')]" and ?w = "session (empty_db\<lparr>tbl_ns_changelog := [docs_change]\<rparr>)"
  have newest: "newest_changes 3 (w_db ?w) = {docs_change}" by (rule only_change) (simp add: session_def)
  have ok: "faultless ?E" "\<forall>n. cut ?E n = None" "dated_changes (w_db ?w)"
    by (simp_all add: faultless_def plain_env_def dated_changes_def session_def)
  have readable: "\<forall>r \<in> newest_changes 3 (w_db ?w). readable_change ?E r"
    unfolding newest by (simp add: readable_change_def docs_change_def plain_env_def)
  from watch_round_loads [OF ok readable, of "table_net []" "team_node ''n2''"]
  show ?thesis unfolding newest
    by (auto simp: team_node_def docs_change_def change_config_def plain_env_def)
qed

text \<open>C23: a remote state is merged without asking whether its sender is still a member: if the state of a
  node that has left arrives late, the node is back in the store of snapshots although it is not on
  the ring, and every namespace it had no snapshot of is undefined for this node from then on, even if
  every live member has its configuration.\<close>

theorem late_state_blocks_namespace:
  assumes "consistent_laws L" "wf_peer_store (PeerStore a)"
    and "json_Unmarshal N buf = Inr st" "meta_NodeID st = mem_String m"
    and "(ns', sn) \<in> set (meta_NamespaceConfigSnapshots st)" "x \<in> set sn" "is_ok (pj_Unmarshal E (snd x))"
    and "ns \<notin> set (keys (meta_NamespaceConfigSnapshots st))"
  shows "mem_String m \<notin> ring_members L (Hashring (MergeRemoteState E N buf (NotifyLeave L m a)))
    \<and> chooseNamespaceConfigSnapshot (PeerStore (MergeRemoteState E N buf (NotifyLeave L m a))) ns = Inl ErrNoLocalNamespacesDefined"
proof
  let ?a = "NotifyLeave L m a"
  let ?a' = "MergeRemoteState E N buf ?a"
  show "mem_String m \<notin> ring_members L (Hashring ?a')" by (simp add: ring_members_ops [OF assms(1)])
  have p: "PeerStore ?a' = fold (\<lambda>(ns, sn). fold (mergeSnapshot E (mem_String m) ns) sn)
      (meta_NamespaceConfigSnapshots st) (PeerStore ?a)"
    by (simp add: MergeRemoteState_def assms(3,4))
  show "chooseNamespaceConfigSnapshot (PeerStore ?a') ns = Inl ErrNoLocalNamespacesDefined"
  proof (rule choose_unaware [of _ "mem_String m"])
    show "wf_peer_store (PeerStore ?a')"
      by (rule wf_MergeRemoteState) (simp add: wf_peer_store_Delete assms(2))
    show "mem_String m \<in> known_peers (PeerStore ?a')"
      unfolding p by (rule known_peers_merge_all [OF assms(5,6,7)])
    show "snapshots_of (PeerStore ?a') (mem_String m) ns = []"
      unfolding p merge_other_namespace [OF assms(8)] by (simp add: snapshots_of_Delete)
  qed
qed

theorem late_state_blocks_namespace_witness:
  "chooseNamespaceConfigSnapshot (PeerStore (MergeRemoteState (plain_env [(cfg_docs, ''docs-json'')])
       (table_net [(docs_meta, ''state'')]) ''state'' (NotifyLeave list_ring \<lparr>mem_String = ''n1'', mem_Addr = '''', mem_Meta = ''''\<rparr>
       (team_node ''n2'')))) ''pages'' = Inl ErrNoLocalNamespacesDefined"
proof -
  let ?E = "plain_env [(cfg_docs, ''docs-json'')]" and ?N = "table_net [(docs_meta, ''state'')]"
  have "json_Unmarshal ?N ''state'' = Inr docs_meta" by (simp add: table_net_def)
  moreover have "is_ok (pj_Unmarshal ?E (snd (utc 1, ''docs-json'')))" by (simp add: plain_env_def)
  ultimately show ?thesis
    using late_state_blocks_namespace [OF list_ring_laws, of "team_node ''n2''" ?N "''state''" docs_meta
        "\<lparr>mem_String = ''n1'', mem_Addr = '''', mem_Meta = ''''\<rparr>" "''docs''" "[(utc 1, ''docs-json'')]"
        "(utc 1, ''docs-json'')" ?E "''pages''"]
    by (simp add: docs_meta_def team_node_def team_store_def)
qed

end
