(* ===== verification/Server_Main.thy ===== *)
theory Server_Main
  imports Membership
begin

section \<open>Starting and stopping the server (\<open>cmd/access-controller/main.go\<close>)\<close>

text \<open>
  \<open>main\<close> as the sequence of its effects. Every call into a library or the operating system is an
  action; whether it fails is a parameter, the record \<open>boot_env\<close>. \<open>log.Fatalf\<close> ends the process: the
  run stops with the actions so far and a message. The goroutines that serve gRPC and HTTP are
  started, their work is the handlers of the other theories.
\<close>

subsection \<open>Definitions\<close>

record flags =
  flag_id :: string
  flag_node_port :: int
  flag_advertise :: string
  flag_grpc_port :: int
  flag_http_port :: int
  flag_join :: string
  flag_migrations :: string

record config =
  GrpcGateway_Enabled :: bool
  CockroachDB_Host :: string
  CockroachDB_Port :: int
  CockroachDB_Database :: string

datatype boot_action =
    ReadConfigFile
  | OpenDatabase string
  | PingDatabase
  | CreateMigrator string
  | MigrateUp
  | StartController
  | Listen string
  | RegisterService string
  | ServeGrpc string
  | RegisterGateway string
  | ServeHttp string
  | ShutdownGateway
  | StopServer
  | CloseController

record boot_env =
  env_ReadInConfig :: "error option"
  env_Unmarshal :: "config result"
  env_GetString :: "string \<Rightarrow> string"
  env_Open :: "string \<Rightarrow> error option"
  env_Ping :: "nat \<Rightarrow> error option"
  env_ping_retries :: nat
  env_WithInstance :: "error option"
  env_NewMigrator :: "string \<Rightarrow> error option"
  env_Up :: "error option"
  env_ErrNoChange :: error
  env_Listen :: "string \<Rightarrow> error option"
  env_RegisterGateway :: "string \<Rightarrow> error option"

text \<open>The database settings, with their defaults, and the data source name.\<close>

definition db_host :: "config \<Rightarrow> string" where
  "db_host cfg = (if CockroachDB_Host cfg = '''' then ''localhost'' else CockroachDB_Host cfg)"

definition db_port :: "config \<Rightarrow> int" where
  "db_port cfg = (if CockroachDB_Port cfg = 0 then 26257 else CockroachDB_Port cfg)"

definition db_name :: "config \<Rightarrow> string" where
  "db_name cfg = (if CockroachDB_Database cfg = '''' then ''postgres'' else CockroachDB_Database cfg)"

definition dsn :: "boot_env \<Rightarrow> config \<Rightarrow> string" where
  "dsn B cfg = ''postgresql://'' @ env_GetString B ''POSTGRES_USERNAME'' @ '':'' @ env_GetString B ''POSTGRES_PASSWORD''
     @ ''@'' @ db_host cfg @ '':'' @ fmt_d (db_port cfg) @ ''/'' @ db_name cfg @ ''?sslmode=disable''"

text \<open>Waiting for the database: the \<open>n\<close>-th ping, as long as the backoff policy lets it be repeated.\<close>

fun ping :: "boot_env \<Rightarrow> nat \<Rightarrow> nat \<Rightarrow> boot_action list \<times> error option" where
  "ping B n 0 = ([PingDatabase], env_Ping B n)"
| "ping B n (Suc retries) =
     (case env_Ping B n of
        None \<Rightarrow> ([PingDatabase], None)
      | Some _ \<Rightarrow> (case ping B (Suc n) retries of (acts, err) \<Rightarrow> (PingDatabase # acts, err)))"

definition node_configs :: "flags \<Rightarrow> NodeConfigs" where
  "node_configs f = \<lparr>ServerID = flag_id f, Advertise = flag_advertise f, Join = flag_join f,
     NodePort = flag_node_port f, ServerPort = flag_grpc_port f\<rparr>"

definition grpc_services :: "string list" where
  "grpc_services = [''CheckService'', ''WriteService'', ''ReadService'', ''ExpandService'', ''NamespaceConfigService'', ''Health'']"

definition gateway_services :: "string list" where
  "gateway_services = [''CheckService'', ''WriteService'', ''ReadService'', ''NamespaceConfigService'']"

text \<open>The steps of \<open>main\<close> up to the controller, then the listeners.\<close>

type_synonym 'a boot = "boot_action list \<times> (string + 'a)"

definition boot_step :: "boot_action list \<Rightarrow> error option \<Rightarrow> string \<Rightarrow> 'a boot \<Rightarrow> 'a boot" where
  "boot_step acts err fatal rest =
     (case err of
        Some _ \<Rightarrow> (acts, Inl fatal)
      | None \<Rightarrow> (acts @ fst rest, snd rest))"

definition connect :: "boot_env \<Rightarrow> flags \<Rightarrow> config \<Rightarrow> 'a boot \<Rightarrow> 'a boot" where
  "connect B f cfg rest =
     boot_step [OpenDatabase (dsn B cfg)] (env_Open B (dsn B cfg)) ''Failed to establish a connection to the database''
       (case ping B 0 (env_ping_retries B) of (pings, err) \<Rightarrow>
          boot_step pings err ''Failed to connect to the database'' rest)"

definition migrate :: "boot_env \<Rightarrow> flags \<Rightarrow> 'a boot \<Rightarrow> 'a boot" where
  "migrate B f rest =
     boot_step [] (env_WithInstance B) ''Failed to create migrator database driver instance''
       (boot_step [CreateMigrator (''file://'' @ flag_migrations f)] (env_NewMigrator B (''file://'' @ flag_migrations f))
          ''Failed to initialize the database migrator''
          (boot_step [MigrateUp]
             (case env_Up B of None \<Rightarrow> None | Some e \<Rightarrow> if e = env_ErrNoChange B then None else Some e)
             ''Failed to migrate up to the latest database schema'' rest))"

fun register_gateway :: "boot_env \<Rightarrow> string list \<Rightarrow> 'a boot \<Rightarrow> 'a boot" where
  "register_gateway B [] rest = rest"
| "register_gateway B (s # ss) rest =
     boot_step [RegisterGateway s] (env_RegisterGateway B s) ''Failed to initialize grpc-gateway handler''
       (register_gateway B ss rest)"

definition serve :: "boot_env \<Rightarrow> flags \<Rightarrow> config \<Rightarrow> 'a \<Rightarrow> 'a boot" where
  "serve B f cfg controller =
     (let addr = '':'' @ fmt_d (flag_grpc_port f) in
      boot_step [Listen addr] (env_Listen B addr) ''Failed to start the TCP listener''
        (boot_step (map RegisterService grpc_services @ [ServeGrpc addr]) None ''''
           (if GrpcGateway_Enabled cfg then
              register_gateway B gateway_services ([ServeHttp ('':'' @ fmt_d (flag_http_port f))], Inr controller)
            else ([], Inr controller))))"

definition main_start ::
  "'r consistent_lib \<Rightarrow> sql_env \<Rightarrow> net_env \<Rightarrow> boot_env \<Rightarrow> flags \<Rightarrow> world \<Rightarrow> 'r controller boot" where
  "main_start L E N B f w =
     boot_step [ReadConfigFile] (env_ReadInConfig B) ''Failed to load server config file''
       (case env_Unmarshal B of
          Inl _ \<Rightarrow> ([], Inl ''Failed to Unmarshal server config'')
        | Inr cfg \<Rightarrow>
            connect B f cfg (migrate B f
              (case NewNamespaceManager E of
                 Inl _ \<Rightarrow> ([], Inl ''Failed to initialize postgres NamespaceManager'')
               | Inr m \<Rightarrow>
                   (case NewAccessController L E N (ctrlOpts E m (node_configs f)) w of
                      (Inl _, _) \<Rightarrow> ([StartController], Inl ''Failed to initialize the access-controller'')
                    | (Inr controller, _) \<Rightarrow> boot_step [StartController] None '''' (serve B f cfg controller)))))"

text \<open>After a signal; the errors of a shutdown are only logged.\<close>

definition main_stop :: "config \<Rightarrow> boot_action list" where
  "main_stop cfg = (if GrpcGateway_Enabled cfg then [ShutdownGateway] else []) @ [StopServer, CloseController]"

subsection \<open>Steps in order\<close>

lemma boot_step_Inr:
  "boot_step acts err m rest = (as, Inr x) \<longleftrightarrow> err = None \<and> (\<exists>bs. rest = (bs, Inr x) \<and> as = acts @ bs)"
  by (cases rest) (auto simp: boot_step_def split: option.splits)

fun serving :: "boot_action \<Rightarrow> bool" where
  "serving (ServeGrpc addr) = True"
| "serving (ServeHttp addr) = True"
| "serving _ = False"

text \<open>The server serves only after the steps before it succeeded.\<close>

lemma boot_step_serving:
  assumes "x \<in> set (fst (boot_step acts err m rest))" "serving x" "\<forall>y \<in> set acts. \<not> serving y"
  shows "err = None" "x \<in> set (fst rest)"
  using assms by (auto simp: boot_step_def split: option.splits)

lemma ping_actions: "y \<in> set (fst (ping B n k)) \<Longrightarrow> y = PingDatabase"
proof (induction k arbitrary: n)
  case (Suc k)
  from Suc.prems Suc.IH [of "Suc n"] show ?case by (auto split: option.splits prod.splits)
qed simp

lemma connect_serving:
  assumes "x \<in> set (fst (connect B f cfg rest))" "serving x"
  shows "snd (ping B 0 (env_ping_retries B)) = None" "x \<in> set (fst rest)"
proof -
  obtain pings err where p: "ping B 0 (env_ping_retries B) = (pings, err)" by fastforce
  have pings: "\<forall>y \<in> set pings. \<not> serving y" using ping_actions [of _ B 0 "env_ping_retries B"] p by fastforce
  have "x \<in> set (fst (boot_step pings err ''Failed to connect to the database'' rest))"
    using boot_step_serving(2) [OF assms(1) [unfolded connect_def] assms(2)] p by simp
  from boot_step_serving [OF this assms(2) pings] p
  show "snd (ping B 0 (env_ping_retries B)) = None" "x \<in> set (fst rest)" by simp_all
qed

lemma migrate_serving:
  assumes "x \<in> set (fst (migrate B f rest))" "serving x"
  shows "env_Up B = None \<or> env_Up B = Some (env_ErrNoChange B)" "x \<in> set (fst rest)"
proof -
  let ?err = "case env_Up B of None \<Rightarrow> None | Some e \<Rightarrow> if e = env_ErrNoChange B then None else Some e"
  have "x \<in> set (fst (boot_step [MigrateUp] ?err ''Failed to migrate up to the latest database schema'' rest))"
    by (rule boot_step_serving(2) [OF boot_step_serving(2) [OF assms(1) [unfolded migrate_def] assms(2)] assms(2)]) simp_all
  from boot_step_serving [OF this assms(2)]
  show "env_Up B = None \<or> env_Up B = Some (env_ErrNoChange B)" "x \<in> set (fst rest)"
    by (auto split: option.splits if_splits)
qed

text \<open>C26: the server serves nothing before it is set up: if the start-up gets as far as serving gRPC or
  HTTP, then the configuration was read, a ping of the database succeeded, the schema was migrated (or
  was current), and \<open>NewAccessController\<close> returned a controller with the SQL store and manager of that
  database, the identity of the flags, and a consistent ring, router and snapshot store.\<close>

theorem serves_only_when_ready:
  assumes "consistent_laws L" "x \<in> set (fst (main_start L E N B f w))" "serving x"
  shows "\<exists>cfg m c w'. env_ReadInConfig B = None \<and> env_Unmarshal B = Inr cfg \<and> snd (ping B 0 (env_ping_retries B)) = None
    \<and> (env_Up B = None \<or> env_Up B = Some (env_ErrNoChange B))
    \<and> NewNamespaceManager E = Inr m \<and> NewAccessController L E N (ctrlOpts E m (node_configs f)) w = (Inr c, w')
    \<and> node_inv L (ctl_node c) \<and> server_id (ctl_node c) = flag_id f
    \<and> ctl_RelationTupleStore c = Some (SQLStore E) \<and> ctl_NamespaceManager c = Some m"
proof -
  define m where "m = sqlNamespaceManager E"
  have mgr: "NewNamespaceManager E = Inr m" by (simp add: NewNamespaceManager_def m_def)
  let ?new = "NewAccessController L E N (ctrlOpts E m (node_configs f)) w"
  let ?rest = "\<lambda>cfg. connect B f cfg (migrate B f
      (case ?new of
         (Inl _, _) \<Rightarrow> ([StartController], Inl ''Failed to initialize the access-controller'')
       | (Inr controller, _) \<Rightarrow> boot_step [StartController] None '''' (serve B f cfg controller)))"
  have start: "main_start L E N B f w = boot_step [ReadConfigFile] (env_ReadInConfig B) ''Failed to load server config file''
      (case env_Unmarshal B of Inl _ \<Rightarrow> ([], Inl ''Failed to Unmarshal server config'') | Inr cfg \<Rightarrow> ?rest cfg)"
    unfolding main_start_def mgr sum.case ..
  note read = boot_step_serving [OF assms(2) [unfolded start] assms(3)]
  from read(2) obtain cfg where cfg: "env_Unmarshal B = Inr cfg" and con: "x \<in> set (fst (?rest cfg))"
    by (cases "env_Unmarshal B") simp_all
  note c = connect_serving [OF con assms(3)]
  note mig = migrate_serving [OF c(2) assms(3)]
  obtain r w' where new: "?new = (r, w')" by fastforce
  have "\<exists>c. r = Inr c" using mig(2) assms(3) new by (cases r) auto
  then obtain ctl where "r = Inr ctl" ..
  with new have new': "?new = (Inr ctl, w')" by simp
  from node_inv_New [OF assms(1) mgr new'] have "node_inv L (ctl_node ctl)" "server_id (ctl_node ctl) = flag_id f"
    by (simp_all add: node_configs_def)
  moreover have "ctl_RelationTupleStore ctl = Some (SQLStore E)" "ctl_NamespaceManager ctl = Some m"
    using New_Inr [OF mgr new'] by metis+
  moreover have "env_ReadInConfig B = None" using read(1) by simp
  ultimately show ?thesis using cfg c(1) mig(1) mgr new' by blast
qed

definition quiet_boot :: boot_env where
  "quiet_boot = \<lparr>env_ReadInConfig = None,
     env_Unmarshal = Inr \<lparr>GrpcGateway_Enabled = False, CockroachDB_Host = '''', CockroachDB_Port = 0, CockroachDB_Database = ''''\<rparr>,
     env_GetString = (\<lambda>_. ''''), env_Open = (\<lambda>_. None), env_Ping = (\<lambda>n. if n = 0 then Some (ErrLibrary ''refused'') else None),
     env_ping_retries = 1, env_WithInstance = None, env_NewMigrator = (\<lambda>_. None), env_Up = None,
     env_ErrNoChange = ErrLibrary ''no change'', env_Listen = (\<lambda>_. None), env_RegisterGateway = (\<lambda>_. None)\<rparr>"

definition flags_n1 :: flags where
  "flags_n1 = \<lparr>flag_id = ''n1'', flag_node_port = 7946, flag_advertise = '''', flag_grpc_port = 50052, flag_http_port = 8082,
     flag_join = '''', flag_migrations = ''./db/migrations''\<rparr>"

theorem serves_only_when_ready_witness:
  "ServeGrpc '':50052'' \<in> set (fst (main_start list_ring (plain_env []) (table_net []) quiet_boot flags_n1 (session empty_db)))
   \<and> (\<exists>m c w'. NewAccessController list_ring (plain_env []) (table_net []) (ctrlOpts (plain_env []) m (node_configs flags_n1))
          (session empty_db) = (Inr c, w') \<and> server_id (ctl_node c) = ''n1'')"
proof -
  have cfg: "node_configs flags_n1 = cfg_n1" by (simp add: node_configs_def flags_n1_def cfg_n1_def)
  obtain c w' where new: "NewAccessController list_ring (plain_env []) (table_net [])
      (ctrlOpts (plain_env []) (sqlNamespaceManager (plain_env [])) cfg_n1) (session empty_db) = (Inr c, w')"
    using n1_starts [of empty_db "[]" "[]"] by (auto simp: empty_db_def)
  have x: "ServeGrpc '':50052'' \<in> set (fst (main_start list_ring (plain_env []) (table_net []) quiet_boot flags_n1 (session empty_db)))"
    unfolding main_start_def cfg NewNamespaceManager_def
    by (simp add: new quiet_boot_def boot_step_def connect_def migrate_def serve_def flags_n1_def fmt_50052 Let_def)
  have id: "flag_id flags_n1 = ''n1''" by (simp add: flags_n1_def)
  from serves_only_when_ready [OF list_ring_laws x, unfolded id] x show ?thesis by auto
qed

end
