(* ===== verification/Handlers.thy ===== *)
theory Handlers
  imports Namespace_Manager Check_Properties
begin

section \<open>The write and read handlers (\<open>internal/access-controller.go\<close>)\<close>

text \<open>
  \<open>WriteRelationTuplesTxn\<close>, \<open>ListRelationTuples\<close>, \<open>WriteConfig\<close> and \<open>ReadConfig\<close>: the validation of
  the request against the node's configuration snapshots, then the operation on the store or the
  namespace manager. A handler that answers without touching the database returns the session as it
  was.
\<close>

subsection \<open>Writing tuples\<close>

definition mutationRequired :: "nat \<Rightarrow> string \<Rightarrow> error" where
  "mutationRequired i field = Status InvalidArgument (MsgMutationRequired i field)"

text \<open>The checks of an insert against the configurations of the namespaces it refers to.\<close>

definition validateInsert ::
  "inmemPeerNamespaceConfigStore \<Rightarrow> NamespaceConfigSnapshot \<Rightarrow> InternalRelationTuple \<Rightarrow> pb_Ref option \<Rightarrow> unit result" where
  "validateInsert peers configSnapshot irt ref =
     (if rewriteFromNamespaceConfig (irt_Relation irt) (snap_Config configSnapshot) = None
      then Inl (NamespaceConfigError_ToStatus (MsgRelationUndefined (irt_Relation irt) (irt_Namespace irt))
             NamespaceRelationUndefined)
      else
        (case ref of
           Some (Subject_Set set_) \<Rightarrow>
             (let n = pbss_Namespace set_; r = pbss_Relation set_; str = Subject_String (irt_Subject irt) in
              case chooseNamespaceConfigSnapshot peers n of
                Inl err \<Rightarrow>
                  if err = ErrNoLocalNamespacesDefined
                  then Inl (NamespaceConfigError_ToStatus (MsgSubjectSetNamespaceUndefined str n) NamespaceDoesntExist)
                  else Inl internalErrorStatus
              | Inr snapshot \<Rightarrow>
                  if r \<noteq> ''...'' \<and> rewriteFromNamespaceConfig r (snap_Config snapshot) = None
                  then Inl (NamespaceConfigError_ToStatus (MsgSubjectSetRelationUndefined str r n) NamespaceRelationUndefined)
                  else Inr ())
         | _ \<Rightarrow> Inr ()))"

text \<open>The loop over the deltas: the index, the inserts and the deletes so far.\<close>

fun collectDeltas ::
  "inmemPeerNamespaceConfigStore \<Rightarrow> nat \<Rightarrow> RelationTupleDelta list
     \<Rightarrow> InternalRelationTuple list \<Rightarrow> InternalRelationTuple list
     \<Rightarrow> (InternalRelationTuple list \<times> InternalRelationTuple list) result" where
  "collectDeltas peers i [] inserts deletes = Inr (inserts, deletes)"
| "collectDeltas peers i (delta # deltas) inserts deletes =
     (let rt = delta_RelationTuple delta;
          namespace = (case rt of None \<Rightarrow> '''' | Some t \<Rightarrow> pbrt_Namespace t);
          object = (case rt of None \<Rightarrow> '''' | Some t \<Rightarrow> pbrt_Object t);
          relation = (case rt of None \<Rightarrow> '''' | Some t \<Rightarrow> pbrt_Relation t);
          pbsubject = (case rt of None \<Rightarrow> None | Some t \<Rightarrow> pbrt_Subject t)
      in
      if namespace = '''' then Inl (mutationRequired i ''namespace'')
      else if object = '''' then Inl (mutationRequired i ''object'')
      else if relation = '''' then Inl (mutationRequired i ''relation'')
      else
        (case SubjectFromProto pbsubject of
           None \<Rightarrow> Inl (mutationRequired i ''subject'')
         | Some subject \<Rightarrow>
             (case chooseNamespaceConfigSnapshot peers namespace of
                Inl _ \<Rightarrow> Inl (nsUndefinedStatus namespace)
              | Inr configSnapshot \<Rightarrow>
                  (let irt = \<lparr>irt_Namespace = namespace, irt_Object = object, irt_Relation = relation,
                     irt_Subject = subject\<rparr>
                   in
                   case delta_Action delta of
                     ACTION_INSERT \<Rightarrow>
                       (case validateInsert peers configSnapshot irt (GetRef pbsubject) of
                          Inl err \<Rightarrow> Inl err
                        | Inr _ \<Rightarrow> collectDeltas peers (Suc i) deltas (inserts @ [irt]) deletes)
                   | ACTION_DELETE \<Rightarrow> collectDeltas peers (Suc i) deltas inserts (deletes @ [irt])
                   | ACTION_UNSPECIFIED \<Rightarrow> collectDeltas peers (Suc i) deltas inserts deletes))))"

definition WriteRelationTuplesTxn ::
  "sql_env \<Rightarrow> 'r AccessController \<Rightarrow> RelationTupleDelta list \<Rightarrow> world \<Rightarrow> unit result \<times> world" where
  "WriteRelationTuplesTxn E a deltas w =
     (case collectDeltas (PeerStore a) 0 deltas [] [] of
        Inl err \<Rightarrow> (Inl err, w)
      | Inr (inserts, deletes) \<Rightarrow>
          if inserts = [] \<and> deletes = [] then (Inl (Status InvalidArgument MsgNoMutations), w)
          else
            (case TransactRelationTuples E inserts deletes w of
               (Inl _, w') \<Rightarrow> (Inl internalErrorStatus, w')
             | (Inr _, w') \<Rightarrow> (Inr (), w')))"

subsection \<open>Listing tuples\<close>

definition ListRelationTuples ::
  "sql_env \<Rightarrow> 'r AccessController \<Rightarrow> ListQuery option \<Rightarrow> world \<Rightarrow> pb_RelationTuple option list result \<times> world" where
  "ListRelationTuples E a query w =
     (case query of
        None \<Rightarrow> (Inl (requiredStatus ''query''), w)
      | Some q \<Rightarrow>
          if lq_Namespace q = '''' then (Inl (requiredStatus ''query.namespace''), w)
          else
            (case chooseNamespaceConfigSnapshot (PeerStore a) (lq_Namespace q) of
               Inl _ \<Rightarrow> (Inl (nsUndefinedStatus (lq_Namespace q)), w)
             | Inr _ \<Rightarrow>
                 (case store_ListRelationTuples E q w of
                    (Inl _, w') \<Rightarrow> (Inl internalErrorStatus, w')
                  | (Inr tuples, w') \<Rightarrow> (Inr (map (\<lambda>t. InternalRelationTuple_ToProto (Some t)) tuples), w'))))"

subsection \<open>Namespace configurations\<close>

text \<open>The first loop of \<open>WriteConfig\<close>: every relation's rewrite refers to proposed relations only.\<close>

fun validateRelations :: "NamespaceConfig \<Rightarrow> string list \<Rightarrow> Relation list \<Rightarrow> unit result" where
  "validateRelations config proposed [] = Inr ()"
| "validateRelations config proposed (relation # relations) =
     (case rewriteFromNamespaceConfig (rel_Name relation) (Some config) of
        None \<Rightarrow> Inl (ErrPlain MsgUnexpectedRewriteOperation)
      | Some rewrite \<Rightarrow>
          (case validateRewriteRelations proposed rewrite of
             Inl err \<Rightarrow> Inl err
           | Inr _ \<Rightarrow> validateRelations config proposed relations))"

fun invalidArgument :: "error \<Rightarrow> error" where
  "invalidArgument (ErrPlain m) = Status InvalidArgument m"
| "invalidArgument e = e"

text \<open>The body of the transaction. The manager's methods run in the transaction of their context.\<close>

definition inTxn :: "(txn option \<Rightarrow> world \<Rightarrow> 'a result \<times> txn option \<times> world) \<Rightarrow> world \<Rightarrow> txn \<Rightarrow> 'a result \<times> txn" where
  "inTxn f w t = (case f (Some t) w of (r, ctx, _) \<Rightarrow> (r, case ctx of Some t' \<Rightarrow> t' | None \<Rightarrow> t))"

definition writeConfigTxn :: "sql_env \<Rightarrow> NamespaceConfig \<Rightarrow> world \<Rightarrow> txn \<Rightarrow> unit result \<times> txn" where
  "writeConfigTxn E config w t =
     (let namespace = cfg_Name config; proposed = map rel_Name (cfg_Relations config) in
      case inTxn (GetConfig E namespace) w t of
        (Inl err, t1) \<Rightarrow>
          if err = ErrNamespaceDoesntExist then inTxn (UpsertConfig E config) w t1 else (Inl err, t1)
      | (Inr currentConfig, t1) \<Rightarrow>
          (let removedRelations = filter (\<lambda>r. r \<notin> set proposed) (remdups (map rel_Name (cfg_Relations currentConfig)))
           in
           if removedRelations \<noteq> [] then
             (case inTxn (LookupRelationReferencesByCount E namespace removedRelations) w t1 of
                (Inl err, t2) \<Rightarrow> (Inl err, t2)
              | (Inr refs, t2) \<Rightarrow>
                  if refs \<noteq> []
                  then (Inl (NamespaceConfigError (MsgRelationsReferenced (keys refs)) NamespaceUpdateFailedPrecondition), t2)
                  else inTxn (UpsertConfig E config) w t2)
           else inTxn (UpsertConfig E config) w t1))"

definition WriteConfig :: "sql_env \<Rightarrow> NamespaceConfig option \<Rightarrow> world \<Rightarrow> unit result \<times> world" where
  "WriteConfig E req_config w =
     (case req_config of
        None \<Rightarrow> (Inl (requiredStatus ''config''), w)
      | Some config \<Rightarrow>
          if cfg_Name config = '''' then (Inl (requiredStatus ''config.name''), w)
          else
            (case validateRelations config (map rel_Name (cfg_Relations config)) (cfg_Relations config) of
               Inl err \<Rightarrow> (Inl (invalidArgument err), w)
             | Inr _ \<Rightarrow>
                 (case WrapTransaction E (writeConfigTxn E config w) w of
                    (Inr _, w') \<Rightarrow> (Inr (), w')
                  | (Inl (NamespaceConfigError m ty), w') \<Rightarrow> (Inl (NamespaceConfigError_ToStatus m ty), w')
                  | (Inl _, w') \<Rightarrow> (Inl internalErrorStatus, w'))))"

definition ReadConfig :: "sql_env \<Rightarrow> string \<Rightarrow> world \<Rightarrow> (string \<times> NamespaceConfig) result \<times> world" where
  "ReadConfig E namespace w =
     (if namespace = '''' then (Inl (requiredStatus ''namespace''), w)
      else
        (case GetConfig E namespace None w of
           (Inl err, _, w') \<Rightarrow>
             (Inl (if err = ErrNamespaceDoesntExist then Status NotFound (MsgNamespaceNotFound namespace)
                   else internalErrorStatus), w')
         | (Inr config, _, w') \<Rightarrow> (Inr (namespace, config), w')))"

subsection \<open>What a write of tuples accepts\<close>

definition defined_relation :: "inmemPeerNamespaceConfigStore \<Rightarrow> string \<Rightarrow> string \<Rightarrow> bool" where
  "defined_relation peers ns rel \<longleftrightarrow>
     (\<exists>s. chooseNamespaceConfigSnapshot peers ns = Inr s \<and> rewriteFromNamespaceConfig rel (snap_Config s) \<noteq> None)"

definition accepted :: "inmemPeerNamespaceConfigStore \<Rightarrow> InternalRelationTuple \<Rightarrow> bool" where
  "accepted peers t \<longleftrightarrow>
     irt_Namespace t \<noteq> '''' \<and> irt_Object t \<noteq> '''' \<and> irt_Relation t \<noteq> '''' \<and>
     defined_relation peers (irt_Namespace t) (irt_Relation t) \<and>
     (case irt_Subject t of
        SubjID _ \<Rightarrow> True
      | SubjSet s \<Rightarrow> is_ok (chooseNamespaceConfigSnapshot peers (ss_Namespace s)) \<and>
          (ss_Relation s \<noteq> ''...'' \<longrightarrow> defined_relation peers (ss_Namespace s) (ss_Relation s)))"

definition delta_tuple :: "RelationTupleDelta \<Rightarrow> InternalRelationTuple option" where
  "delta_tuple delta =
     (case delta_RelationTuple delta of
        None \<Rightarrow> None
      | Some t \<Rightarrow> map_option (\<lambda>s. \<lparr>irt_Namespace = pbrt_Namespace t, irt_Object = pbrt_Object t,
          irt_Relation = pbrt_Relation t, irt_Subject = s\<rparr>) (SubjectFromProto (pbrt_Subject t)))"

definition tuples_with :: "Action \<Rightarrow> RelationTupleDelta list \<Rightarrow> InternalRelationTuple list" where
  "tuples_with action deltas = List.map_filter delta_tuple (filter (\<lambda>d. delta_Action d = action) deltas)"

lemma tuples_with_simps [simp]:
  "tuples_with action [] = []"
  "tuples_with action (d # ds) =
     (if delta_Action d = action then (case delta_tuple d of None \<Rightarrow> [] | Some t \<Rightarrow> [t]) else []) @ tuples_with action ds"
  by (simp_all add: tuples_with_def List.map_filter_def split: option.splits)

lemma SubjectFromProto_SubjSet:
  "SubjectFromProto p = Some (SubjSet s) \<Longrightarrow>
     GetRef p = Some (Subject_Set \<lparr>pbss_Namespace = ss_Namespace s, pbss_Object = ss_Object s, pbss_Relation = ss_Relation s\<rparr>)"
  by (auto simp: SubjectFromProto_def split: option.splits pb_Ref.splits)

lemma validateInsert_accepts:
  assumes "validateInsert peers snap t (GetRef p) = Inr y" "SubjectFromProto p = Some (irt_Subject t)"
    and "chooseNamespaceConfigSnapshot peers (irt_Namespace t) = Inr snap"
    and "irt_Namespace t \<noteq> ''''" "irt_Object t \<noteq> ''''" "irt_Relation t \<noteq> ''''"
  shows "accepted peers t"
proof (cases "irt_Subject t")
  case (SubjID i)
  with assms show ?thesis by (auto simp: accepted_def defined_relation_def validateInsert_def split: if_splits)
next
  case (SubjSet s)
  with SubjectFromProto_SubjSet [of p s] assms(2) have ref: "GetRef p = Some (Subject_Set
      \<lparr>pbss_Namespace = ss_Namespace s, pbss_Object = ss_Object s, pbss_Relation = ss_Relation s\<rparr>)" by simp
  from assms(1) SubjSet assms(3-6) show ?thesis
    unfolding ref by (auto simp: accepted_def defined_relation_def validateInsert_def Let_def split: if_splits sum.splits)
qed

lemma collectDeltas_Inr:
  "collectDeltas peers i deltas ins dels = Inr (ins', dels') \<Longrightarrow>
     ins' = ins @ tuples_with ACTION_INSERT deltas \<and> dels' = dels @ tuples_with ACTION_DELETE deltas
     \<and> (\<forall>t \<in> set (tuples_with ACTION_INSERT deltas). accepted peers t)"
proof (induction deltas arbitrary: i ins dels)
  case (Cons delta deltas)
  obtain rt s snap where rt: "delta_RelationTuple delta = Some rt" "SubjectFromProto (pbrt_Subject rt) = Some s"
    and ne: "pbrt_Namespace rt \<noteq> ''''" "pbrt_Object rt \<noteq> ''''" "pbrt_Relation rt \<noteq> ''''"
    and snap: "chooseNamespaceConfigSnapshot peers (pbrt_Namespace rt) = Inr snap"
    using Cons.prems by (auto simp: Let_def split: if_splits option.splits sum.splits)
  let ?t = "\<lparr>irt_Namespace = pbrt_Namespace rt, irt_Object = pbrt_Object rt, irt_Relation = pbrt_Relation rt, irt_Subject = s\<rparr>"
  have t: "delta_tuple delta = Some ?t" by (simp add: delta_tuple_def rt)
  show ?case
  proof (cases "delta_Action delta")
    case ACTION_INSERT
    with Cons.prems rt ne snap obtain y where val: "validateInsert peers snap ?t (GetRef (pbrt_Subject rt)) = Inr y"
      and rest: "collectDeltas peers (Suc i) deltas (ins @ [?t]) dels = Inr (ins', dels')"
      by (auto simp: Let_def split: sum.splits)
    have "accepted peers ?t" by (rule validateInsert_accepts [OF val]) (use rt ne snap in simp_all)
    with Cons.IH [OF rest] ACTION_INSERT t show ?thesis by simp
  next
    case ACTION_DELETE
    with Cons.prems rt ne snap have "collectDeltas peers (Suc i) deltas ins (dels @ [?t]) = Inr (ins', dels')"
      by (simp add: Let_def)
    from Cons.IH [OF this] ACTION_DELETE t show ?thesis by simp
  next
    case ACTION_UNSPECIFIED
    with Cons.prems rt ne snap have "collectDeltas peers (Suc i) deltas ins dels = Inr (ins', dels')"
      by (simp add: Let_def)
    from Cons.IH [OF this] ACTION_UNSPECIFIED t show ?thesis by simp
  qed
qed simp

lemma write_tuples_Inr:
  assumes "WriteRelationTuplesTxn E a deltas w = (Inr (), w')"
  shows "\<forall>t \<in> set (tuples_with ACTION_INSERT deltas). accepted (PeerStore a) t"
    and "tuples_in (w_db w') = (tuples_in (w_db w) \<union> key_of ` set (tuples_with ACTION_INSERT deltas))
        - key_of ` set (tuples_with ACTION_DELETE deltas)"
proof -
  obtain ins dels where col: "collectDeltas (PeerStore a) 0 deltas [] [] = Inr (ins, dels)"
    and run: "TransactRelationTuples E ins dels w = (Inr (), w')"
    using assms by (auto simp: WriteRelationTuplesTxn_def split: sum.splits if_splits prod.splits)
  note res = collectDeltas_Inr [OF col] Transact_Inr [OF run]
  then show "\<forall>t \<in> set (tuples_with ACTION_INSERT deltas). accepted (PeerStore a) t" by simp
  from res show "tuples_in (w_db w') = (tuples_in (w_db w) \<union> key_of ` set (tuples_with ACTION_INSERT deltas))
        - key_of ` set (tuples_with ACTION_DELETE deltas)" by (simp add: transact_views)
qed

subsection \<open>The transaction of \<open>WriteConfig\<close>\<close>

lemma inTxn_simps:
  "inTxn (UpsertConfig E config) w t =
     (case pj_Marshal E config of Inl err \<Rightarrow> (Inl err, t) | Inr json \<Rightarrow> upsertTxn E config json t)"
  "inTxn (LookupRelationReferencesByCount E ns rels) w t = lookupTxn E ns rels t"
  "inTxn (GetConfig E ns) w t =
     (case getConfigTxn E ns t of (Inl err, t') \<Rightarrow> (Inl err, t') | (Inr json, t') \<Rightarrow> (pj_Unmarshal E json, t'))"
  by (simp_all add: inTxn_def UpsertConfig_def LookupRelationReferencesByCount_def GetConfig_def withTransaction_def
      split: sum.splits prod.splits)

definition stored_config :: "sql_env \<Rightarrow> db \<Rightarrow> string \<Rightarrow> NamespaceConfig option" where
  "stored_config E d ns =
     (case latest_rows ns (tbl_configs d) of
        [] \<Rightarrow> None
      | r # _ \<Rightarrow> (case pj_Unmarshal E (cfgrow_config r) of Inl _ \<Rightarrow> None | Inr cfg \<Rightarrow> Some cfg))"

lemma getConfigTxn_frame:
  "getConfigTxn E ns t = (r, t') \<Longrightarrow> t_db t' = t_db t \<and> t_now t' = t_now t"
  by (auto simp: getConfigTxn_def andThen_def txn_Exec_def stmt_select_latest_def Let_def
      split: prod.splits sum.splits option.splits if_splits)

lemma lookupTxn_frame:
  "lookupTxn E ns rels t = (r, t') \<Longrightarrow> t_db t' = t_db t \<and> t_now t' = t_now t"
  by (auto simp: lookupTxn_def andThen_def txn_Exec_def stmt_count_references_def Let_def
      split: prod.splits sum.splits option.splits if_splits)

lemma getConfigTxn_stored:
  assumes "getConfigTxn E ns t = (r, t')"
  shows "r = Inl ErrNamespaceDoesntExist \<Longrightarrow> faultless E \<Longrightarrow> \<not> t_aborted t \<Longrightarrow> latest_rows ns (tbl_configs (t_db t)) = []"
    and "r = Inr json \<Longrightarrow> \<exists>row rows. latest_rows ns (tbl_configs (t_db t)) = row # rows \<and> json = cfgrow_config row"
  using assms
  by (auto simp: getConfigTxn_def andThen_def txn_Exec_def stmt_select_latest_def faultless_def Let_def
      split: prod.splits sum.splits option.splits if_splits list.splits)

text \<open>The errors of the database are its own, not the sentinel the manager returns for a missing row.\<close>

definition foreign_faults :: "sql_env \<Rightarrow> bool" where
  "foreign_faults E \<longleftrightarrow> (\<forall>n. fault E n \<noteq> Some ErrNamespaceDoesntExist)"

lemma getConfigTxn_missing:
  assumes "getConfigTxn E ns t = (Inl ErrNamespaceDoesntExist, t')" "foreign_faults E"
  shows "latest_rows ns (tbl_configs (t_db t)) = []"
  using assms
  by (auto simp: getConfigTxn_def andThen_def txn_Exec_def stmt_select_latest_def foreign_faults_def Let_def
      split: prod.splits sum.splits option.splits if_splits list.splits)

lemma upsert_inTxn:
  assumes "inTxn (UpsertConfig E config) w t = (Inr y, t')" "pj_Marshal E config = Inr json"
  shows "t_db t' = upserted E (t_now t) (cfg_Name config) (jsonb_text E json) (t_db t) \<and> \<not> t_aborted t'"
  using assms upsertTxn_Inr [of E config json t y t'] by (simp add: inTxn_simps)

lemma writeConfigTxn_Inr:
  assumes res: "writeConfigTxn E config w t = (Inr y, t')" and m: "pj_Marshal E config = Inr json"
    and env: "foreign_faults E" "\<forall>n. cut E n = None"
  shows "t_db t' = upserted E (t_now t) (cfg_Name config) (jsonb_text E json) (t_db t) \<and> \<not> t_aborted t'"
    and "stored_config E (t_db t) (cfg_Name config) = Some old \<Longrightarrow> rel \<in> rel_Name ` set (cfg_Relations old) \<Longrightarrow>
      rel \<notin> rel_Name ` set (cfg_Relations config) \<Longrightarrow> references (t_db t) (cfg_Name config) rel = []"
proof -
  let ?ns = "cfg_Name config"
  let ?goal = "(t_db t' = upserted E (t_now t) ?ns (jsonb_text E json) (t_db t) \<and> \<not> t_aborted t') \<and>
    (stored_config E (t_db t) ?ns = Some old \<longrightarrow> rel \<in> rel_Name ` set (cfg_Relations old) \<longrightarrow>
      rel \<notin> rel_Name ` set (cfg_Relations config) \<longrightarrow> references (t_db t) ?ns rel = [])"
  obtain r t1 where get: "getConfigTxn E ?ns t = (r, t1)" by fastforce
  note f1 = getConfigTxn_frame [OF get]
  have ?goal
  proof (cases "inTxn (GetConfig E ?ns) w t")
    case (Pair c t1')
    with get have t1': "t1' = t1" by (auto simp: inTxn_simps split: sum.splits)
    show ?thesis
    proof (cases c)
      case (Inl err)
      with res Pair t1' have err: "err = ErrNamespaceDoesntExist" and up: "inTxn (UpsertConfig E config) w t1 = (Inr y, t')"
        by (auto simp: writeConfigTxn_def Let_def split: if_splits)
      have "stored_config E (t_db t) ?ns = None"
        using Pair Inl err get getConfigTxn_missing [of E ?ns t t1] env(1) getConfigTxn_stored(2) [OF get]
        by (auto simp: inTxn_simps stored_config_def split: sum.splits)
      with upsert_inTxn [OF up m] f1 show ?thesis by simp
    next
      case (Inr cur)
      have cur: "stored_config E (t_db t) ?ns = Some cur"
        using Pair Inr get getConfigTxn_stored(2) [OF get]
        by (auto simp: inTxn_simps stored_config_def split: sum.splits)
      let ?removed = "filter (\<lambda>r. r \<notin> set (map rel_Name (cfg_Relations config))) (remdups (map rel_Name (cfg_Relations cur)))"
      show ?thesis
      proof (cases "?removed = []")
        case True
        then have up: "inTxn (UpsertConfig E config) w t1 = (Inr y, t')"
          using res Pair Inr t1' by (simp add: writeConfigTxn_def Let_def)
        have "rel \<in> rel_Name ` set (cfg_Relations config)" if "rel \<in> rel_Name ` set (cfg_Relations cur)" for rel
          using True that by (auto simp: filter_empty_conv)
        with upsert_inTxn [OF up m] f1 cur show ?thesis by auto
      next
        case False
        then obtain t2 where look: "lookupTxn E ?ns ?removed t1 = (Inr [], t2)"
          and up: "inTxn (UpsertConfig E config) w t2 = (Inr y, t')"
          using res Pair Inr t1'
          by (auto simp: writeConfigTxn_def Let_def inTxn_simps(2) split: sum.splits prod.splits if_splits)
        have "references (t_db t) ?ns rel = []" if "rel \<in> set ?removed" for rel
          using lookupTxn_Inr [OF look, of rel] env(2) that f1 by (simp split: if_splits)
        with upsert_inTxn [OF up m] f1 lookupTxn_frame [OF look] cur show ?thesis by auto
      qed
    qed
  qed
  then show "t_db t' = upserted E (t_now t) ?ns (jsonb_text E json) (t_db t) \<and> \<not> t_aborted t'"
    and "stored_config E (t_db t) ?ns = Some old \<Longrightarrow> rel \<in> rel_Name ` set (cfg_Relations old) \<Longrightarrow>
      rel \<notin> rel_Name ` set (cfg_Relations config) \<Longrightarrow> references (t_db t) ?ns rel = []" by blast+
qed

lemma WrapTransaction_Inr:
  assumes "WrapTransaction E fn w = (Inr y, w')"
  shows "\<exists>t'. fn \<lparr>t_db = w_db w, t_tick = Suc (w_tick w), t_now = clock E (w_tick w), t_aborted = False\<rparr> = (Inr (), t')
    \<and> w_db w' = t_db t'"
  using assms
  by (auto simp: WrapTransaction_def db_Begin_def txn_Commit_def Let_def split: prod.splits sum.splits option.splits if_splits)

lemma WrapTransaction_Inl:
  "WrapTransaction E fn w = (Inl err, w') \<Longrightarrow> w_db w' = w_db w"
  by (auto simp: WrapTransaction_def db_Begin_def txn_Commit_def txn_Rollback_def Let_def
      split: prod.splits sum.splits option.splits if_splits)

lemma fold_update_keys: "kvs \<noteq> [] \<or> m \<noteq> [] \<Longrightarrow> fold (\<lambda>(k, v) m. AList.update k v m) kvs m \<noteq> []"
proof (induction kvs arbitrary: m)
  case (Cons kv kvs)
  have "AList.update (fst kv) (snd kv) m \<noteq> []" by (cases m) auto
  with Cons.IH show ?case by (simp add: case_prod_beta)
qed simp

lemma writeConfigTxn_refused:
  assumes env: "faultless E" "\<forall>n. cut E n = None" and t: "\<not> t_aborted t"
    and old: "stored_config E (t_db t) (cfg_Name config) = Some old" "rel \<in> rel_Name ` set (cfg_Relations old)"
    and removed: "rel \<notin> rel_Name ` set (cfg_Relations config)" "references (t_db t) (cfg_Name config) rel \<noteq> []"
  shows "\<exists>rs t'. writeConfigTxn E config w t =
      (Inl (NamespaceConfigError (MsgRelationsReferenced rs) NamespaceUpdateFailedPrecondition), t') \<and> rel \<in> set rs"
proof -
  let ?ns = "cfg_Name config"
  let ?removed = "filter (\<lambda>r. r \<notin> set (map rel_Name (cfg_Relations config))) (remdups (map rel_Name (cfg_Relations old)))"
  obtain row rows where row: "latest_rows ?ns (tbl_configs (t_db t)) = row # rows" "pj_Unmarshal E (cfgrow_config row) = Inr old"
    using old(1) by (auto simp: stored_config_def split: list.splits sum.splits)
  define t1 where "t1 = t\<lparr>t_tick := Suc (t_tick t)\<rparr>"
  have get: "inTxn (GetConfig E ?ns) w t = (Inr old, t1)"
    using env(1) t row by (simp add: inTxn_simps getConfigTxn_def andThen_def txn_Exec_def stmt_select_latest_def
        faultless_def Let_def t1_def)
  have rel: "rel \<in> set ?removed" using old(2) removed(1) by auto
  then have "?removed \<noteq> []" by (metis empty_iff empty_set)
  then obtain r0 rs0 where ne: "?removed = r0 # rs0" by (meson list.exhaust)
  have "\<exists>refs t2. lookupTxn E ?ns ?removed t1 = (Inr refs, t2)"
    unfolding ne using env(1) t by (simp add: lookupTxn_def andThen_def txn_Exec_def stmt_count_references_def faultless_def
        Let_def t1_def)
  then obtain refs t2 where look: "lookupTxn E ?ns ?removed t1 = (Inr refs, t2)" by blast
  have "map_of refs rel \<noteq> None"
    using lookupTxn_Inr [OF look, of rel] env(2) rel removed(2) by (simp add: t1_def)
  then have "refs \<noteq> []" "rel \<in> set (keys refs)" by (auto simp: map_of_eq_None_iff)
  with get look ne show ?thesis by (simp add: writeConfigTxn_def Let_def inTxn_simps(2))
qed

subsection \<open>Properties\<close>

text \<open>C28: \<open>WriteRelationTuplesTxn\<close> does what it answers. When it succeeds, every inserted tuple has all
  its fields, a relation that the chosen configuration of its namespace defines, and a subject set
  only of a namespace and relation that are defined too; and the tables hold the tuples they held and
  the inserted ones, less the deleted ones, whatever the order of the deltas in the request.\<close>

theorem write_tuples_effect:
  assumes "WriteRelationTuplesTxn E a deltas w = (Inr (), w')"
  shows "(\<forall>t \<in> set (tuples_with ACTION_INSERT deltas). accepted (PeerStore a) t)
    \<and> tuples_in (w_db w') = (tuples_in (w_db w) \<union> key_of ` set (tuples_with ACTION_INSERT deltas))
        - key_of ` set (tuples_with ACTION_DELETE deltas)"
  using write_tuples_Inr [OF assms] by blast

definition share_with :: "string \<Rightarrow> RelationTupleDelta" where
  "share_with user = \<lparr>delta_Action = ACTION_INSERT, delta_RelationTuple = Some
     \<lparr>pbrt_Namespace = ''pages'', pbrt_Object = ''readme'', pbrt_Relation = ''viewer'',
      pbrt_Subject = Some \<lparr>pbs_Ref = Some (Subject_Id user)\<rparr>\<rparr>\<rparr>"

abbreviation share_delta :: RelationTupleDelta where
  "share_delta \<equiv> share_with ''bob''"

lemma team_choose:
  "chooseNamespaceConfigSnapshot team_store ''pages'' = Inr \<lparr>snap_Config = Some cfg_pages, snap_Timestamp = utc 1\<rparr>"
  by (auto simp: team_store_def store_eval chooseNamespaceConfigSnapshot_def
      ListNamespaceConfigSnapshots_def commonTimestamps_def selectTS_def time_Equal_def time_After_def zero_time_def)

lemma share_delta_tuple:
  "delta_tuple (share_with user) = Some \<lparr>irt_Namespace = ''pages'', irt_Object = ''readme'', irt_Relation = ''viewer'',
     irt_Subject = SubjID \<lparr>ID = user\<rparr>\<rparr>"
  by (simp add: delta_tuple_def share_with_def SubjectFromProto_def GetRef_def)

lemma share_tuples:
  "tuples_with ACTION_INSERT [share_with user] = [\<lparr>irt_Namespace = ''pages'', irt_Object = ''readme'', irt_Relation = ''viewer'',
     irt_Subject = SubjID \<lparr>ID = user\<rparr>\<rparr>]"
  "tuples_with ACTION_DELETE [share_with user] = []"
proof -
  have "delta_Action (share_with user) = ACTION_INSERT" by (simp add: share_with_def)
  then show "tuples_with ACTION_INSERT [share_with user] = [\<lparr>irt_Namespace = ''pages'', irt_Object = ''readme'', irt_Relation = ''viewer'',
     irt_Subject = SubjID \<lparr>ID = user\<rparr>\<rparr>]" "tuples_with ACTION_DELETE [share_with user] = []"
    using share_delta_tuple by simp_all
qed

lemma share_accepted:
  "collectDeltas team_store 0 [share_with user] [] [] = Inr (tuples_with ACTION_INSERT [share_with user], [])"
  unfolding share_tuples
  by (simp add: share_with_def team_choose SubjectFromProto_def GetRef_def validateInsert_def
      rewriteFromNamespaceConfig_def GetRelations_def cfg_pages_def Let_def)

lemma share_write:
  obtains w' where "WriteRelationTuplesTxn (plain_env []) (team_node ''n1'') [share_with user] (session team_db) = (Inr (), w')"
proof -
  have "\<exists>w'. TransactRelationTuples (plain_env []) (tuples_with ACTION_INSERT [share_with user]) [] (session team_db) = (Inr (), w')"
    by (rule Transact_succeeds)
      (simp_all add: share_tuples has_table_def team_db_def empty_db_def session_def del: tuples_with_simps)
  then show ?thesis
    using share_accepted [of user] that
    by (auto simp: WriteRelationTuplesTxn_def team_node_def share_tuples simp del: tuples_with_simps)
qed

theorem write_tuples_effect_witness:
  "\<exists>w'. WriteRelationTuplesTxn (plain_env []) (team_node ''n1'') [share_delta] (session team_db) = (Inr (), w')
    \<and> tuples_in (w_db w') = insert (''pages'', \<lparr>row_object = ''readme'', row_relation = ''viewer'', row_subject = ''bob''\<rparr>) (tuples_in team_db)"
proof -
  obtain w' where w': "WriteRelationTuplesTxn (plain_env []) (team_node ''n1'') [share_delta] (session team_db) = (Inr (), w')"
    by (rule share_write)
  from write_tuples_effect [OF w']
  have "tuples_in (w_db w') = insert (''pages'', \<lparr>row_object = ''readme'', row_relation = ''viewer'', row_subject = ''bob''\<rparr>) (tuples_in team_db)"
    by (simp add: share_tuples session_def key_of_def row_of_def Subject_String_def SubjectID_String_def del: tuples_with_simps)
  with w' show ?thesis by blast
qed

text \<open>A write that is refused or fails changes no table: an invalid delta at any position, an empty
  request, or an error of the database.\<close>

theorem write_tuples_error:
  "WriteRelationTuplesTxn E a deltas w = (Inl err, w') \<Longrightarrow> w_db w' = w_db w"
  using Transact_Inl
  by (auto simp: WriteRelationTuplesTxn_def split: sum.splits if_splits prod.splits)

theorem write_tuples_error_witness:
  "WriteRelationTuplesTxn (plain_env []) (team_node ''n1'') [share_delta, share_delta\<lparr>delta_RelationTuple := None\<rparr>] (session team_db)
     = (Inl (mutationRequired 1 ''namespace''), session team_db) \<and> w_db (session team_db) = team_db"
proof -
  have "collectDeltas team_store 0 [share_delta, share_delta\<lparr>delta_RelationTuple := None\<rparr>] [] [] = Inl (mutationRequired 1 ''namespace'')"
    using share_delta_tuple
    by (simp add: share_with_def team_choose SubjectFromProto_def GetRef_def validateInsert_def
        rewriteFromNamespaceConfig_def GetRelations_def cfg_pages_def Let_def)
  then have res: "WriteRelationTuplesTxn (plain_env []) (team_node ''n1'') [share_delta, share_delta\<lparr>delta_RelationTuple := None\<rparr>]
      (session team_db) = (Inl (mutationRequired 1 ''namespace''), session team_db)"
    by (simp add: WriteRelationTuplesTxn_def team_node_def)
  from write_tuples_error [OF res] res show ?thesis by (simp add: session_def)
qed

lemma write_config_docs_at:
  assumes "w_db w = empty_db"
  shows "\<exists>w'. WriteConfig ((plain_env [(cfg_docs, j)])\<lparr>clock := now\<rparr>) (Some cfg_docs) w = (Inr (), w')
    \<and> tbl_ns_changelog (w_db w') =
        [\<lparr>nscl_namespace = ''docs'', nscl_operation = ''ADD'', nscl_config = j, nscl_timestamp = now (w_tick w)\<rparr>]"
  using assms
  by (simp add: WriteConfig_def cfg_docs_def rewriteFromNamespaceConfig_def GetRelations_def this_rewrite_def
        WrapTransaction_def db_Begin_def plain_env_def writeConfigTxn_def inTxn_simps getConfigTxn_def andThen_def
        txn_Exec_def stmt_select_latest_def latest_rows_def empty_db_def upsertTxn_def stmt_count_configs_def
        stmt_create_table_def stmt_insert_config_def stmt_insert_ns_change_def txn_Commit_def Let_def AddNamespace_def)

lemma write_config_docs:
  "\<exists>w'. WriteConfig (plain_env [(cfg_docs, ''{}'')]) (Some cfg_docs) (session empty_db) = (Inr (), w')"
  using write_config_docs_at [of "session empty_db" int "''{}''"] by (auto simp: session_def plain_env_def)

text \<open>C31: a successful \<open>WriteConfig\<close> adds exactly one version of the configuration, at the time of its
  transaction, with its changelog entry (and the namespace's table, for a new namespace), and it never
  removes a relation that the reverse lookup still has rows for.\<close>

theorem write_config_effect:
  assumes "WriteConfig E (Some config) w = (Inr (), w')" "pj_Marshal E config = Inr json"
    and "foreign_faults E" "\<forall>n. cut E n = None"
  shows "w_db w' = upserted E (clock E (w_tick w)) (cfg_Name config) (jsonb_text E json) (w_db w)
    \<and> (\<forall>old rel. stored_config E (w_db w) (cfg_Name config) = Some old \<and> rel \<in> rel_Name ` set (cfg_Relations old)
          \<and> rel \<notin> rel_Name ` set (cfg_Relations config) \<longrightarrow> references (w_db w) (cfg_Name config) rel = [])"
proof -
  have "WrapTransaction E (writeConfigTxn E config w) w = (Inr (), w')"
    using assms(1) by (auto simp: WriteConfig_def split: if_splits sum.splits prod.splits error.splits)
  from WrapTransaction_Inr [OF this] obtain t' where t': "writeConfigTxn E config w
      \<lparr>t_db = w_db w, t_tick = Suc (w_tick w), t_now = clock E (w_tick w), t_aborted = False\<rparr> = (Inr (), t')"
    "w_db w' = t_db t'" by blast
  from writeConfigTxn_Inr(1) [OF t'(1) assms(2-4)] t'(2) writeConfigTxn_Inr(2) [OF t'(1) assms(2-4)]
  show ?thesis by simp
qed

theorem write_config_effect_witness:
  "\<exists>w'. WriteConfig (plain_env [(cfg_docs, ''{}'')]) (Some cfg_docs) (session empty_db) = (Inr (), w')
    \<and> w_db w' = upserted (plain_env [(cfg_docs, ''{}'')]) 0 ''docs'' ''{}'' empty_db"
proof -
  let ?E = "plain_env [(cfg_docs, ''{}'')]"
  obtain w' where w': "WriteConfig ?E (Some cfg_docs) (session empty_db) = (Inr (), w')"
    using write_config_docs by blast
  have "pj_Marshal ?E cfg_docs = Inr ''{}''" "foreign_faults ?E" "\<forall>n. cut ?E n = None"
    by (simp_all add: plain_env_def foreign_faults_def)
  from write_config_effect [OF w' this] w' show ?thesis
    by (auto simp: plain_env_def session_def cfg_docs_def)
qed

text \<open>C37: \<open>WriteConfig\<close> refuses, with \<open>InvalidArgument\<close> and the names of the relations, to remove a
  relation that has rows in the reverse lookup, and changes nothing. Because deletes leave such rows
  behind, this also happens when no tuple refers to the relation any more: in the instance the
  tables hold no tuple at all.\<close>

theorem write_config_refuses_removal:
  assumes "faultless E" "\<forall>n. cut E n = None" "cfg_Name config \<noteq> ''''"
    and "validateRelations config (map rel_Name (cfg_Relations config)) (cfg_Relations config) = Inr ()"
    and "stored_config E (w_db w) (cfg_Name config) = Some old" "rel \<in> rel_Name ` set (cfg_Relations old)"
    and "rel \<notin> rel_Name ` set (cfg_Relations config)" "references (w_db w) (cfg_Name config) rel \<noteq> []"
  shows "\<exists>rs w'. WriteConfig E (Some config) w = (Inl (Status InvalidArgument (MsgRelationsReferenced rs)), w')
    \<and> rel \<in> set rs \<and> w_db w' = w_db w"
proof -
  let ?t = "\<lparr>t_db = w_db w, t_tick = Suc (w_tick w), t_now = clock E (w_tick w), t_aborted = False\<rparr>"
  obtain rs t' where "writeConfigTxn E config w ?t =
      (Inl (NamespaceConfigError (MsgRelationsReferenced rs) NamespaceUpdateFailedPrecondition), t')" "rel \<in> set rs"
    using writeConfigTxn_refused [of E ?t config old rel w] assms by auto
  with assms(1,3,4) show ?thesis
    by (simp add: WriteConfig_def WrapTransaction_def db_Begin_def txn_Rollback_def faultless_def Let_def
        NamespaceConfigError_ToStatus_def)
qed

definition cfg_shared :: NamespaceConfig where
  "cfg_shared = \<lparr>cfg_Name = ''docs'', cfg_Relations =
     [\<lparr>rel_Name = ''viewer'', rel_Rewrite = None\<rparr>, \<lparr>rel_Name = ''editor'', rel_Rewrite = None\<rparr>]\<rparr>"

definition shared_db :: db where
  "shared_db = docs_db\<lparr>tbl_configs := [\<lparr>cfgrow_namespace = ''docs'', cfgrow_config = ''v1'', cfgrow_timestamp = -1\<rparr>]\<rparr>"

definition shared_env :: sql_env where
  "shared_env = plain_env [(cfg_shared, ''v1''), (cfg_docs, ''v2'')]"

theorem write_config_refuses_removal_witness:
  "\<exists>w1 w2 rs w3.
     TransactRelationTuples shared_env [editors_tuple] [] (session shared_db) = (Inr (), w1)
   \<and> TransactRelationTuples shared_env [] [editors_tuple] w1 = (Inr (), w2) \<and> tuples_in (w_db w2) = {}
   \<and> WriteConfig shared_env (Some cfg_docs) w2 = (Inl (Status InvalidArgument (MsgRelationsReferenced rs)), w3)
   \<and> ''editor'' \<in> set rs"
proof -
  have E: "faultless shared_env" "\<forall>n. cut shared_env n = None" by (simp_all add: shared_env_def plain_env_def faultless_def)
  have tbl: "has_table shared_db editors_tuple" "tuples_in shared_db = {}" "tbl_lookup shared_db = []"
    by (auto simp: has_table_def shared_db_def docs_db_def empty_db_def editors_tuple_def tuples_in_def rows_of_def
        split: if_splits option.splits)
  obtain w1 where w1: "TransactRelationTuples shared_env [editors_tuple] [] (session shared_db) = (Inr (), w1)"
    using Transact_succeeds [OF E(1), of "[editors_tuple]" "[]" "session shared_db"] tbl by (auto simp: session_def)
  note d1 = Transact_Inr [OF w1]
  obtain w2 where w2: "TransactRelationTuples shared_env [] [editors_tuple] w1 = (Inr (), w2)"
    using Transact_succeeds [OF E(1), of "[]" "[editors_tuple]" w1] d1 tbl by (auto simp: session_def)
  note d2 = Transact_Inr [OF w2]
  have empty: "tuples_in (w_db w2) = {}"
    using d1 d2 tbl by (simp add: tuples_in_apply session_def)
  have look: "set (tbl_lookup (w_db w2)) = set (lookup_values editors_tuple)"
  proof -
    have none: "{row. \<forall>ex \<in> set (lookup_values editors_tuple). row = ex} = {}"
      by (auto simp: lookup_values_def editors_tuple_def)
    have "set (tbl_lookup (w_db w2)) =
        set (lookup_values editors_tuple) - {row. \<forall>ex \<in> set (lookup_values editors_tuple). row = ex}"
      using d1 d2 tbl lookup_fold(1) [of _ "[editors_tuple]"] lookup_fold(2) [of _ "[editors_tuple]"]
      by (simp add: session_def)
    then show ?thesis unfolding none by simp
  qed
  have cfgs: "tbl_configs (w_db w2) = tbl_configs shared_db"
    using d1 d2 by (simp add: apply_insert_def apply_delete_def session_def)
  have "stored_config shared_env (w_db w2) ''docs'' = Some cfg_shared"
    by (simp add: stored_config_def cfgs shared_db_def latest_rows_def shared_env_def plain_env_def Let_def)
  moreover have "references (w_db w2) ''docs'' ''editor'' \<noteq> []"
    using look by (auto simp: references_def filter_empty_conv lookup_values_def editors_tuple_def)
  moreover have "validateRelations cfg_docs (map rel_Name (cfg_Relations cfg_docs)) (cfg_Relations cfg_docs) = Inr ()"
    by (simp add: cfg_docs_def rewriteFromNamespaceConfig_def GetRelations_def this_rewrite_def)
  ultimately obtain rs w3 where "WriteConfig shared_env (Some cfg_docs) w2 = (Inl (Status InvalidArgument (MsgRelationsReferenced rs)), w3)"
    "''editor'' \<in> set rs"
    using write_config_refuses_removal [OF E, of cfg_docs w2 cfg_shared "''editor''"]
    by (auto simp: cfg_docs_def cfg_shared_def)
  with w1 w2 empty show ?thesis by blast
qed

text \<open>C38: what \<open>WriteConfig\<close> stored is what \<open>ReadConfig\<close> returns, for a configuration that
  \<open>protojson\<close> and the \<open>jsonb\<close> column preserve and a clock that has moved on since the last version.\<close>

theorem write_config_then_read:
  assumes "WriteConfig E (Some config) w = (Inr (), w')" "foreign_faults E" "\<forall>n. cut E n = None" "faultless E'"
    and "pj_Marshal E config = Inr json" "pj_Unmarshal E' (jsonb_text E json) = Inr config"
    and "later_than (w_db w) (cfg_Name config) (clock E (w_tick w))"
  shows "fst (ReadConfig E' (cfg_Name config) w') = Inr (cfg_Name config, config)"
proof -
  have "WrapTransaction E (writeConfigTxn E config w) w = (Inr (), w')" and ne: "cfg_Name config \<noteq> ''''"
    using assms(1) by (auto simp: WriteConfig_def split: if_splits sum.splits prod.splits error.splits)
  from WrapTransaction_Inr [OF this(1)] obtain t' where t': "writeConfigTxn E config w
      \<lparr>t_db = w_db w, t_tick = Suc (w_tick w), t_now = clock E (w_tick w), t_aborted = False\<rparr> = (Inr (), t')"
    "w_db w' = t_db t'" by blast
  from writeConfigTxn_Inr(1) [OF t'(1) assms(5,2,3)] t'(2)
  have db: "w_db w' = upserted E (clock E (w_tick w)) (cfg_Name config) (jsonb_text E json) (w_db w)" by simp
  show ?thesis
    using assms(4,6) ne latest_upserted [OF assms(7), of E "jsonb_text E json"]
    by (simp add: ReadConfig_def GetConfig_def withTransaction_def db_Begin_def faultless_def Let_def getConfigTxn_def
        andThen_def txn_Exec_def stmt_select_latest_def db)
qed

theorem write_config_then_read_witness:
  "fst (ReadConfig (plain_env [(cfg_docs, ''{}'')]) ''docs''
     (snd (WriteConfig (plain_env [(cfg_docs, ''{}'')]) (Some cfg_docs) (session empty_db)))) = Inr (''docs'', cfg_docs)"
proof -
  let ?E = "plain_env [(cfg_docs, ''{}'')]"
  obtain w' where w': "WriteConfig ?E (Some cfg_docs) (session empty_db) = (Inr (), w')"
    using write_config_docs by blast
  have "fst (ReadConfig ?E (cfg_Name cfg_docs) w') = Inr (cfg_Name cfg_docs, cfg_docs)"
    by (rule write_config_then_read [OF w'])
      (simp_all add: plain_env_def foreign_faults_def faultless_def later_than_def session_def empty_db_def)
  with w' show ?thesis by (simp add: cfg_docs_def)
qed

end
