(* ===== verification/Tuple_Listing.thy ===== *)
theory Tuple_Listing
  imports Handlers
begin

section \<open>Reading tuples back\<close>

text \<open>
  The handler \<open>ListRelationTuples\<close> against the tables, and after \<open>WriteRelationTuplesTxn\<close>: what a
  list contains, and what a tuple does to it whose subject cannot be parsed from the text it is stored as.
\<close>

subsection \<open>What the handler returns\<close>

lemma List_Inr:
  assumes "ListRelationTuples E a (Some q) w = (Inr ps, w')"
  obtains ts where "store_ListRelationTuples E q w = (Inr ts, w')" "ps = map (\<lambda>t. InternalRelationTuple_ToProto (Some t)) ts"
  using assms by (auto simp: ListRelationTuples_def split: if_splits sum.splits prod.splits)

lemma ToProto_inject: "InternalRelationTuple_ToProto (Some t) = InternalRelationTuple_ToProto (Some u) \<longleftrightarrow> t = u"
proof
  assume eq: "InternalRelationTuple_ToProto (Some t) = InternalRelationTuple_ToProto (Some u)"
  then have "Subject_ToProto (irt_Subject t) = Subject_ToProto (irt_Subject u)" by (simp add: InternalRelationTuple_ToProto_def)
  then have "irt_Subject t = irt_Subject u" using SubjectFromProto_ToProto [of "irt_Subject t"] by simp
  with eq show "t = u" by (intro InternalRelationTuple.equality) (simp_all add: InternalRelationTuple_ToProto_def)
qed simp

text \<open>The requests that match a query, by the parts of a tuple.\<close>

definition query_matches :: "ListQuery \<Rightarrow> InternalRelationTuple \<Rightarrow> bool" where
  "query_matches q t \<longleftrightarrow> irt_Namespace t = lq_Namespace q \<and> (lq_Object q \<noteq> '''' \<longrightarrow> irt_Object t = lq_Object q)
     \<and> (lq_Relations q \<noteq> [] \<longrightarrow> irt_Relation t \<in> set (lq_Relations q))"

lemma listed_iff:
  assumes "ListRelationTuples E a (Some q) w = (Inr ps, w')" "lq_Subject q = None" "cut E (w_tick w) = None"
    and "wf_Subject (irt_Subject t)"
  shows "InternalRelationTuple_ToProto (Some t) \<in> set ps \<longleftrightarrow> key_of t \<in> tuples_in (w_db w) \<and> query_matches q t"
proof -
  obtain ts where ts: "store_ListRelationTuples E q w = (Inr ts, w')" "ps = map (\<lambda>t. InternalRelationTuple_ToProto (Some t)) ts"
    by (rule List_Inr [OF assms(1)])
  note list = store_List_Inr [OF ts(1) assms(2,3)]
  have rows: "row_of ` set ts = {r \<in> set (rows_of (w_db w) (lq_Namespace q)). list_filter q r}"
    using arg_cong [OF list(1), of set] by simp
  have "InternalRelationTuple_ToProto (Some t) \<in> set ps \<longleftrightarrow> t \<in> set ts" by (auto simp: ts(2) ToProto_inject)
  also have "\<dots> \<longleftrightarrow> irt_Namespace t = lq_Namespace q \<and> row_of t \<in> row_of ` set ts"
  proof
    assume t: "irt_Namespace t = lq_Namespace q \<and> row_of t \<in> row_of ` set ts"
    then obtain u where u: "u \<in> set ts" "row_of t = row_of u" by auto
    have "Subject_String (irt_Subject t) = Subject_String (irt_Subject u)" using u(2) by (simp add: row_of_def)
    then have "irt_Subject t = irt_Subject u" using Subject_String_inject [OF assms(4)] list(2) u(1) by blast
    moreover have "irt_Namespace u = lq_Namespace q" using list(3) u(1) by blast
    ultimately have "t = u" using u(2) t by (intro InternalRelationTuple.equality) (simp_all add: row_of_def)
    with u(1) show "t \<in> set ts" by simp
  qed (use list(3) in auto)
  also have "\<dots> \<longleftrightarrow> key_of t \<in> tuples_in (w_db w) \<and> query_matches q t"
    unfolding rows by (auto simp: tuples_in_def key_of_def query_matches_def list_filter_def row_of_def)
  finally show ?thesis .
qed

lemma scanTuples_unreadable:
  "r \<in> set rows \<Longrightarrow> SubjectFromString (row_subject r) = Inl err \<Longrightarrow> \<exists>err'. scanTuples ns rows = Inl err'"
  by (induction rows) (auto split: sum.split)

lemma List_unreadable:
  assumes "(lq_Namespace q, r) \<in> tuples_in (w_db w)" "list_filter q r" "SubjectFromString (row_subject r) = Inl err"
    and "lq_Subject q = None" "cut E (w_tick w) = None"
  shows "\<exists>err' w'. store_ListRelationTuples E q w = (Inl err', w')"
proof -
  obtain rows where rows: "tbl_tuples (w_db w) (lq_Namespace q) = Some rows" "r \<in> set rows"
    using assms(1) by (cases "tbl_tuples (w_db w) (lq_Namespace q)") (auto simp: tuples_in_def rows_of_def)
  have "r \<in> set (filter (list_filter q) rows)" using rows(2) assms(2) by simp
  from scanTuples_unreadable [OF this assms(3)] obtain err' where "scanTuples (lq_Namespace q) (filter (list_filter q) rows) = Inl err'" ..
  then show ?thesis
    using assms(4,5) rows(1)
    by (auto simp: store_ListRelationTuples_def scan_def db_Query_def select_rows_def rows_seen_def list_filter_def [abs_def]
        split: option.split)
qed

subsection \<open>Properties\<close>


definition eng_views :: InternalRelationTuple where
  "eng_views = \<lparr>irt_Namespace = ''pages'', irt_Object = ''readme'', irt_Relation = ''viewer'',
     irt_Subject = SubjSet \<lparr>ss_Namespace = ''group'', ss_Object = ''eng'', ss_Relation = ''member''\<rparr>\<rparr>"


text \<open>C30: the write handler does not check that a subject can be read back. After a successful write of a
  tuple whose subject text does not parse (an id with a \<open>#\<close>), every list that matches the tuple fails
  with an internal error, on every node, until the tuple is deleted.\<close>

theorem unreadable_subject_breaks_list:
  assumes "WriteRelationTuplesTxn E a deltas w = (Inr (), w')"
    and "t \<in> set (tuples_with ACTION_INSERT deltas)" "key_of t \<notin> key_of ` set (tuples_with ACTION_DELETE deltas)"
    and "SubjectFromString (Subject_String (irt_Subject t)) = Inl err"
    and "w_db v = w_db w'" "query_matches q t" "lq_Subject q = None" "cut E' (w_tick v) = None"
    and "lq_Namespace q \<noteq> ''''" "chooseNamespaceConfigSnapshot (PeerStore b) (lq_Namespace q) = Inr snap"
  shows "fst (ListRelationTuples E' b (Some q) v) = Inl internalErrorStatus"
proof -
  have "key_of t \<in> tuples_in (w_db v)" using write_tuples_Inr(2) [OF assms(1)] assms(2,3,5) by auto
  then have "(lq_Namespace q, row_of t) \<in> tuples_in (w_db v)" "list_filter q (row_of t)" "row_subject (row_of t) = Subject_String (irt_Subject t)"
    using assms(6) by (simp_all add: key_of_def query_matches_def list_filter_def row_of_def)
  from List_unreadable [OF this(1,2) _ assms(7,8)] this(3) assms(4)
  obtain err' v' where "store_ListRelationTuples E' q v = (Inl err', v')" by auto
  with assms(9,10) show ?thesis by (simp add: ListRelationTuples_def)
qed

theorem unreadable_subject_breaks_list_witness:
  "\<exists>w'. WriteRelationTuplesTxn (plain_env []) (team_node ''n1'') [share_with ''a#b''] (session team_db) = (Inr (), w')
    \<and> fst (ListRelationTuples (plain_env []) (team_node ''n2'')
        (Some \<lparr>lq_Namespace = ''pages'', lq_Object = '''', lq_Relations = [], lq_Subject = None\<rparr>) w') = Inl internalErrorStatus"
proof -
  let ?t = "\<lparr>irt_Namespace = ''pages'', irt_Object = ''readme'', irt_Relation = ''viewer'', irt_Subject = SubjID \<lparr>ID = ''a#b''\<rparr>\<rparr>"
  obtain w' where w': "WriteRelationTuplesTxn (plain_env []) (team_node ''n1'') [share_with ''a#b''] (session team_db) = (Inr (), w')"
    by (rule share_write)
  have bad: "SubjectFromString (Subject_String (irt_Subject ?t)) = Inl ErrInvalidSubjectSetString" by code_simp
  have "fst (ListRelationTuples (plain_env []) (team_node ''n2'')
        (Some \<lparr>lq_Namespace = ''pages'', lq_Object = '''', lq_Relations = [], lq_Subject = None\<rparr>) w') = Inl internalErrorStatus"
    by (rule unreadable_subject_breaks_list [OF w' _ _ bad refl])
      (simp_all add: share_tuples query_matches_def team_node_def team_choose plain_env_def del: tuples_with_simps)
  with w' show ?thesis by blast
qed

end
