(* ===== verification/Config_Provenance.thy ===== *)
theory Config_Provenance
  imports Handlers Membership
begin

section \<open>Where configuration snapshots come from\<close>

text \<open>
  A node never makes up a configuration: every snapshot in its store was read from the namespace
  changelog, by itself or by the peer that sent it. The predicates of this theory say so of a store
  (\<open>from_log\<close>), of a message in transit (\<open>msg_from_log\<close>) and of the changelog itself (\<open>legit_row\<close>:
  the row was written by \<open>WriteConfig\<close> for a configuration that it validated); the lemmas show that
  each operation keeps them. \<open>Cluster_System\<close> puts the operations together.

  The codecs are parameters, with what the exchange relies on as named hypotheses: what \<open>protojson\<close>
  reads from the text it produced (also after the \<open>JSONB\<close> column rewrote it) is the configuration it
  was given, what \<open>encoding/json\<close> reads from a message it produced has no snapshots that were not
  put in, and neither reads anything from the empty text that is sent after an error.
\<close>

subsection \<open>Definitions\<close>

definition pj_keeps :: "sql_env \<Rightarrow> bool" where
  "pj_keeps E \<longleftrightarrow> (\<forall>c c'. pj_Unmarshal E (sent (pj_Marshal E c)) = Inr c' \<longrightarrow> c' = c)"

definition jsonb_keeps :: "sql_env \<Rightarrow> bool" where
  "jsonb_keeps E \<longleftrightarrow> (\<forall>c j c'. pj_Marshal E c = Inr j \<longrightarrow> pj_Unmarshal E (jsonb_text E j) = Inr c' \<longrightarrow> c' = c)"

definition jsonb_reads :: "sql_env \<Rightarrow> bool" where
  "jsonb_reads E \<longleftrightarrow> (\<forall>c j. pj_Marshal E c = Inr j \<longrightarrow> pj_Unmarshal E (jsonb_text E j) = Inr c)"

definition json_keeps :: "net_env \<Rightarrow> bool" where
  "json_keeps N \<longleftrightarrow>
     (\<forall>m m' ns sn t b. json_Unmarshal N (sent (json_Marshal N m)) = Inr m' \<longrightarrow>
        (ns, sn) \<in> set (meta_NamespaceConfigSnapshots m') \<longrightarrow> (t, b) \<in> set sn \<longrightarrow>
        (\<exists>t0. serialized_at (meta_NamespaceConfigSnapshots m) ns t0 = Some b \<and>
           time_UTC (time_Round0 t) = time_UTC (time_Round0 t0)))"

text \<open>The snapshot that a row of the changelog stands for.\<close>

definition row_gives :: "sql_env \<Rightarrow> ns_change_row \<Rightarrow> string \<Rightarrow> time \<Rightarrow> NamespaceConfig \<Rightarrow> bool" where
  "row_gives E r ns t c \<longleftrightarrow>
     nscl_namespace r = ns \<and> t = utc (nscl_timestamp r) \<and> pj_Unmarshal E (nscl_config r) = Inr c"

definition logged :: "sql_env \<Rightarrow> ns_change_row set \<Rightarrow> string \<Rightarrow> time \<Rightarrow> NamespaceConfig \<Rightarrow> bool" where
  "logged E rows ns t c \<longleftrightarrow> (\<exists>r \<in> rows. row_gives E r ns t c)"

definition from_log :: "sql_env \<Rightarrow> ns_change_row set \<Rightarrow> inmemPeerNamespaceConfigStore \<Rightarrow> bool" where
  "from_log E rows p \<longleftrightarrow> (\<forall>peer ns t c. snapshot_at p peer ns t = Some c \<longrightarrow> logged E rows ns t c)"

definition msg_from_log :: "sql_env \<Rightarrow> net_env \<Rightarrow> ns_change_row set \<Rightarrow> string \<Rightarrow> bool" where
  "msg_from_log E N rows buf \<longleftrightarrow>
     (\<forall>st ns sn t b c. json_Unmarshal N buf = Inr st \<longrightarrow> (ns, sn) \<in> set (meta_NamespaceConfigSnapshots st) \<longrightarrow>
        (t, b) \<in> set sn \<longrightarrow> pj_Unmarshal E b = Inr c \<longrightarrow> logged E rows ns (time_UTC (time_Round0 t)) c)"

definition validated :: "NamespaceConfig \<Rightarrow> bool" where
  "validated cfg \<longleftrightarrow> cfg_Name cfg \<noteq> '''' \<and>
     validateRelations cfg (map rel_Name (cfg_Relations cfg)) (cfg_Relations cfg) = Inr ()"

definition legit_row :: "sql_env \<Rightarrow> ns_change_row \<Rightarrow> bool" where
  "legit_row E r \<longleftrightarrow> (nscl_operation r = ''ADD'' \<or> nscl_operation r = ''UPDATE'') \<and>
     (\<exists>cfg json. validated cfg \<and> nscl_namespace r = cfg_Name cfg \<and>
        pj_Marshal E cfg = Inr json \<and> nscl_config r = jsonb_text E json)"

text \<open>
  The changelog has one entry per version of a configuration, so no two changes of a namespace have
  the same time: the version's key would be taken.
\<close>

definition log_inv :: "db \<Rightarrow> bool" where
  "log_inv d \<longleftrightarrow> dated_changes d \<and> (\<forall>r \<in> set (tbl_ns_changelog d). \<exists>v \<in> set (tbl_configs d).
     cfgrow_namespace v = nscl_namespace r \<and> cfgrow_timestamp v = nscl_timestamp r)"

text \<open>The codec is the same in every environment; faults, clock and truncation may differ.\<close>

definition same_codec :: "sql_env \<Rightarrow> sql_env \<Rightarrow> bool" where
  "same_codec E E' \<longleftrightarrow> pj_Marshal E' = pj_Marshal E \<and> pj_Unmarshal E' = pj_Unmarshal E \<and> jsonb_text E' = jsonb_text E"

definition same_json :: "net_env \<Rightarrow> net_env \<Rightarrow> bool" where
  "same_json N N' \<longleftrightarrow> json_Marshal N' = json_Marshal N \<and> json_Unmarshal N' = json_Unmarshal N"

subsection \<open>Monotony\<close>

lemma logged_mono: "logged E rows ns t c \<Longrightarrow> rows \<subseteq> rows' \<Longrightarrow> logged E rows' ns t c"
  unfolding logged_def by blast

lemma from_log_mono: "from_log E rows p \<Longrightarrow> rows \<subseteq> rows' \<Longrightarrow> from_log E rows' p"
  unfolding from_log_def using logged_mono by blast

lemma msg_from_log_mono: "msg_from_log E N rows buf \<Longrightarrow> rows \<subseteq> rows' \<Longrightarrow> msg_from_log E N rows' buf"
  unfolding msg_from_log_def using logged_mono [of E rows _ _ _ rows'] by blast

lemma from_logD: "from_log E rows p \<Longrightarrow> snapshot_at p peer ns t = Some c \<Longrightarrow> logged E rows ns t c"
  unfolding from_log_def by blast

lemma from_log_New: "from_log E rows NewInMemoryPeerNamespaceConfigStore"
  by (simp add: from_log_def)

subsection \<open>Stores\<close>

lemma from_log_Set:
  assumes "from_log E rows p" "logged E rows ns (time_UTC (time_Round0 t)) c"
  shows "from_log E rows (snd (SetNamespaceConfigSnapshot peer ns c t p))"
  using assms by (auto simp: from_log_def snapshot_at_Set split: if_splits)

lemma from_log_Delete: "from_log E rows p \<Longrightarrow> from_log E rows (snd (DeleteNamespaceConfigSnapshots peer p))"
  by (auto simp: from_log_def snapshot_at_Delete split: if_splits)

lemma from_log_Merge:
  assumes p: "from_log E rows (PeerStore a)" and buf: "msg_from_log E N rows buf"
    and codec: "same_codec E E'" "same_json N N'"
  shows "from_log E rows (PeerStore (MergeRemoteState E' N' buf a))"
proof (cases "json_Unmarshal N' buf")
  case (Inl e)
  with p show ?thesis by (simp add: MergeRemoteState_def)
next
  case (Inr st)
  have un: "json_Unmarshal N buf = Inr st" "pj_Unmarshal E' = pj_Unmarshal E"
    using Inr codec by (simp_all add: same_codec_def same_json_def)
  have one: "from_log E rows (mergeSnapshot E' i ns (t, b) q)"
    if "from_log E rows q" "(ns, sn) \<in> set (meta_NamespaceConfigSnapshots st)" "(t, b) \<in> set sn" for q i ns sn t b
  proof (cases "pj_Unmarshal E b")
    case (Inr c)
    with buf un(1) that(2,3) have "logged E rows ns (time_UTC (time_Round0 t)) c"
      unfolding msg_from_log_def by blast
    with that(1) Inr show ?thesis by (simp add: mergeSnapshot_def un(2) from_log_Set)
  qed (use that(1) in \<open>simp add: mergeSnapshot_def un(2)\<close>)
  have inner: "from_log E rows (fold (mergeSnapshot E' i ns) xs q)"
    if "from_log E rows q" "(ns, sn) \<in> set (meta_NamespaceConfigSnapshots st)" "set xs \<subseteq> set sn" for q i ns sn xs
    using that(1,3)
  proof (induction xs arbitrary: q)
    case (Cons x xs)
    obtain t b where x: "x = (t, b)" by fastforce
    have "from_log E rows (mergeSnapshot E' i ns x q)"
      unfolding x by (rule one [OF Cons.prems(1) that(2)]) (use Cons.prems(2) x in auto)
    with Cons show ?case by simp
  qed simp
  have "from_log E rows (fold (\<lambda>(ns, sn). fold (mergeSnapshot E' i ns) sn) m q)"
    if "from_log E rows q" "set m \<subseteq> set (meta_NamespaceConfigSnapshots st)" for q i m
    using that
  proof (induction m arbitrary: q)
    case (Cons x m)
    obtain ns sn where x: "x = (ns, sn)" by fastforce
    have "from_log E rows (fold (mergeSnapshot E' i ns) sn q)"
      by (rule inner [OF Cons.prems(1) _ subset_refl]) (use Cons.prems(2) x in auto)
    with Cons x show ?case by simp
  qed simp
  with p show ?thesis by (simp add: MergeRemoteState_def Inr)
qed

lemma from_log_event:
  assumes "from_log E rows (PeerStore a)" "same_codec E E'" "same_json N N'"
    and "\<And>buf. e = RemoteState buf \<Longrightarrow> msg_from_log E N rows buf"
  shows "from_log E rows (PeerStore (on_event L E' N' e a))"
proof (cases e)
  case (RemoteState buf)
  with from_log_Merge [OF assms(1) assms(4) assms(2,3)] show ?thesis by simp
qed (use assms(1) in \<open>simp_all add: NotifyUpdate_def NotifyMsg_def from_log_Delete\<close>)

lemma from_log_events:
  assumes "same_codec E E'" "same_json N N'" "\<And>buf. RemoteState buf \<in> set es \<Longrightarrow> msg_from_log E N rows buf"
  shows "from_log E rows (PeerStore a) \<Longrightarrow> from_log E rows (PeerStore (fold (on_event L E' N') es a))"
  using assms(3)
proof (induction es arbitrary: a)
  case (Cons e es)
  have "from_log E rows (PeerStore (on_event L E' N' e a))"
    by (rule from_log_event [OF Cons.prems(1) assms(1,2)]) (use Cons.prems(2) in auto)
  with Cons show ?case by simp
qed simp

subsection \<open>Messages\<close>

lemma LocalState_from_log:
  assumes wf: "wf_peer_store (PeerStore a)" and p: "from_log E rows (PeerStore a)"
    and buf: "LocalState E' N' join a = Inr buf"
    and codec: "same_codec E E'" "same_json N N'" "pj_keeps E" "json_keeps N"
  shows "msg_from_log E N rows buf"
  unfolding msg_from_log_def
proof (intro allI impI)
  fix st ns sn t b c
  assume st: "json_Unmarshal N buf = Inr st" and mem: "(ns, sn) \<in> set (meta_NamespaceConfigSnapshots st)" "(t, b) \<in> set sn"
    and c: "pj_Unmarshal E b = Inr c"
  obtain cfgs where cfgs: "GetNamespaceConfigSnapshots (PeerStore a) (server_id a) = Inr cfgs"
    and buf': "buf = sent (json_Marshal N \<lparr>meta_NodeID = server_id a, meta_ServerPort = ServerPort (Configs a),
      meta_NamespaceConfigSnapshots = serializeConfigs E' cfgs\<rparr>)"
    using buf codec(2) by (auto simp: LocalState_def same_json_def split: sum.splits)
  obtain t0 where at: "serialized_at (serializeConfigs E' cfgs) ns t0 = Some b"
    and t0: "time_UTC (time_Round0 t) = time_UTC (time_Round0 t0)"
    using codec(4) st mem unfolding buf' json_keeps_def NodeMetadata.simps by (metis NodeMetadata.select_convs(3))
  obtain d where d: "snapshot_at (PeerStore a) (server_id a) ns t0 = Some d" "b = sent (pj_Marshal E d)"
    using at codec(1) unfolding serialized_at_configs [OF wf cfgs] by (auto simp: same_codec_def)
  have "c = d" using codec(3) c d(2) unfolding pj_keeps_def by blast
  moreover have "utc_time t0"
    by (rule has_snapshot_utc [OF wf, of "server_id a" ns]) (simp add: has_snapshot_iff d(1))
  ultimately show "logged E rows ns (time_UTC (time_Round0 t)) c"
    using from_logD [OF p d(1)] by (simp add: t0 normalise_utc_time)
qed

subsection \<open>The changelog\<close>

lemma TopChanges_log:
  assumes "TopChanges E n w = (r, w')"
  shows "w_db w' = w_db w" "r = Inr it \<Longrightarrow> set (it_rest it) \<subseteq> set (tbl_ns_changelog (w_db w))"
  using assms by (auto simp: TopChanges_def db_Query_def dest!: subsetD [OF set_rows_seen] split: option.splits)

lemma retryTopChanges_log:
  assumes "retryTopChanges E n k w = (r, w')"
  shows "w_db w' = w_db w \<and> (\<forall>it. r = Inr it \<longrightarrow> set (it_rest it) \<subseteq> set (tbl_ns_changelog (w_db w)))"
  using assms
proof (induction k arbitrary: w)
  case 0
  then show ?case using TopChanges_log [of E n w r w'] by auto
next
  case (Suc k)
  obtain r1 w1 where top: "TopChanges E n w = (r1, w1)" by fastforce
  show ?case
  proof (cases r1)
    case (Inl e)
    with Suc top have "retryTopChanges E n k w1 = (r, w')" by simp
    from Suc.IH [OF this] TopChanges_log(1) [OF top] show ?thesis by simp
  next
    case (Inr it)
    with Suc.prems top TopChanges_log [OF top] show ?thesis by auto
  qed
qed

lemma setOwn_from_log:
  assumes "iterator_Value E' \<lparr>it_current = Some r, it_rest = rs\<rparr> = Inr e" "r \<in> rows" "same_codec E E'" "from_log E rows p"
  shows "from_log E rows (snd (setOwn i e p))"
proof -
  obtain c where c: "pj_Unmarshal E (nscl_config r) = Inr c" "entry_Config e = c" "entry_Namespace e = nscl_namespace r"
    "entry_Timestamp e = \<lparr>wall = nscl_timestamp r, mono = None, loc = row_location E'\<rparr>"
    using assms(1,3) by (auto simp: iterator_Value_def same_codec_def split: if_splits sum.splits)
  have "logged E rows (nscl_namespace r) (utc (nscl_timestamp r)) c"
    using assms(2) c(1) unfolding logged_def row_gives_def by blast
  then show ?thesis unfolding setOwn_def c(2-4) by (intro from_log_Set [OF assms(4)]) (simp add: utc_of_row)
qed

lemma watchChanges_from_log:
  assumes "same_codec E E'" "set rs \<subseteq> rows"
  shows "from_log E rows p \<Longrightarrow> from_log E rows (snd (watchChanges E' i \<lparr>it_current = c, it_rest = rs\<rparr> p))"
  using assms(2)
proof (induction rs arbitrary: c p)
  case (Cons r rs)
  have "from_log E rows (snd (watchChanges E' i \<lparr>it_current = Some r, it_rest = rs\<rparr> (snd (setOwn i e p))))"
    if "iterator_Value E' \<lparr>it_current = Some r, it_rest = rs\<rparr> = Inr e" for e
    using Cons.IH [of "snd (setOwn i e p)" "Some r"] setOwn_from_log [OF that _ assms(1) Cons.prems(1)] Cons.prems(2) by simp
  with Cons.prems(1) show ?case unfolding watchChanges_rows by (auto split: sum.split error.split)
qed (simp add: watchChanges_rows)

lemma preloadChanges_from_log:
  assumes "same_codec E E'" "set rs \<subseteq> rows"
  shows "from_log E rows p \<Longrightarrow> from_log E rows (snd (preloadChanges E' i \<lparr>it_current = c, it_rest = rs\<rparr> p))"
  using assms(2)
proof (induction rs arbitrary: c p)
  case (Cons r rs)
  have "from_log E rows (snd (preloadChanges E' i \<lparr>it_current = Some r, it_rest = rs\<rparr> (snd (setOwn i e p))))"
    if "iterator_Value E' \<lparr>it_current = Some r, it_rest = rs\<rparr> = Inr e" for e
    using Cons.IH [of "snd (setOwn i e p)" "Some r"] setOwn_from_log [OF that _ assms(1) Cons.prems(1)] Cons.prems(2) by simp
  with Cons.prems(1) show ?case unfolding preloadChanges_rows by (auto split: sum.split)
qed (simp add: preloadChanges_rows)

lemma watchRound_from_log:
  assumes "watchRound E' N a w = (Inr a', w')" "same_codec E E'"
    and "from_log E (set (tbl_ns_changelog (w_db w))) (PeerStore a)"
  shows "w_db w' = w_db w \<and> from_log E (set (tbl_ns_changelog (w_db w))) (PeerStore a')"
proof -
  obtain r w1 where top: "retryTopChanges E' 3 (backoff_retries N) w = (r, w1)" by fastforce
  note log = retryTopChanges_log [OF top]
  show ?thesis
  proof (cases r)
    case (Inl err)
    with assms top log show ?thesis by (simp add: watchRound_def)
  next
    case (Inr it)
    then obtain c rs where it: "r = Inr \<lparr>it_current = c, it_rest = rs\<rparr>" by (cases it) simp
    obtain q p where p: "watchChanges E' (server_id a) \<lparr>it_current = c, it_rest = rs\<rparr> (PeerStore a) = (q, p)" by fastforce
    have "a' = a\<lparr>PeerStore := p\<rparr>" "w' = w1" using assms(1) top it p by (auto simp: watchRound_def split: sum.splits)
    moreover have "from_log E (set (tbl_ns_changelog (w_db w))) p"
      using watchChanges_from_log [OF assms(2) _ assms(3), of rs "server_id a" c] log it p by simp
    ultimately show ?thesis using log by simp
  qed
qed

lemma New_from_log:
  assumes "NewNamespaceManager E' = Inr m" "NewAccessController L E' N' (ctrlOpts E' m cfg) w = (Inr c, w')"
    and codec: "same_codec E E'" "same_json N N'"
    and events: "\<And>buf. RemoteState buf \<in> startup_events N' cfg \<Longrightarrow> msg_from_log E N (set (tbl_ns_changelog (w_db w))) buf"
  shows "w_db w' = w_db w \<and> from_log E (set (tbl_ns_changelog (w_db w))) (PeerStore (ctl_node c))"
  using assms(1,2)
proof (rule New_Inr)
  fix it r p es
  let ?rows = "set (tbl_ns_changelog (w_db w))"
  assume top: "TopChanges E' 3 w = (Inr it, w')" and es: "set es \<subseteq> startup_events N' cfg"
    and p: "preloadChanges E' (ServerID cfg) it NewInMemoryPeerNamespaceConfigStore = (r, p)"
    and c: "ctl_node c = fold (on_event L E' N') es \<lparr>RPCRouter = NewMapClientRouter, Hashring = NewConsistentHashring L None,
       PeerStore = p, Configs = cfg\<rparr>"
  obtain cur rs where it: "it = \<lparr>it_current = cur, it_rest = rs\<rparr>" by (cases it) simp
  have "from_log E ?rows p"
    using preloadChanges_from_log [OF codec(1) _ from_log_New, of rs ?rows "ServerID cfg" cur]
      TopChanges_log(2) [OF top] p it by simp
  then have "from_log E ?rows (PeerStore (ctl_node c))"
    unfolding c by (intro from_log_events [OF codec]) (use events es in auto)
  with TopChanges_log(1) [OF top] show ?thesis by simp
qed

text \<open>Writes of tuples leave the changelog alone; a write of a configuration appends one row or none.\<close>

lemma WriteRelationTuplesTxn_log:
  assumes "WriteRelationTuplesTxn E a deltas w = (r, w')"
  shows "tbl_ns_changelog (w_db w') = tbl_ns_changelog (w_db w)" "tbl_configs (w_db w') = tbl_configs (w_db w)"
  using assms Transact_Inr [of E _ _ w _ w'] Transact_Inl [of E _ _ w _ w']
  by (fastforce simp: WriteRelationTuplesTxn_def transact_views split: sum.splits if_splits prod.splits)+

lemma log_inv_upserted:
  assumes "log_inv d" "\<forall>v \<in> set (tbl_configs d). cfgrow_namespace v = ns \<longrightarrow> cfgrow_timestamp v \<noteq> now"
  shows "log_inv (upserted E now ns json d)"
proof -
  have "now \<notin> nscl_timestamp ` {r \<in> set (tbl_ns_changelog d). nscl_namespace r = ns}"
    using assms unfolding log_inv_def by fastforce
  with assms(1) show ?thesis by (auto simp: log_inv_def dated_changes_def upserted_def)
qed

lemma inTxn_read_frame:
  "inTxn (GetConfig E ns) w t = (r, t') \<Longrightarrow> t_db t' = t_db t \<and> t_now t' = t_now t"
  "inTxn (LookupRelationReferencesByCount E ns rels) w t = (r', t'') \<Longrightarrow> t_db t'' = t_db t \<and> t_now t'' = t_now t"
proof -
  obtain r1 t1 where get: "getConfigTxn E ns t = (r1, t1)" by fastforce
  from getConfigTxn_frame [OF get] show "inTxn (GetConfig E ns) w t = (r, t') \<Longrightarrow> t_db t' = t_db t \<and> t_now t' = t_now t"
    by (simp add: inTxn_simps get split: sum.splits)
  show "inTxn (LookupRelationReferencesByCount E ns rels) w t = (r', t'') \<Longrightarrow> t_db t'' = t_db t \<and> t_now t'' = t_now t"
    unfolding inTxn_simps(2) by (rule lookupTxn_frame)
qed

definition upserts :: "sql_env \<Rightarrow> NamespaceConfig \<Rightarrow> int \<Rightarrow> db \<Rightarrow> db \<Rightarrow> bool" where
  "upserts E cfg now d d' \<longleftrightarrow>
     (\<forall>v \<in> set (tbl_configs d). cfgrow_namespace v = cfg_Name cfg \<longrightarrow> cfgrow_timestamp v \<noteq> now)
   \<and> (\<exists>json. pj_Marshal E cfg = Inr json \<and> d' = upserted E now (cfg_Name cfg) (jsonb_text E json) d)"

lemma upsert_inTxn_upserts:
  assumes "inTxn (UpsertConfig E config) w t = (Inr y, t')"
  shows "upserts E config (t_now t) (t_db t) (t_db t')"
proof -
  obtain json where json: "pj_Marshal E config = Inr json" using assms by (auto simp: inTxn_simps split: sum.splits)
  then have run: "upsertTxn E config json t = (Inr y, t')" using assms by (simp add: inTxn_simps)
  from upsertTxn_Inr [OF run] upsertTxn_fresh [OF run] json show ?thesis unfolding upserts_def by blast
qed

lemma writeConfigTxn_upserts:
  assumes "writeConfigTxn E config w t = (Inr y, t')"
  shows "upserts E config (t_now t) (t_db t) (t_db t')"
proof -
  obtain c t1 where get: "inTxn (GetConfig E (cfg_Name config)) w t = (c, t1)" by fastforce
  note f1 = inTxn_read_frame(1) [OF get]
  obtain t2 where "inTxn (UpsertConfig E config) w t2 = (Inr y, t')" "t_db t2 = t_db t" "t_now t2 = t_now t"
  proof (cases c)
    case (Inl err)
    with assms get f1 that [of t1] show thesis by (auto simp: writeConfigTxn_def split: if_splits)
  next
    case (Inr cur)
    let ?removed = "filter (\<lambda>r. r \<notin> set (map rel_Name (cfg_Relations config))) (remdups (map rel_Name (cfg_Relations cur)))"
    obtain q t2 where look: "inTxn (LookupRelationReferencesByCount E (cfg_Name config) ?removed) w t1 = (q, t2)" by fastforce
    from assms get Inr look f1 inTxn_read_frame(2) [OF look] that [of t1] that [of t2] show thesis
      by (auto simp: writeConfigTxn_def Let_def split: if_splits sum.splits)
  qed
  with upsert_inTxn_upserts [of E config w _ y t'] show ?thesis by metis
qed

lemma WriteConfig_log:
  assumes "WriteConfig E' config w = (r, w')" "same_codec E E'"
    and "\<forall>x \<in> set (tbl_ns_changelog (w_db w)). legit_row E x" "log_inv (w_db w)"
  shows "set (tbl_ns_changelog (w_db w)) \<subseteq> set (tbl_ns_changelog (w_db w')) \<and>
    (\<forall>x \<in> set (tbl_ns_changelog (w_db w')). legit_row E x) \<and> log_inv (w_db w')"
proof (cases r)
  case (Inl err)
  then have "w_db w' = w_db w"
    using assms(1) WrapTransaction_Inl [of E' _ w _ w']
    by (auto simp: WriteConfig_def split: option.splits if_splits sum.splits prod.splits error.splits)
  with assms(3,4) show ?thesis by simp
next
  case (Inr y)
  then obtain cfg where cfg: "config = Some cfg" "validated cfg"
    and wrap: "WrapTransaction E' (writeConfigTxn E' cfg w) w = (Inr (), w')"
    using assms(1)
    by (auto simp: WriteConfig_def validated_def split: option.splits if_splits sum.splits prod.splits error.splits)
  from WrapTransaction_Inr [OF wrap] obtain t t' where "writeConfigTxn E' cfg w t = (Inr (), t')"
    "w_db w' = t_db t'" "t_db t = w_db w" by fastforce
  with writeConfigTxn_upserts have "upserts E' cfg (t_now t) (w_db w) (w_db w')" by metis
  then obtain json where "pj_Marshal E' cfg = Inr json"
    and w': "w_db w' = upserted E' (t_now t) (cfg_Name cfg) (jsonb_text E' json) (w_db w)"
    and "\<forall>v \<in> set (tbl_configs (w_db w)). cfgrow_namespace v = cfg_Name cfg \<longrightarrow> cfgrow_timestamp v \<noteq> t_now t"
    unfolding upserts_def by blast
  then have "pj_Marshal E' cfg = Inr json" "log_inv (w_db w')" by (simp_all add: log_inv_upserted [OF assms(4)])
  moreover have "legit_row E \<lparr>nscl_namespace = cfg_Name cfg, nscl_operation = upsert_operation (w_db w) (cfg_Name cfg),
      nscl_config = jsonb_text E' json, nscl_timestamp = t_now t\<rparr>"
    using cfg(2) calculation(1) assms(2)
    by (auto simp: legit_row_def same_codec_def upsert_operation_def AddNamespace_def UpdateNamespace_def)
  ultimately show ?thesis using assms(3) by (auto simp: w' upserted_def)
qed

end
