(* ===== verification/Cluster_System.thy ===== *)
theory Cluster_System
  imports Config_Provenance
begin

section \<open>A cluster over one database\<close>

text \<open>
  The whole system as a transition system: the nodes that are up, the database they share, and the
  state messages that were sent. A step is one call of the code: a node starts, watches, sends its
  state, is notified by the member list or receives a state; a configuration or tuples are written;
  a node stops. A message may be delivered to any node, late, repeatedly, or never. Faults, clock and
  truncated results differ from step to step (\<open>E'\<close>, \<open>N'\<close>), the codecs do not.
\<close>

subsection \<open>Definitions\<close>

record 'r system =
  sys_nodes :: "string \<rightharpoonup> 'r AccessController"
  sys_world :: world
  sys_sent :: "string set"

definition sys_log :: "'r system \<Rightarrow> ns_change_row set" where
  "sys_log s = set (tbl_ns_changelog (w_db (sys_world s)))"

text \<open>A fresh database and no node.\<close>

definition sys_init :: "'r system \<Rightarrow> bool" where
  "sys_init s \<longleftrightarrow> sys_nodes s = Map.empty \<and> tbl_ns_changelog (w_db (sys_world s)) = [] \<and> sys_sent s = {}"

inductive sys_step :: "'r consistent_lib \<Rightarrow> sql_env \<Rightarrow> net_env \<Rightarrow> 'r system \<Rightarrow> 'r system \<Rightarrow> bool"
  for L E N where
  node_starts: "same_codec E E' \<Longrightarrow> same_json N N' \<Longrightarrow> NewNamespaceManager E' = Inr m \<Longrightarrow>
    NewAccessController L E' N' (ctrlOpts E' m cfg) (sys_world s) = (Inr c, w') \<Longrightarrow>
    (\<And>buf. RemoteState buf \<in> startup_events N' cfg \<Longrightarrow> buf \<in> sys_sent s) \<Longrightarrow>
    sys_step L E N s (s\<lparr>sys_nodes := (sys_nodes s)(ServerID cfg \<mapsto> ctl_node c), sys_world := w'\<rparr>)"
| node_watches: "same_codec E E' \<Longrightarrow> sys_nodes s i = Some a \<Longrightarrow> watchRound E' N' a (sys_world s) = (Inr a', w') \<Longrightarrow>
    sys_step L E N s (s\<lparr>sys_nodes := (sys_nodes s)(i \<mapsto> a'), sys_world := w'\<rparr>)"
| state_sent: "same_codec E E' \<Longrightarrow> same_json N N' \<Longrightarrow> sys_nodes s i = Some a \<Longrightarrow> LocalState E' N' join a = Inr buf \<Longrightarrow>
    sys_step L E N s (s\<lparr>sys_sent := insert buf (sys_sent s)\<rparr>)"
| node_notified: "same_codec E E' \<Longrightarrow> same_json N N' \<Longrightarrow> sys_nodes s i = Some a \<Longrightarrow>
    (\<And>buf. e = RemoteState buf \<Longrightarrow> buf \<in> sys_sent s) \<Longrightarrow>
    sys_step L E N s (s\<lparr>sys_nodes := (sys_nodes s)(i \<mapsto> on_event L E' N' e a)\<rparr>)"
| config_written: "same_codec E E' \<Longrightarrow> WriteConfig E' config (sys_world s) = (r, w') \<Longrightarrow>
    sys_step L E N s (s\<lparr>sys_world := w'\<rparr>)"
| tuples_written: "same_codec E E' \<Longrightarrow> sys_nodes s i = Some a \<Longrightarrow>
    WriteRelationTuplesTxn E' a deltas (sys_world s) = (r', w') \<Longrightarrow>
    sys_step L E N s (s\<lparr>sys_world := w'\<rparr>)"
| node_stops: "sys_step L E N s (s\<lparr>sys_nodes := (sys_nodes s)(i := None)\<rparr>)"

definition sys_reachable :: "'r consistent_lib \<Rightarrow> sql_env \<Rightarrow> net_env \<Rightarrow> 'r system \<Rightarrow> bool" where
  "sys_reachable L E N s \<longleftrightarrow> (\<exists>s0. sys_init s0 \<and> (sys_step L E N)\<^sup>*\<^sup>* s0 s)"

lemma sys_reachable_init: "sys_init s \<Longrightarrow> sys_reachable L E N s"
  unfolding sys_reachable_def by blast

lemma sys_reachable_step: "sys_reachable L E N s \<Longrightarrow> sys_step L E N s s' \<Longrightarrow> sys_reachable L E N s'"
  unfolding sys_reachable_def by (meson rtranclp.rtrancl_into_rtrancl)

subsection \<open>The invariant\<close>

definition sys_inv :: "'r consistent_lib \<Rightarrow> sql_env \<Rightarrow> net_env \<Rightarrow> 'r system \<Rightarrow> bool" where
  "sys_inv L E N s \<longleftrightarrow>
     (\<forall>r \<in> sys_log s. legit_row E r) \<and> log_inv (w_db (sys_world s))
   \<and> (\<forall>i a. sys_nodes s i = Some a \<longrightarrow> node_inv L a \<and> server_id a = i \<and> from_log E (sys_log s) (PeerStore a))
   \<and> (\<forall>buf \<in> sys_sent s. msg_from_log E N (sys_log s) buf)"

lemma sys_invD:
  assumes "sys_inv L E N s" "sys_nodes s i = Some a"
  shows "node_inv L a" "server_id a = i" "from_log E (sys_log s) (PeerStore a)" "wf_peer_store (PeerStore a)"
  using assms unfolding sys_inv_def node_inv_def by blast+

lemma sys_inv_init: "sys_init s \<Longrightarrow> sys_inv L E N s"
  by (simp add: sys_init_def sys_inv_def sys_log_def log_inv_def dated_changes_def)

text \<open>One node changes, the changelog does not.\<close>

lemma sys_inv_node:
  assumes "sys_inv L E N s" "w_db w = w_db (sys_world s)"
    and "node_inv L a" "server_id a = i" "from_log E (sys_log s) (PeerStore a)"
  shows "sys_inv L E N (s\<lparr>sys_nodes := (sys_nodes s)(i \<mapsto> a), sys_world := w\<rparr>)"
  using assms by (auto simp: sys_inv_def sys_log_def)

text \<open>The database changes: the changelog grows by legitimate rows.\<close>

lemma sys_inv_world:
  assumes "sys_inv L E N s" "sys_log s \<subseteq> set (tbl_ns_changelog (w_db w))"
    and "\<forall>r \<in> set (tbl_ns_changelog (w_db w)). legit_row E r" "log_inv (w_db w)"
  shows "sys_inv L E N (s\<lparr>sys_world := w\<rparr>)"
proof -
  have log: "sys_log (s\<lparr>sys_world := w\<rparr>) = set (tbl_ns_changelog (w_db w))" by (simp add: sys_log_def)
  from assms show ?thesis
    unfolding sys_inv_def log
    using from_log_mono [OF _ assms(2), of E] msg_from_log_mono [OF _ assms(2), of E N] by auto
qed

lemma sys_inv_step:
  assumes laws: "consistent_laws L" and codec: "pj_keeps E" "json_keeps N"
    and "sys_step L E N s s'" "sys_inv L E N s"
  shows "sys_inv L E N s'"
  using assms(4,5)
proof (induction rule: sys_step.induct)
  case (node_starts E' N' m cfg s c w')
  have "w_db w' = w_db (sys_world s) \<and> from_log E (set (tbl_ns_changelog (w_db (sys_world s)))) (PeerStore (ctl_node c))"
    by (rule New_from_log [OF node_starts(3,4,1,2)])
      (use node_starts(5,6) in \<open>auto simp: sys_inv_def sys_log_def\<close>)
  with node_inv_New [OF laws node_starts(3,4)] sys_inv_node [OF node_starts(6)] show ?case
    by (simp add: sys_log_def)
next
  case (node_watches E' s i a N' a' w')
  note a = sys_invD [OF node_watches(4,2)]
  from watchRound_from_log [OF node_watches(3,1)] a(3)
  have "w_db w' = w_db (sys_world s)" "from_log E (sys_log s) (PeerStore a')" by (simp_all add: sys_log_def)
  with node_inv_watch [OF a(1) node_watches(3)] a(2) show ?case
    by (intro sys_inv_node [OF node_watches(4)]) simp_all
next
  case (state_sent E' N' s i a join buf)
  note a = sys_invD [OF state_sent(5,3)]
  have "msg_from_log E N (sys_log s) buf"
    by (rule LocalState_from_log [OF a(4,3) state_sent(4,1,2) codec])
  with state_sent(5) show ?case by (simp add: sys_inv_def sys_log_def)
next
  case (node_notified E' N' s i a e)
  note a = sys_invD [OF node_notified(5,3)]
  have "from_log E (sys_log s) (PeerStore (on_event L E' N' e a))"
    by (rule from_log_event [OF a(3) node_notified(1,2)]) (use node_notified(4,5) in \<open>auto simp: sys_inv_def\<close>)
  from sys_inv_node [OF node_notified(5) refl node_inv_event [OF laws a(1)] _ this, where i = i] a(2)
  show ?case by (simp add: Configs_event)
next
  case (config_written E' config s r w')
  from WriteConfig_log [OF config_written(2,1)] config_written(3) show ?case
    by (intro sys_inv_world [OF config_written(3)]) (simp_all add: sys_inv_def sys_log_def)
next
  case (tuples_written E' s i a deltas r' w')
  from WriteRelationTuplesTxn_log [OF tuples_written(3)] tuples_written(4) show ?case
    by (intro sys_inv_world [OF tuples_written(4)]) (simp_all add: sys_inv_def sys_log_def log_inv_def dated_changes_def)
next
  case (node_stops s i)
  then show ?case by (auto simp: sys_inv_def sys_log_def split: if_splits)
qed

lemma sys_inv_reachable:
  assumes "consistent_laws L" "pj_keeps E" "json_keeps N" "sys_reachable L E N s"
  shows "sys_inv L E N s"
proof -
  obtain s0 where "sys_init s0" "(sys_step L E N)\<^sup>*\<^sup>* s0 s" using assms(4) unfolding sys_reachable_def by blast
  from this(2,1) show ?thesis
    by (induction rule: rtranclp_induct) (simp_all add: sys_inv_init sys_inv_step [OF assms(1-3)])
qed

subsection \<open>What nodes evaluate at\<close>

lemma logged_validated:
  assumes "\<forall>r \<in> rows. legit_row E r" "jsonb_keeps E" "logged E rows ns t c"
  shows "validated c \<and> cfg_Name c = ns"
proof -
  obtain r where r: "r \<in> rows" "row_gives E r ns t c" using assms(3) unfolding logged_def by blast
  from r(1) assms(1) obtain cfg json where cfg: "validated cfg" "nscl_namespace r = cfg_Name cfg"
    "pj_Marshal E cfg = Inr json" "nscl_config r = jsonb_text E json"
    unfolding legit_row_def by blast
  moreover have "c = cfg" using assms(2) r(2) cfg(3,4) unfolding jsonb_keeps_def row_gives_def by metis
  ultimately show ?thesis using r(2) by (simp add: row_gives_def)
qed

lemma checkConfig_snapshot_at:
  assumes "checkConfig a ctx ns = Inr (cfg, ctx')"
  obtains t where "snapshot_at (PeerStore a) (server_id a) ns t = Some cfg"
  using assms
  by (auto simp: checkConfig_def GetNamespaceConfigSnapshot_eq split: option.splits sum.splits prod.splits)

subsection \<open>Two nodes that exchange their states\<close>

lemma snapshots_bounded:
  assumes "wf_peer_store p" "from_log E (set rows) p"
  shows "length (snapshots_of p peer ns) \<le> length rows"
proof -
  let ?keys = "keys (snapshots_of p peer ns)"
  have "set ?keys \<subseteq> (\<lambda>r. utc (nscl_timestamp r)) ` set rows"
  proof
    fix t
    assume "t \<in> set ?keys"
    then obtain c where "snapshot_at p peer ns t = Some c" unfolding keys_iff_map_of snapshot_at_def by blast
    from from_logD [OF assms(2) this] show "t \<in> (\<lambda>r. utc (nscl_timestamp r)) ` set rows"
      unfolding logged_def row_gives_def by blast
  qed
  then have "card (set ?keys) \<le> card (set rows)" by (meson List.finite_set card_image_le card_mono finite_imageI le_trans)
  moreover have "distinct ?keys" using wf_snapshots_of [OF assms(1)] by (simp add: wf_snapshots_def)
  ultimately show ?thesis using distinct_card [of ?keys] card_length [of rows] by simp
qed

lemma snapshot_known: "snapshot_at p peer ns t = Some c \<Longrightarrow> peer \<in> known_peers p"
  by (simp add: snapshot_at_def snapshots_of_def known_peers_iff split: option.splits)

lemma known_peers_Merge:
  assumes "json_Unmarshal N buf = Inr st"
  shows "known_peers (PeerStore (MergeRemoteState E N buf a)) \<subseteq> insert (meta_NodeID st) (known_peers (PeerStore a))"
proof -
  have inner: "known_peers (fold (mergeSnapshot E i ns) sn q) \<subseteq> insert i (known_peers q)" for i ns sn q
    by (auto simp: known_peers_merge)
  have "known_peers (fold (\<lambda>(ns, sn). fold (mergeSnapshot E i ns) sn) m q) \<subseteq> insert i (known_peers q)" for i m q
  proof (induction m arbitrary: q)
    case (Cons x m)
    obtain ns sn where "x = (ns, sn)" by fastforce
    with Cons [of "fold (mergeSnapshot E i ns) sn q"] inner [of i ns sn q] show ?case by auto
  qed auto
  then show ?thesis by (simp add: MergeRemoteState_def assms)
qed

text \<open>
  The newest change of a namespace; a node that has it; a state message that can be read back. These
  are the hypotheses of the exchange, stated once.
\<close>

definition newest_of :: "db \<Rightarrow> string \<Rightarrow> ns_change_row \<Rightarrow> bool" where
  "newest_of d ns r \<longleftrightarrow> r \<in> set (tbl_ns_changelog d) \<and> nscl_namespace r = ns \<and>
     (\<forall>q \<in> set (tbl_ns_changelog d). nscl_namespace q = ns \<longrightarrow> 0 < nscl_timestamp q \<and> nscl_timestamp q \<le> nscl_timestamp r)"

definition readable_state :: "sql_env \<Rightarrow> net_env \<Rightarrow> 'r AccessController \<Rightarrow> bool" where
  "readable_state E N a \<longleftrightarrow>
     (\<forall>cfgs. GetNamespaceConfigSnapshots (PeerStore a) (server_id a) = Inr cfgs \<longrightarrow>
        meta_survives N \<lparr>meta_NodeID = server_id a, meta_ServerPort = ServerPort (Configs a),
          meta_NamespaceConfigSnapshots = serializeConfigs E cfgs\<rparr>)
   \<and> (\<forall>ns t c. snapshot_at (PeerStore a) (server_id a) ns t = Some c \<longrightarrow> pj_survives E c)"

lemma readable_state_buf:
  assumes "readable_state E N b" "LocalState E N join b = Inr buf"
  shows "\<exists>st. json_Unmarshal N buf = Inr st \<and> meta_NodeID st = server_id b"
proof -
  obtain cfgs where cfgs: "GetNamespaceConfigSnapshots (PeerStore b) (server_id b) = Inr cfgs"
    and buf: "buf = sent (json_Marshal N \<lparr>meta_NodeID = server_id b, meta_ServerPort = ServerPort (Configs b),
      meta_NamespaceConfigSnapshots = serializeConfigs E cfgs\<rparr>)"
    using assms(2) by (auto simp: LocalState_def split: sum.splits)
  with assms(1) have "meta_survives N \<lparr>meta_NodeID = server_id b, meta_ServerPort = ServerPort (Configs b),
      meta_NamespaceConfigSnapshots = serializeConfigs E cfgs\<rparr>"
    unfolding readable_state_def by blast
  then show ?thesis unfolding meta_survives_def buf by (auto simp: sent_def)
qed

lemma exchange_snapshots:
  assumes "readable_state E N b" "LocalState E N join b = Inr buf" "wf_peer_store (PeerStore b)"
  shows "snapshot_at (PeerStore (MergeRemoteState E N buf a)) peer ns t =
    (if peer = server_id b then override (snapshot_at (PeerStore b) peer ns t) (snapshot_at (PeerStore a) peer ns t)
     else snapshot_at (PeerStore a) peer ns t)"
proof -
  obtain cfgs where cfgs: "GetNamespaceConfigSnapshots (PeerStore b) (server_id b) = Inr cfgs"
    using assms(2) by (auto simp: LocalState_def split: sum.splits)
  show ?thesis
    by (rule gossip_snapshots [OF assms(3) cfgs _ _ assms(2)]) (use assms(1) cfgs in \<open>auto simp: readable_state_def\<close>)
qed

lemma newest_of_snapshot:
  assumes "newest_of d ns r" "from_log E (set (tbl_ns_changelog d)) p" "snapshot_at p peer ns t = Some c"
  shows "0 < wall t" "wall t \<le> nscl_timestamp r" "t = utc (wall t)"
  using from_logD [OF assms(2,3)] assms(1) unfolding logged_def row_gives_def newest_of_def by (auto simp: utc_def)

lemma stamped_from_log:
  assumes "newest_of d ns r" "from_log E (set (tbl_ns_changelog d)) p" "wf_peer_store p"
    and "int (length (tbl_ns_changelog d)) < MaxInt32"
  shows "stamped p ns"
  unfolding stamped_def
proof (intro ballI conjI)
  fix peer t
  assume "t \<in> set (keys (snapshots_of p peer ns))"
  then show "0 < wall t"
    using newest_of_snapshot(1) [OF assms(1,2)] unfolding keys_iff_map_of snapshot_at_def by blast
next
  fix peer
  show "int (length (snapshots_of p peer ns)) < MaxInt32"
    using snapshots_bounded [OF assms(3,2), of peer ns] assms(4) by linarith
qed

lemma logged_unique:
  assumes "dated_changes d" "logged E (set (tbl_ns_changelog d)) ns t c" "logged E (set (tbl_ns_changelog d)) ns t c'"
  shows "c' = c"
proof -
  obtain q q' where q: "q \<in> set (tbl_ns_changelog d)" "row_gives E q ns t c" "q' \<in> set (tbl_ns_changelog d)" "row_gives E q' ns t c'"
    using assms(2,3) unfolding logged_def by blast
  then have "change_key q = change_key q'" by (auto simp: row_gives_def change_key_def utc_def)
  then have "q = q'" using inj_onD [OF change_key_inj [OF assms(1)]] q(1,3) by blast
  with q(2,4) show ?thesis by (simp add: row_gives_def)
qed

lemma merge_chooses_newest:
  assumes r: "newest_of d ns r" and d: "dated_changes d" "int (length (tbl_ns_changelog d)) < MaxInt32"
    and a: "wf_peer_store (PeerStore a)" "from_log E (set (tbl_ns_changelog d)) (PeerStore a)"
      "snapshot_at (PeerStore a) (server_id a) ns (utc (nscl_timestamp r)) = Some c"
    and b: "wf_peer_store (PeerStore b)" "from_log E (set (tbl_ns_changelog d)) (PeerStore b)"
      "snapshot_at (PeerStore b) (server_id b) ns (utc (nscl_timestamp r)) = Some c"
    and peers: "known_peers (PeerStore a) \<subseteq> {server_id a, server_id b}" "server_id a \<noteq> server_id b"
    and buf: "readable_state E N b" "LocalState E N join b = Inr buf"
  shows "chooseNamespaceConfigSnapshot (PeerStore (MergeRemoteState E N buf a)) ns =
    Inr \<lparr>snap_Config = Some c, snap_Timestamp = utc (nscl_timestamp r)\<rparr>"
proof -
  let ?p = "PeerStore (MergeRemoteState E N buf a)" and ?t = "utc (nscl_timestamp r)"
  note at = exchange_snapshots [OF buf b(1), of a]
  have wf: "wf_peer_store ?p" by (rule wf_MergeRemoteState [OF a(1)])
  have log: "from_log E (set (tbl_ns_changelog d)) ?p"
    using a(2) b(2) unfolding from_log_def at by (auto simp: override_def split: if_splits option.splits)
  have own: "snapshot_at ?p (server_id a) ns ?t = Some c" "snapshot_at ?p (server_id b) ns ?t = Some c"
    using a(3) b(3) peers(2) by (simp_all add: at override_def)
  obtain st where st: "json_Unmarshal N buf = Inr st" "meta_NodeID st = server_id b"
    using readable_state_buf [OF buf] by blast
  have known: "known_peers ?p = {server_id a, server_id b}"
    using known_peers_Merge [OF st(1), of E a] st(2) peers(1) own [THEN snapshot_known] by auto
  have common: "common_to_all ?p ns ?t" by (simp add: common_to_all_def known has_snapshot_iff own)
  obtain ts peer c' where ts: "\<forall>t. common_to_all ?p ns t \<longrightarrow> wall t \<le> wall ts" "snapshot_at ?p peer ns ts = Some c'"
    "chooseNamespaceConfigSnapshot ?p ns = Inr \<lparr>snap_Config = Some c', snap_Timestamp = ts\<rparr>"
    by (rule choose_common_newest [OF wf stamped_from_log [OF r log wf d(2)] _ _ common]) (simp_all add: known card_insert_if)
  have "wall ?t \<le> wall ts" using ts(1) common by blast
  then have "wall ts = nscl_timestamp r" using newest_of_snapshot(2) [OF r log ts(2)] by (simp add: utc_def)
  with newest_of_snapshot(3) [OF r log ts(2)] have t: "ts = ?t" by simp
  have "c' = c" by (rule logged_unique [OF d(1) from_logD [OF log own(1)] from_logD [OF log ts(2) [unfolded t]]])
  with t ts(3) show ?thesis by simp
qed

text \<open>What a node has after a round without faults.\<close>

lemma legit_readable:
  assumes "legit_row E r" "jsonb_reads E"
  shows "readable_change E r"
proof -
  obtain cfg json where "pj_Marshal E cfg = Inr json" "nscl_config r = jsonb_text E json"
    using assms(1) unfolding legit_row_def by blast
  with assms show ?thesis unfolding legit_row_def jsonb_reads_def readable_change_def by simp
qed

lemma newest_of_changes: "newest_of d ns r \<Longrightarrow> r \<in> newest_changes 3 d"
proof -
  assume r: "newest_of d ns r"
  then have none: "{t \<in> nscl_timestamp ` {q \<in> set (tbl_ns_changelog d). nscl_namespace q = nscl_namespace r}. nscl_timestamp r < t} = {}"
    unfolding newest_of_def by fastforce
  have "r \<in> set (tbl_ns_changelog d)" using r unfolding newest_of_def by blast
  then show ?thesis unfolding newest_changes_def mem_Collect_eq none by simp
qed

lemma known_peers_load: "known_peers (fold (load_change E i) rows p) \<subseteq> insert i (known_peers p)"
proof (induction rows arbitrary: p)
  case (Cons r rows)
  have "known_peers (load_change E i r p) \<subseteq> insert i (known_peers p)" by (simp add: load_change_def)
  with Cons [of "load_change E i r p"] show ?case by auto
qed auto

lemma watched_newest:
  assumes inv: "sys_inv L E N s" "sys_nodes s i = Some a" and w: "w_db w = w_db (sys_world s)"
    and E: "jsonb_reads E" "faultless E" "\<forall>n. cut E n = None"
    and r: "newest_of (w_db w) ns r" and run: "watchRound E N a w = (Inr a', w')"
  shows "w_db w' = w_db w" "server_id a' = i" "wf_peer_store (PeerStore a')"
    "from_log E (set (tbl_ns_changelog (w_db w))) (PeerStore a')"
    "snapshot_at (PeerStore a') i ns (utc (nscl_timestamp r)) = Some (change_config E r)"
    "known_peers (PeerStore a') \<subseteq> insert i (known_peers (PeerStore a))"
proof -
  note a = sys_invD [OF inv]
  have log: "log_inv (w_db w)" "\<forall>q \<in> set (tbl_ns_changelog (w_db w)). legit_row E q"
    using inv(1) w unfolding sys_inv_def sys_log_def by simp_all
  have codec: "same_codec E E" by (simp add: same_codec_def)
  show "w_db w' = w_db w" "from_log E (set (tbl_ns_changelog (w_db w))) (PeerStore a')"
    using watchRound_from_log [OF run codec] a(3) w by (simp_all add: sys_log_def)
  show "server_id a' = i" "wf_peer_store (PeerStore a')"
    using node_inv_watch [OF a(1) run] a(2) by (simp_all add: node_inv_def)
  have dated: "dated_changes (w_db w)" using log(1) by (simp add: log_inv_def)
  have readable: "\<forall>q \<in> newest_changes 3 (w_db w). readable_change E q"
    using log(2) legit_readable [OF _ E(1)] unfolding newest_changes_def by blast
  obtain rs where rs: "a' = a\<lparr>PeerStore := fold (load_change E (server_id a)) rs (PeerStore a)\<rparr>"
    "set rs = newest_changes 3 (w_db w)" "inj_on change_key (set rs)"
    by (rule watchRound_load [OF E(2,3) dated readable, of N a]) (use run in simp)
  from loaded_change [OF rs(3), of r E "server_id a" "PeerStore a"] newest_of_changes [OF r] rs(2) r a(2)
  show "snapshot_at (PeerStore a') i ns (utc (nscl_timestamp r)) = Some (change_config E r)"
    by (simp add: rs(1) newest_of_def)
  show "known_peers (PeerStore a') \<subseteq> insert i (known_peers (PeerStore a))"
    using known_peers_load [of E i rs "PeerStore a"] a(2) by (simp add: rs(1))
qed

subsection \<open>The background work does not panic\<close>

lemma watchChanges_ok:
  assumes "\<forall>r \<in> set rows. nscl_operation r = ''ADD'' \<or> nscl_operation r = ''UPDATE''"
    and "\<And>r m. r \<in> set rows \<Longrightarrow> pj_Unmarshal E (nscl_config r) \<noteq> Inl (Panic m)"
  shows "\<exists>p'. watchChanges E i \<lparr>it_current = c, it_rest = rows\<rparr> p = (Inr (), p')"
  using assms
proof (induction rows arbitrary: c p)
  case (Cons r rows)
  have IH: "\<exists>p'. watchChanges E i \<lparr>it_current = Some r, it_rest = rows\<rparr> q = (Inr (), p')" for q
    using Cons by simp
  have "is_change e" if "iterator_Value E \<lparr>it_current = Some r, it_rest = rows\<rparr> = Inr e" for e
    using that Cons.prems(1) by (auto simp: iterator_Value_def is_change_def split: if_splits sum.splits)
  moreover have "iterator_Value E \<lparr>it_current = Some r, it_rest = rows\<rparr> \<noteq> Inl (Panic m)" for m
    using Cons.prems(1) Cons.prems(2) [of r m] by (auto simp: iterator_Value_def split: if_splits sum.splits)
  ultimately show ?case using IH unfolding watchChanges_rows by (auto split: sum.split error.split)
qed (simp add: watchChanges_rows)

lemma watchRound_ok:
  assumes "\<forall>r \<in> set (tbl_ns_changelog (w_db w)). nscl_operation r = ''ADD'' \<or> nscl_operation r = ''UPDATE''"
    and "\<And>j m. pj_Unmarshal E j \<noteq> Inl (Panic m)"
  shows "\<exists>a' w'. watchRound E N a w = (Inr a', w')"
proof -
  obtain r w1 where top: "retryTopChanges E 3 (backoff_retries N) w = (r, w1)" by fastforce
  show ?thesis
  proof (cases r)
    case (Inl err)
    with top show ?thesis by (simp add: watchRound_def)
  next
    case (Inr it)
    then obtain c rows where it: "r = Inr \<lparr>it_current = c, it_rest = rows\<rparr>" by (cases it) simp
    have "set rows \<subseteq> set (tbl_ns_changelog (w_db w))" using retryTopChanges_log [OF top] it by simp
    then have "\<exists>p'. watchChanges E (server_id a) \<lparr>it_current = c, it_rest = rows\<rparr> (PeerStore a) = (Inr (), p')"
      by (intro watchChanges_ok) (use assms in auto)
    with top it show ?thesis by (auto simp: watchRound_def)
  qed
qed

subsection \<open>A cluster of two nodes\<close>

text \<open>
  Two nodes come up on an empty database, the configuration of \<open>docs\<close> is written; each then watches
  and sends its state.
\<close>

definition docs_env :: sql_env where
  "docs_env = plain_env [(cfg_docs, ''docs-json'')]"

definition cfg_n2 :: NodeConfigs where
  "cfg_n2 = cfg_n1\<lparr>ServerID := ''n2''\<rparr>"

definition docs_net :: net_env where
  "docs_net = table_net [(docs_meta, ''state-n1''), (docs_meta\<lparr>meta_NodeID := ''n2''\<rparr>, ''state-n2'')]"

definition docs_row :: ns_change_row where
  "docs_row = \<lparr>nscl_namespace = ''docs'', nscl_operation = ''ADD'', nscl_config = ''docs-json'', nscl_timestamp = 1\<rparr>"

lemma docs_codec: "pj_keeps docs_env" "jsonb_keeps docs_env" "jsonb_reads docs_env" "json_keeps docs_net"
proof -
  show "pj_keeps docs_env" "jsonb_keeps docs_env" "jsonb_reads docs_env"
    by (auto simp: pj_keeps_def jsonb_keeps_def jsonb_reads_def docs_env_def plain_env_def sent_def split: if_splits)
  show "json_keeps docs_net"
    by (auto simp: json_keeps_def docs_net_def table_net_def sent_def docs_meta_def serialized_at_def split: if_splits)
qed

lemma docs_faults: "faultless docs_env" "\<forall>n. cut docs_env n = None"
  by (simp_all add: docs_env_def plain_env_def faultless_def)

lemma docs_cluster:
  obtains s where "sys_reachable list_ring docs_env docs_net s"
    "sys_nodes s ''n1'' = Some (fresh_node cfg_n1)" "sys_nodes s ''n2'' = Some (fresh_node cfg_n2)"
    "tbl_ns_changelog (w_db (sys_world s)) = [docs_row]"
proof -
  let ?s0 = "\<lparr>sys_nodes = Map.empty, sys_world = session empty_db, sys_sent = {}\<rparr> :: string list system"
  have codec: "same_codec docs_env docs_env" "same_json docs_net docs_net"
    "same_codec docs_env (docs_env\<lparr>clock := \<lambda>_. 1\<rparr>)" by (simp_all add: same_codec_def same_json_def)
  have m: "NewNamespaceManager docs_env = Inr (sqlNamespaceManager docs_env)" by (simp add: NewNamespaceManager_def)
  have quiet: "RemoteState buf \<notin> startup_events docs_net cfg" if "Join cfg = ''''" for buf cfg
    using that by (simp add: startup_events_def docs_net_def table_net_def)
  have j: "Join cfg_n1 = ''''" "Join cfg_n2 = ''''" by (simp_all add: cfg_n1_def cfg_n2_def)
  have empty: "tbl_ns_changelog (w_db (session empty_db)) = []" "w_db (session empty_db) = empty_db" by (simp_all add: session_def empty_db_def)
  obtain c1 w1 where n1: "NewAccessController list_ring docs_env docs_net (ctrlOpts docs_env (sqlNamespaceManager docs_env) cfg_n1)
      (session empty_db) = (Inr c1, w1)" "ctl_node c1 = fresh_node cfg_n1" "w_db w1 = empty_db"
    using fresh_starts [OF empty(1) j(1), of "[(cfg_docs, ''docs-json'')]"] unfolding docs_env_def docs_net_def empty(2) by blast
  let ?s1 = "?s0\<lparr>sys_nodes := (sys_nodes ?s0)(ServerID cfg_n1 \<mapsto> ctl_node c1), sys_world := w1\<rparr>"
  have s1: "sys_step list_ring docs_env docs_net ?s0 ?s1"
    by (rule node_starts [OF codec(1,2) m]) (use n1(1) quiet [OF j(1)] in auto)
  obtain c2 w2 where n2: "NewAccessController list_ring docs_env docs_net (ctrlOpts docs_env (sqlNamespaceManager docs_env) cfg_n2)
      w1 = (Inr c2, w2)" "ctl_node c2 = fresh_node cfg_n2" "w_db w2 = empty_db"
    using fresh_starts [of w1 cfg_n2 "[(cfg_docs, ''docs-json'')]"] j(2) n1(3) empty unfolding docs_env_def docs_net_def by force
  let ?s2 = "?s1\<lparr>sys_nodes := (sys_nodes ?s1)(ServerID cfg_n2 \<mapsto> ctl_node c2), sys_world := w2\<rparr>"
  have s2: "sys_step list_ring docs_env docs_net ?s1 ?s2"
    by (rule node_starts [OF codec(1,2) m]) (use n2(1) quiet [OF j(2)] in auto)
  obtain w3 where w3: "WriteConfig (docs_env\<lparr>clock := \<lambda>_. 1\<rparr>) (Some cfg_docs) w2 = (Inr (), w3)"
    "tbl_ns_changelog (w_db w3) = [docs_row]"
    using write_config_docs_at [OF n2(3), of "\<lambda>_. 1" "''docs-json''"] by (auto simp: docs_env_def docs_row_def)
  let ?s3 = "?s2\<lparr>sys_world := w3\<rparr>"
  have s3: "sys_step list_ring docs_env docs_net ?s2 ?s3"
    by (rule config_written [OF codec(3)]) (use w3(1) in auto)
  have "sys_reachable list_ring docs_env docs_net ?s0"
    by (rule sys_reachable_init) (simp add: sys_init_def session_def empty_db_def)
  note sys_reachable_step [OF sys_reachable_step [OF sys_reachable_step [OF this s1] s2] s3]
  then show thesis by (rule that) (use n1(2) n2(2) w3(2) in \<open>simp_all add: cfg_n1_def cfg_n2_def\<close>)
qed

text \<open>A node of the cluster after its round.\<close>

definition docs_node :: "NodeConfigs \<Rightarrow> string list AccessController" where
  "docs_node cfg = (fresh_node cfg)\<lparr>PeerStore := store_of [(ServerID cfg, ''docs'', cfg_docs, utc 1)]\<rparr>"

lemma docs_watch:
  assumes "tbl_ns_changelog (w_db w) = [docs_row]"
  obtains w' where "w_db w' = w_db w" "watchRound docs_env docs_net (fresh_node cfg) w =
    (Inr (docs_node cfg), w')"
proof -
  have top: "set (top_timestamps 3 (nscl_namespace docs_row) [docs_row]) = {1}"
    by (simp add: top_timestamps_def docs_row_def)
  have "nscl_timestamp docs_row = 1" by (simp add: docs_row_def)
  with top obtain w' where w': "TopChanges docs_env 3 w = (Inr \<lparr>it_current = None, it_rest = [docs_row]\<rparr>, w')" "w_db w' = w_db w"
    using assms by (simp add: TopChanges_def db_Query_def docs_env_def plain_env_def)
  have "readable_change docs_env docs_row"
    by (simp add: readable_change_def docs_row_def docs_env_def plain_env_def)
  then have "watchChanges docs_env i \<lparr>it_current = None, it_rest = [docs_row]\<rparr> p = (Inr (), load_change docs_env i docs_row p)" for i p
    using watchChanges_load [of "[docs_row]" docs_env i None p] by simp
  moreover have "load_change docs_env i docs_row NewInMemoryPeerNamespaceConfigStore = store_of [(i, ''docs'', cfg_docs, utc 1)]" for i
    by (simp add: load_change_def store_of_def docs_row_def change_config_def docs_env_def plain_env_def
        SetNamespaceConfigSnapshot_def time_UTC_def time_Round0_def utc_def)
  ultimately show thesis
    using w' by (intro that [of w']) (simp_all add: watchRound_def docs_net_def table_net_def docs_node_def fresh_node_def)
qed

lemma docs_node_state:
  assumes "ServerPort cfg = 50052"
  shows "GetNamespaceConfigSnapshots (PeerStore (docs_node cfg)) (ServerID cfg) = Inr [(''docs'', [(utc 1, cfg_docs)])]"
    and "\<lparr>meta_NodeID = ServerID cfg, meta_ServerPort = ServerPort cfg,
      meta_NamespaceConfigSnapshots = serializeConfigs docs_env [(''docs'', [(utc 1, cfg_docs)])]\<rparr> =
      docs_meta\<lparr>meta_NodeID := ServerID cfg\<rparr>"
  using assms
  by (simp_all add: GetNamespaceConfigSnapshots_def docs_node_def store_eval serializeConfigs_def addSerialized_def
      sent_def docs_env_def plain_env_def docs_meta_def)

lemma docs_node_sends:
  "readable_state docs_env docs_net (docs_node cfg_n1)" "LocalState docs_env docs_net x (docs_node cfg_n1) = Inr ''state-n1''"
  "readable_state docs_env docs_net (docs_node cfg_n2)" "LocalState docs_env docs_net x (docs_node cfg_n2) = Inr ''state-n2''"
proof -
  have id: "Configs (docs_node cfg) = cfg" for cfg by (simp add: docs_node_def fresh_node_def)
  have p: "ServerPort cfg_n1 = 50052" "ServerPort cfg_n2 = 50052" "ServerID cfg_n1 = ''n1''" "ServerID cfg_n2 = ''n2''"
    by (simp_all add: cfg_n1_def cfg_n2_def)
  have n1: "docs_meta\<lparr>meta_NodeID := ''n1''\<rparr> = docs_meta" by (simp add: docs_meta_def)
  have n2: "docs_meta\<lparr>meta_NodeID := ''n2''\<rparr> \<noteq> docs_meta" by (simp add: docs_meta_def)
  note n1_meta = docs_node_state [OF p(1), unfolded p(3) n1] and n2_meta = docs_node_state [OF p(2), unfolded p(4)]
  show "LocalState docs_env docs_net x (docs_node cfg_n1) = Inr ''state-n1''"
    unfolding LocalState_def id p(3) n1_meta(1) sum.case n1_meta(2) by (simp add: docs_net_def table_net_def sent_def)
  show "LocalState docs_env docs_net x (docs_node cfg_n2) = Inr ''state-n2''"
    unfolding LocalState_def id p(4) n2_meta(1) sum.case n2_meta(2) by (simp add: docs_net_def table_net_def sent_def n2)
  have pj: "snapshot_at (PeerStore (docs_node cfg)) i ns t = Some c \<Longrightarrow> pj_survives docs_env c" for cfg i ns t c
    by (auto simp: docs_node_def store_eval pj_survives_def docs_env_def plain_env_def split: if_splits)
  have "meta_survives docs_net docs_meta" "meta_survives docs_net (docs_meta\<lparr>meta_NodeID := ''n2''\<rparr>)"
    by (simp_all add: meta_survives_def docs_net_def table_net_def n2) (simp_all add: docs_meta_def)
  then show "readable_state docs_env docs_net (docs_node cfg_n1)" "readable_state docs_env docs_net (docs_node cfg_n2)"
    unfolding readable_state_def id p(3,4) n1_meta(1) n2_meta(1) using pj by (auto simp: n1_meta(2) n2_meta(2))
qed

lemma docs_node_choice:
  "chooseNamespaceConfigSnapshot (PeerStore (docs_node cfg)) ''docs'' = Inr \<lparr>snap_Config = Some cfg_docs, snap_Timestamp = utc 1\<rparr>"
  by (simp add: docs_node_def one_peer)

lemma docs_cluster_watched:
  obtains s where "sys_reachable list_ring docs_env docs_net s" "sys_nodes s ''n1'' = Some (docs_node cfg_n1)"
proof -
  obtain s where s: "sys_reachable list_ring docs_env docs_net s" "sys_nodes s ''n1'' = Some (fresh_node cfg_n1)"
    "tbl_ns_changelog (w_db (sys_world s)) = [docs_row]"
    by (rule docs_cluster)
  obtain w' where w': "watchRound docs_env docs_net (fresh_node cfg_n1) (sys_world s) = (Inr (docs_node cfg_n1), w')"
    by (rule docs_watch [OF s(3), of cfg_n1])
  have "same_codec docs_env docs_env" by (simp add: same_codec_def)
  from sys_reachable_step [OF s(1) node_watches [OF this s(2) w']] show thesis by (rule that) simp
qed

subsection \<open>Properties\<close>





text \<open>C9: a cluster of two nodes converges. In any reachable state in which the two nodes know of no
  other peer, let each complete a watch round without faults and receive the state that the other
  sends after its round: then both choose the same snapshot of every namespace, the newest one in the
  changelog.\<close>

theorem exchange_converges:
  assumes "consistent_laws L" "pj_keeps E" "jsonb_reads E" "json_keeps N" "sys_reachable L E N s"
    and "sys_nodes s i = Some a" "sys_nodes s j = Some b" "i \<noteq> j"
    and "known_peers (PeerStore a) \<subseteq> {i, j}" "known_peers (PeerStore b) \<subseteq> {i, j}"
    and "newest_of (w_db (sys_world s)) ns r" "int (length (tbl_ns_changelog (w_db (sys_world s)))) < MaxInt32"
    and "faultless E" "\<forall>n. cut E n = None"
    and "watchRound E N a (sys_world s) = (Inr a', w1)" "watchRound E N b w1 = (Inr b', w2)"
    and "readable_state E N a'" "LocalState E N x a' = Inr bufa" "readable_state E N b'" "LocalState E N y b' = Inr bufb"
  shows "chooseNamespaceConfigSnapshot (PeerStore (MergeRemoteState E N bufb a')) ns =
      Inr \<lparr>snap_Config = Some (change_config E r), snap_Timestamp = utc (nscl_timestamp r)\<rparr>
    \<and> chooseNamespaceConfigSnapshot (PeerStore (MergeRemoteState E N bufa b')) ns =
      Inr \<lparr>snap_Config = Some (change_config E r), snap_Timestamp = utc (nscl_timestamp r)\<rparr>"
proof -
  let ?d = "w_db (sys_world s)"
  have inv: "sys_inv L E N s" by (rule sys_inv_reachable [OF assms(1,2,4,5)])
  then have d: "dated_changes ?d" unfolding sys_inv_def log_inv_def by blast
  note a = watched_newest [OF inv assms(6) refl assms(3,13,14,11,15)]
  note b = watched_newest [OF inv assms(7) a(1) assms(3,13,14) _ assms(16), unfolded a(1), OF assms(11)]
  have ka: "known_peers (PeerStore a') \<subseteq> {server_id a', server_id b'}" "server_id a' \<noteq> server_id b'"
    and kb: "known_peers (PeerStore b') \<subseteq> {server_id b', server_id a'}" "server_id b' \<noteq> server_id a'"
    using a(2,6) b(2,6) assms(8-10) by auto
  note own = a(5) [folded a(2)] b(5) [folded b(2)]
  from merge_chooses_newest [OF assms(11) d assms(12) a(3,4) own(1) b(3,4) own(2) ka assms(19,20)]
    merge_chooses_newest [OF assms(11) d assms(12) b(3,4) own(2) a(3,4) own(1) kb assms(17,18)]
  show ?thesis by blast
qed

theorem exchange_converges_witness:
  "chooseNamespaceConfigSnapshot (PeerStore (MergeRemoteState docs_env docs_net ''state-n2'' (docs_node cfg_n1))) ''docs'' =
      Inr \<lparr>snap_Config = Some (change_config docs_env docs_row), snap_Timestamp = utc 1\<rparr>"
proof -
  obtain s where s: "sys_reachable list_ring docs_env docs_net s"
    "sys_nodes s ''n1'' = Some (fresh_node cfg_n1)" "sys_nodes s ''n2'' = Some (fresh_node cfg_n2)"
    "tbl_ns_changelog (w_db (sys_world s)) = [docs_row]"
    by (rule docs_cluster)
  obtain w1 where w1: "w_db w1 = w_db (sys_world s)"
    "watchRound docs_env docs_net (fresh_node cfg_n1) (sys_world s) = (Inr (docs_node cfg_n1), w1)"
    by (rule docs_watch [OF s(4), of cfg_n1])
  obtain w2 where w2: "watchRound docs_env docs_net (fresh_node cfg_n2) w1 = (Inr (docs_node cfg_n2), w2)"
    by (rule docs_watch [of w1 cfg_n2]) (simp_all add: w1(1) s(4))
  have new: "newest_of (w_db (sys_world s)) ''docs'' docs_row" "int (length (tbl_ns_changelog (w_db (sys_world s)))) < MaxInt32"
    by (simp_all add: newest_of_def s(4)) (simp_all add: docs_row_def MaxInt32_def)
  have none: "known_peers (PeerStore (fresh_node cfg)) \<subseteq> X" for cfg X by (simp add: fresh_node_def store_eval)
  have "''n1'' \<noteq> ''n2''" by simp
  from exchange_converges [OF list_ring_laws docs_codec(1,3,4) s(1,2,3) this none none new docs_faults w1(2) w2 docs_node_sends]
  show ?thesis by (simp add: docs_row_def)
qed

end
