(* ===== verification/Membership_Steps.thy ===== *)
theory Membership_Steps
  imports Check_Engine Membership
begin

section \<open>Callbacks, call by call\<close>

text \<open>
  A node's router, ring and snapshot store have a mutex each; a callback of the member list makes
  several calls on them, and requests are served in between. Here a callback is the list of the calls
  it makes, each of them one atomic step, and the calls of the callback that is under way interleave
  with those of the goroutines that write snapshots (states received from peers, the configuration
  watch). The memberlist package delivers joins and leaves one after the other; states are merged
  concurrently.

  The lemmas relate the small steps to the callbacks of \<open>Membership\<close>, and the properties say what a
  check that reads the ring and then the router can find.
\<close>

subsection \<open>Definitions\<close>

datatype node_call =
    AddClientCall string rpc_client
  | RemoveClientCall string
  | RingAddCall string
  | RingRemoveCall string
  | DeleteSnapshotsCall string
  | SetSnapshotCall string string NamespaceConfig time

fun call_step :: "'r consistent_lib \<Rightarrow> node_call \<Rightarrow> 'r AccessController \<Rightarrow> 'r AccessController" where
  "call_step L (AddClientCall nodeID client) a = a\<lparr>RPCRouter := AddClient nodeID client (RPCRouter a)\<rparr>"
| "call_step L (RemoveClientCall nodeID) a = a\<lparr>RPCRouter := RemoveClient nodeID (RPCRouter a)\<rparr>"
| "call_step L (RingAddCall nodeID) a = a\<lparr>Hashring := ring_Add L nodeID (Hashring a)\<rparr>"
| "call_step L (RingRemoveCall nodeID) a = a\<lparr>Hashring := ring_Remove L nodeID (Hashring a)\<rparr>"
| "call_step L (DeleteSnapshotsCall nodeID) a = a\<lparr>PeerStore := snd (DeleteNamespaceConfigSnapshots nodeID (PeerStore a))\<rparr>"
| "call_step L (SetSnapshotCall nodeID ns config ts) a =
     a\<lparr>PeerStore := snd (SetNamespaceConfigSnapshot nodeID ns config ts (PeerStore a))\<rparr>"

text \<open>The calls of \<open>NotifyJoin\<close>, \<open>NotifyLeave\<close> and \<open>MergeRemoteState\<close> on the node \<open>serverID\<close>.\<close>

definition join_calls :: "net_env \<Rightarrow> string \<Rightarrow> member \<Rightarrow> node_call list" where
  "join_calls N serverID m =
     (let nodeID = mem_String m in
      if nodeID \<noteq> serverID then
        (case json_Unmarshal N (mem_Meta m) of
           Inl _ \<Rightarrow> []
         | Inr meta \<Rightarrow>
             (let remoteAddr = mem_Addr m @ '':'' @ fmt_d (meta_ServerPort meta) in
              case grpc_Dial N remoteAddr of
                Some _ \<Rightarrow> []
              | None \<Rightarrow> [AddClientCall nodeID (CheckServiceClient remoteAddr), RingAddCall nodeID]))
      else [RingAddCall nodeID])"

definition leave_calls :: "string \<Rightarrow> member \<Rightarrow> node_call list" where
  "leave_calls serverID m =
     (let nodeID = mem_String m in
      (if nodeID \<noteq> serverID then [RemoveClientCall nodeID] else []) @
      [RingRemoveCall nodeID, DeleteSnapshotsCall nodeID])"

definition merge_calls :: "sql_env \<Rightarrow> net_env \<Rightarrow> string \<Rightarrow> node_call list" where
  "merge_calls E N buf =
     (case json_Unmarshal N buf of
        Inl _ \<Rightarrow> []
      | Inr remoteState \<Rightarrow>
          concat (map (\<lambda>(namespace, sn). concat (map (\<lambda>(ts, bytes).
             case pj_Unmarshal E bytes of
               Inl _ \<Rightarrow> []
             | Inr config \<Rightarrow> [SetSnapshotCall (meta_NodeID remoteState) namespace config ts]) sn))
            (meta_NamespaceConfigSnapshots remoteState)))"

fun is_set_call :: "node_call \<Rightarrow> bool" where
  "is_set_call (SetSnapshotCall _ _ _ _) = True"
| "is_set_call _ = False"

text \<open>
  A running node: what is left of the callback under way, and what is left of each goroutine that
  writes snapshots.
\<close>

record 'r running =
  run_node :: "'r AccessController"
  run_event :: "node_call list"
  run_writers :: "node_call list list"

inductive call_by_call :: "'r consistent_lib \<Rightarrow> net_env \<Rightarrow> 'r running \<Rightarrow> 'r running \<Rightarrow> bool"
  for L N where
  join_begins: "run_event s = [] \<Longrightarrow>
    call_by_call L N s (s\<lparr>run_event := join_calls N (server_id (run_node s)) m\<rparr>)"
| leave_begins: "run_event s = [] \<Longrightarrow>
    call_by_call L N s (s\<lparr>run_event := leave_calls (server_id (run_node s)) m\<rparr>)"
| event_call: "run_event s = c # cs \<Longrightarrow>
    call_by_call L N s (s\<lparr>run_node := call_step L c (run_node s), run_event := cs\<rparr>)"
| writer_begins: "\<forall>c \<in> set cs. is_set_call c \<Longrightarrow>
    call_by_call L N s (s\<lparr>run_writers := run_writers s @ [cs]\<rparr>)"
| writer_call: "i < length (run_writers s) \<Longrightarrow> run_writers s ! i = c # cs \<Longrightarrow>
    call_by_call L N s (s\<lparr>run_node := call_step L c (run_node s), run_writers := (run_writers s)[i := cs]\<rparr>)"

text \<open>A node that came up, and any interleaving of calls after it.\<close>

definition starts_running :: "'r consistent_lib \<Rightarrow> net_env \<Rightarrow> NodeConfigs \<Rightarrow> 'r running \<Rightarrow> bool" where
  "starts_running L N cfg s \<longleftrightarrow>
     reachable_node L N cfg (run_node s) \<and> run_event s = [] \<and> run_writers s = []"

definition running :: "'r consistent_lib \<Rightarrow> net_env \<Rightarrow> NodeConfigs \<Rightarrow> 'r running \<Rightarrow> bool" where
  "running L N cfg s \<longleftrightarrow> (\<exists>s0. starts_running L N cfg s0 \<and> (call_by_call L N)\<^sup>*\<^sup>* s0 s)"

subsection \<open>The calls of a callback are the callback\<close>

lemma join_calls_fold: "fold (call_step L) (join_calls N (server_id a) m) a = NotifyJoin L N m a"
  by (simp add: join_calls_def NotifyJoin_def Let_def split: sum.split option.split)

lemma leave_calls_fold: "fold (call_step L) (leave_calls (server_id a) m) a = NotifyLeave L m a"
  by (simp add: leave_calls_def NotifyLeave_def Let_def)

lemma merge_calls_fold: "fold (call_step L) (merge_calls E N buf) a = MergeRemoteState E N buf a"
proof (cases "json_Unmarshal N buf")
  case (Inr st)
  let ?one = "\<lambda>ns (ts, bytes). case pj_Unmarshal E bytes of Inl _ \<Rightarrow> [] | Inr config \<Rightarrow> [SetSnapshotCall (meta_NodeID st) ns config ts]"
  have inner: "fold (call_step L) (concat (map (?one ns) sn)) b =
      b\<lparr>PeerStore := fold (mergeSnapshot E (meta_NodeID st) ns) sn (PeerStore b)\<rparr>" for ns sn b
    by (induction sn arbitrary: b) (auto simp: mergeSnapshot_def split: sum.split)
  have "fold (call_step L) (concat (map (\<lambda>(ns, sn). concat (map (?one ns) sn)) m)) b =
      b\<lparr>PeerStore := fold (\<lambda>(ns, sn). fold (mergeSnapshot E (meta_NodeID st) ns) sn) m (PeerStore b)\<rparr>" for m b
    by (induction m arbitrary: b) (auto simp: inner)
  then show ?thesis by (simp add: merge_calls_def MergeRemoteState_def Inr)
qed (simp add: merge_calls_def MergeRemoteState_def)

lemma merge_calls_set: "c \<in> set (merge_calls E N buf) \<Longrightarrow> is_set_call c"
  by (auto simp: merge_calls_def split: sum.splits)

lemma server_id_call [simp]: "Configs (call_step L c a) = Configs a"
  by (cases c) simp_all

lemma set_call_frame:
  assumes "is_set_call c"
  shows "RPCRouter (call_step L c a) = RPCRouter a" "Hashring (call_step L c a) = Hashring a"
  using assms by (cases c; simp)+

text \<open>A round of the configuration watch writes snapshots of the node itself and nothing else.\<close>

fun watch_calls :: "sql_env \<Rightarrow> string \<Rightarrow> ns_change_row list \<Rightarrow> node_call list" where
  "watch_calls E serverID [] = []"
| "watch_calls E serverID (r # rows) =
     (case iterator_Value E \<lparr>it_current = Some r, it_rest = rows\<rparr> of
        Inl _ \<Rightarrow> []
      | Inr change \<Rightarrow>
          if is_change change then
            SetSnapshotCall serverID (entry_Namespace change) (entry_Config change) (entry_Timestamp change) #
              watch_calls E serverID rows
          else [])"

lemma watch_calls_fold:
  "fold (call_step L) (watch_calls E i rows) a =
     a\<lparr>PeerStore := snd (watchChanges E i \<lparr>it_current = x, it_rest = rows\<rparr> (PeerStore a))\<rparr>"
proof (induction rows arbitrary: a x)
  case (Cons r rows)
  show ?case
    unfolding watchChanges_rows by (auto simp: setOwn_def Cons.IH [where x = "Some r"] split: sum.split error.split)
qed (simp add: watchChanges_rows)

lemma watch_calls_set: "c \<in> set (watch_calls E i rows) \<Longrightarrow> is_set_call c"
  by (induction rows) (auto split: sum.splits if_splits)

lemma watchRound_calls:
  assumes "watchRound E N a w = (Inr a', w')"
  obtains rows where "a' = fold (call_step L) (watch_calls E (server_id a) rows) a"
proof -
  obtain r w1 where top: "retryTopChanges E 3 (backoff_retries N) w = (r, w1)" by fastforce
  show thesis
  proof (cases r)
    case (Inl err)
    with assms top show thesis by (intro that [of "[]"]) (simp add: watchRound_def)
  next
    case (Inr it)
    then obtain x rows where it: "r = Inr \<lparr>it_current = x, it_rest = rows\<rparr>" by (cases it) simp
    with assms top show thesis
      by (intro that [of rows]) (auto simp: watchRound_def watch_calls_fold [where x = x] split: prod.splits sum.splits)
  qed
qed

subsection \<open>Router and ring between the calls\<close>

definition has_client :: "'r AccessController \<Rightarrow> string \<Rightarrow> bool" where
  "has_client a m \<longleftrightarrow> (\<exists>addr. GetClient (RPCRouter a) m = Inr (CheckServiceClient addr))"

definition agrees_at :: "'r consistent_lib \<Rightarrow> 'r AccessController \<Rightarrow> string \<Rightarrow> bool" where
  "agrees_at L a m \<longleftrightarrow> (has_client a m \<longleftrightarrow> m \<in> ring_members L (Hashring a) \<and> m \<noteq> server_id a)"

text \<open>
  The positions a callback can be at, and where router and ring agree there: everywhere, or everywhere
  but at the member that joins or leaves.
\<close>

definition agree :: "'r consistent_lib \<Rightarrow> 'r AccessController \<Rightarrow> string set \<Rightarrow> bool" where
  "agree L a X \<longleftrightarrow> (\<forall>m. m \<notin> X \<longrightarrow> agrees_at L a m)"

inductive event_inv :: "'r consistent_lib \<Rightarrow> 'r AccessController \<Rightarrow> node_call list \<Rightarrow> bool" for L a where
  idle: "agree L a {} \<Longrightarrow> event_inv L a []"
| joins_self: "agree L a {} \<Longrightarrow> m = server_id a \<Longrightarrow> event_inv L a [RingAddCall m]"
| joins: "agree L a {} \<Longrightarrow> m \<noteq> server_id a \<Longrightarrow> event_inv L a [AddClientCall m (CheckServiceClient addr), RingAddCall m]"
| client_added: "agree L a {m} \<Longrightarrow> m \<noteq> server_id a \<Longrightarrow> has_client a m \<Longrightarrow> event_inv L a [RingAddCall m]"
| leaves_self: "agree L a {} \<Longrightarrow> m = server_id a \<Longrightarrow> event_inv L a [RingRemoveCall m, DeleteSnapshotsCall m]"
| leaves: "agree L a {} \<Longrightarrow> m \<noteq> server_id a \<Longrightarrow> event_inv L a [RemoveClientCall m, RingRemoveCall m, DeleteSnapshotsCall m]"
| client_removed: "agree L a {m} \<Longrightarrow> m \<noteq> server_id a \<Longrightarrow>
    GetClient (RPCRouter a) m = Inl ErrClientNotFound \<Longrightarrow> event_inv L a [RingRemoveCall m, DeleteSnapshotsCall m]"
| out_of_ring: "agree L a {} \<Longrightarrow> event_inv L a [DeleteSnapshotsCall m]"

inductive_cases event_inv_NilE: "event_inv L a []"

definition running_inv :: "'r consistent_lib \<Rightarrow> 'r running \<Rightarrow> bool" where
  "running_inv L s \<longleftrightarrow> event_inv L (run_node s) (run_event s) \<and> (\<forall>cs \<in> set (run_writers s). \<forall>c \<in> set cs. is_set_call c)"

lemma has_client_ops [simp]:
  "has_client (a\<lparr>RPCRouter := AddClient m (CheckServiceClient addr) (RPCRouter a)\<rparr>) m' \<longleftrightarrow> m' = m \<or> has_client a m'"
  "has_client (a\<lparr>RPCRouter := RemoveClient m (RPCRouter a)\<rparr>) m' \<longleftrightarrow> m' \<noteq> m \<and> has_client a m'"
  "has_client (a\<lparr>Hashring := h\<rparr>) m' \<longleftrightarrow> has_client a m'"
  "has_client (a\<lparr>PeerStore := p\<rparr>) m' \<longleftrightarrow> has_client a m'"
  by (auto simp: has_client_def map_router.get_add map_router.get_remove)

lemma agrees_store [simp]: "agrees_at L (a\<lparr>PeerStore := p\<rparr>) m \<longleftrightarrow> agrees_at L a m"
  by (simp add: agrees_at_def)

lemma agree_store [simp]: "agree L (a\<lparr>PeerStore := p\<rparr>) X \<longleftrightarrow> agree L a X"
  by (simp add: agree_def)

lemma agree_calls:
  assumes "consistent_laws L" "agree L a X" "m \<noteq> server_id a"
  shows "agree L (a\<lparr>RPCRouter := AddClient m (CheckServiceClient addr) (RPCRouter a)\<rparr>) (insert m X)"
    and "agree L (a\<lparr>RPCRouter := RemoveClient m (RPCRouter a)\<rparr>) (insert m X)"
    and "has_client a m \<Longrightarrow> agree L (a\<lparr>Hashring := ring_Add L m (Hashring a)\<rparr>) (X - {m})"
    and "\<not> has_client a m \<Longrightarrow> agree L (a\<lparr>Hashring := ring_Remove L m (Hashring a)\<rparr>) (X - {m})"
  using assms(2,3) unfolding agree_def agrees_at_def by (auto simp: ring_members_ops [OF assms(1)])

lemma agree_self:
  assumes "consistent_laws L" "agree L a X" "m = server_id a"
  shows "agree L (a\<lparr>Hashring := ring_Add L m (Hashring a)\<rparr>) X" "agree L (a\<lparr>Hashring := ring_Remove L m (Hashring a)\<rparr>) X"
  using assms(2,3) unfolding agree_def agrees_at_def by (auto simp: ring_members_ops [OF assms(1)])

lemma event_inv_call:
  assumes laws: "consistent_laws L" and "event_inv L a (c # cs)"
  shows "event_inv L (call_step L c a) cs"
  using assms(2)
proof (cases rule: event_inv.cases)
  case (joins_self m)
  then show ?thesis using agree_self [OF laws] by (auto intro: idle)
next
  case (joins m addr)
  then show ?thesis using agree_calls(1) [OF laws joins(3,4), of addr] by (auto intro: client_added)
next
  case (client_added m)
  then show ?thesis using agree_calls(3) [OF laws client_added(3,4,5)] by (auto intro: idle)
next
  case (leaves_self m)
  then show ?thesis using agree_self [OF laws] by (auto intro: out_of_ring)
next
  case (leaves m)
  then show ?thesis using agree_calls(2) [OF laws leaves(3,4)] by (auto intro: client_removed simp: map_router.get_remove)
next
  case (client_removed m)
  then have "\<not> has_client a m" by (simp add: has_client_def)
  with client_removed show ?thesis using agree_calls(4) [OF laws client_removed(3,4)] by (auto intro: out_of_ring)
next
  case (out_of_ring m)
  then show ?thesis by (auto intro: idle)
qed

lemma event_inv_store: "event_inv L a cs \<Longrightarrow> event_inv L (a\<lparr>PeerStore := p\<rparr>) cs"
  by (cases rule: event_inv.cases) (auto intro: event_inv.intros)

lemma event_inv_set: "is_set_call c \<Longrightarrow> event_inv L a cs \<Longrightarrow> event_inv L (call_step L c a) cs"
  by (cases c) (simp_all add: event_inv_store)

lemma event_inv_join: "event_inv L a [] \<Longrightarrow> event_inv L a (join_calls N (server_id a) m)"
  by (auto simp: join_calls_def Let_def elim!: event_inv_NilE intro: event_inv.intros split: sum.split option.split)

lemma event_inv_leave: "event_inv L a [] \<Longrightarrow> event_inv L a (leave_calls (server_id a) m)"
  by (auto simp: leave_calls_def Let_def elim!: event_inv_NilE intro: leaves_self leaves)

lemma running_inv_step:
  assumes "consistent_laws L" "call_by_call L N s s'" "running_inv L s"
  shows "running_inv L s'"
  using assms(2,3)
proof (induction rule: call_by_call.induct)
  case (writer_call i s c cs)
  then have "\<forall>d \<in> set (c # cs). is_set_call d" unfolding running_inv_def by (metis nth_mem)
  with writer_call show ?case
    by (auto simp: running_inv_def event_inv_set dest: set_update_subset_insert [THEN subsetD])
qed (auto simp: running_inv_def event_inv_join event_inv_leave event_inv_call [OF assms(1)])

lemma running_inv:
  assumes "consistent_laws L" "running L N cfg s"
  shows "running_inv L s \<and> server_id (run_node s) = ServerID cfg"
proof -
  obtain s0 where s0: "starts_running L N cfg s0" "(call_by_call L N)\<^sup>*\<^sup>* s0 s" using assms(2) unfolding running_def by blast
  have node: "node_inv L (run_node s0)" "Configs (run_node s0) = cfg"
    using reachable_node_inv [OF assms(1), of N cfg "run_node s0"] s0(1) unfolding starts_running_def by blast+
  then have "agree L (run_node s0) {}"
    unfolding node_inv_def in_step_def agree_def agrees_at_def has_client_def by simp
  with s0(1) node(2) have start: "running_inv L s0 \<and> Configs (run_node s0) = cfg"
    unfolding starts_running_def running_inv_def by (simp add: idle)
  have conf: "Configs (run_node s2) = Configs (run_node s1)" if "call_by_call L N s1 s2" for s1 s2
    using that by (cases rule: call_by_call.cases) simp_all
  from s0(2) have "running_inv L s \<and> Configs (run_node s) = cfg"
    by (induction rule: rtranclp_induct) (use start running_inv_step [OF assms(1)] conf in simp_all)
  then show ?thesis by blast
qed

text \<open>A client stays until a leave of its member begins.\<close>

lemma client_stays:
  assumes "call_by_call L N s s'" "running_inv L s" "has_client (run_node s) m"
    and "RemoveClientCall m \<notin> set (run_event s)"
  shows "has_client (run_node s') m"
  using assms
proof (induction rule: call_by_call.induct)
  case (event_call s c cs)
  have "c \<noteq> RemoveClientCall m" using event_call by auto
  moreover have "\<exists>addr. cl = CheckServiceClient addr" if "c = AddClientCall n cl" for n cl
    using event_call(1,2) that unfolding running_inv_def by (auto elim: event_inv.cases)
  ultimately show ?case using event_call(3) by (cases c) auto
next
  case (writer_call i s c cs)
  then have "is_set_call c" unfolding running_inv_def by (metis list.set_intros(1) nth_mem)
  with writer_call(4) show ?case by (simp add: has_client_def set_call_frame)
qed simp_all

lemma owner_has_client:
  assumes "consistent_laws L" "running_inv L s" "ring_LocateKey L (Hashring (run_node s)) key = Some m"
  shows "m = server_id (run_node s) \<or> has_client (run_node s) m \<or> run_event s = [RingRemoveCall m, DeleteSnapshotsCall m]"
proof -
  have m: "m \<in> ring_members L (Hashring (run_node s))" by (rule ring_LocateKey_member [OF assms(1,3)])
  have "event_inv L (run_node s) (run_event s)" using assms(2) by (simp add: running_inv_def)
  then have "agrees_at L (run_node s) m \<or> has_client (run_node s) m \<or> run_event s = [RingRemoveCall m, DeleteSnapshotsCall m]"
    by (cases rule: event_inv.cases) (auto simp: agree_def dest: spec [of _ m])
  with m show ?thesis unfolding agrees_at_def by auto
qed

subsection \<open>Small steps implement the callbacks\<close>

text \<open>The node as it will be when the callback under way is through.\<close>

definition completed :: "'r consistent_lib \<Rightarrow> 'r running \<Rightarrow> 'r AccessController" where
  "completed L s = fold (call_step L) (run_event s) (run_node s)"

lemma set_delete:
  "snd (DeleteNamespaceConfigSnapshots q (snd (SetNamespaceConfigSnapshot peer ns c t p))) =
     (if q = peer then snd (DeleteNamespaceConfigSnapshots q p)
      else snd (SetNamespaceConfigSnapshot peer ns c t (snd (DeleteNamespaceConfigSnapshots q p))))"
  by (auto simp: SetNamespaceConfigSnapshot_def DeleteNamespaceConfigSnapshots_def Let_def AList.delete_update
      AList.delete_update_same delete_conv' split: option.split)

lemma set_call_commutes:
  assumes "is_set_call c" "\<not> is_set_call d"
  shows "call_step L d (call_step L c a) = call_step L c (call_step L d a) \<or> call_step L d (call_step L c a) = call_step L d a"
  using assms by (cases c; cases d) (simp_all add: set_delete)

lemma set_calls_commute:
  assumes "is_set_call c" "\<forall>d \<in> set cs. \<not> is_set_call d"
  shows "fold (call_step L) cs (call_step L c a) = call_step L c (fold (call_step L) cs a)
    \<or> fold (call_step L) cs (call_step L c a) = fold (call_step L) cs a"
  using assms(2)
proof (induction cs arbitrary: a)
  case (Cons d cs)
  have d: "\<not> is_set_call d" "\<forall>d \<in> set cs. \<not> is_set_call d" using Cons.prems by simp_all
  from set_call_commutes [OF assms(1) d(1), of L a] Cons.IH [OF d(2), of "call_step L d a"] show ?case by auto
qed simp

lemma event_calls_kind: "event_inv L a cs \<Longrightarrow> d \<in> set cs \<Longrightarrow> \<not> is_set_call d"
  by (auto elim!: event_inv.cases)

subsection \<open>Properties\<close>

text \<open>Between any two calls of the callbacks, and however the goroutines that write snapshots
  interleave, the member that the ring names is the node itself or has an RPC client in the router,
  unless the node is between the two calls of \<open>NotifyLeave\<close> that take this very member out of the
  router and out of the ring.\<close>

theorem owner_callable_or_leaving:
  assumes "consistent_laws L" "running L N cfg s" "ring_LocateKey L (Hashring (run_node s)) key = Some m"
  shows "m = ServerID cfg \<or> (\<exists>addr. GetClient (RPCRouter (run_node s)) m = Inr (CheckServiceClient addr))
    \<or> run_event s = [RingRemoveCall m, DeleteSnapshotsCall m]"
  using running_inv [OF assms(1,2)] owner_has_client [OF assms(1) _ assms(3)] unfolding has_client_def by auto

text \<open>
  The node \<open>n1\<close> after \<open>n2\<close> joined and a configuration was loaded, when \<open>n2\<close> leaves again: before the
  callback, at its beginning and after its first call.
\<close>

definition docs_n1 :: "string list AccessController" where
  "docs_n1 = call_step list_ring (SetSnapshotCall ''n1'' ''docs'' cfg_docs (utc 1)) cluster_n1"

definition before_leave :: "string list running" where
  "before_leave = \<lparr>run_node = docs_n1, run_event = [], run_writers = [[]]\<rparr>"

definition at_leave :: "string list running" where
  "at_leave = \<lparr>run_node = docs_n1, run_event = leave_calls ''n1'' peer_n2, run_writers = [[]]\<rparr>"

definition leave_window :: "string list running" where
  "leave_window = \<lparr>run_node = call_step list_ring (RemoveClientCall ''n2'') docs_n1,
     run_event = [RingRemoveCall ''n2'', DeleteSnapshotsCall ''n2''], run_writers = [[]]\<rparr>"

abbreviation port_net :: net_env where
  "port_net \<equiv> table_net [(port_meta, ''port'')]"

lemma docs_n1_owner: "ring_LocateKey list_ring (Hashring docs_n1) key = Some ''n2''" "server_id docs_n1 = ''n1''"
  by (simp_all add: docs_n1_def cluster_n1_eq node_n1_def cfg_n1_def ring_LocateKey_def list_ring_def)

lemma running_step: "running L N cfg s \<Longrightarrow> call_by_call L N s s' \<Longrightarrow> running L N cfg s'"
  unfolding running_def by (meson rtranclp.rtrancl_into_rtrancl)

lemma before_leave_running: "running list_ring port_net cfg_n1 before_leave"
proof -
  let ?s0 = "\<lparr>run_node = cluster_n1, run_event = [], run_writers = []\<rparr>" and ?c = "SetSnapshotCall ''n1'' ''docs'' cfg_docs (utc 1)"
  have "starts_running list_ring port_net cfg_n1 ?s0" using cluster_n1_reachable by (simp add: starts_running_def)
  then have 0: "running list_ring port_net cfg_n1 ?s0" unfolding running_def by blast
  have 1: "call_by_call list_ring port_net ?s0 (?s0\<lparr>run_writers := [[?c]]\<rparr>)"
    using writer_begins [of "[?c]" list_ring port_net ?s0] by simp
  have 2: "call_by_call list_ring port_net (?s0\<lparr>run_writers := [[?c]]\<rparr>) before_leave"
    using writer_call [of 0 "?s0\<lparr>run_writers := [[?c]]\<rparr>" ?c "[]" list_ring port_net]
    by (simp add: before_leave_def docs_n1_def)
  from running_step [OF running_step [OF 0 1] 2] show ?thesis .
qed

lemma leave_steps:
  "call_by_call list_ring port_net before_leave at_leave" "call_by_call list_ring port_net at_leave leave_window"
proof -
  show "call_by_call list_ring port_net before_leave at_leave"
    using leave_begins [of before_leave list_ring port_net peer_n2] by (simp add: before_leave_def at_leave_def docs_n1_owner)
  have "run_event at_leave = RemoveClientCall ''n2'' # [RingRemoveCall ''n2'', DeleteSnapshotsCall ''n2'']"
    by (simp add: at_leave_def leave_calls_def Let_def peer_n2_def)
  from event_call [OF this, of list_ring port_net] show "call_by_call list_ring port_net at_leave leave_window"
    by (simp add: leave_window_def at_leave_def)
qed

lemma leave_window_running: "running list_ring port_net cfg_n1 leave_window"
  by (rule running_step [OF running_step [OF before_leave_running leave_steps(1)] leave_steps(2)])

theorem owner_callable_or_leaving_witness:
  "running list_ring port_net cfg_n1 before_leave
    \<and> ring_LocateKey list_ring (Hashring (run_node before_leave)) ''readme'' = Some ''n2''
    \<and> (\<exists>addr. GetClient (RPCRouter (run_node before_leave)) ''n2'' = Inr (CheckServiceClient addr))"
proof -
  have owner: "ring_LocateKey list_ring (Hashring (run_node before_leave)) ''readme'' = Some ''n2''"
    by (simp add: before_leave_def docs_n1_owner)
  from owner_callable_or_leaving [OF list_ring_laws before_leave_running owner] owner before_leave_running show ?thesis
    by (auto simp: before_leave_def cfg_n1_def)
qed

text \<open>C16: the small steps implement the callbacks. Whatever interleaving of calls happens, the node as
  it will be when the callback under way is through changes as by whole operations: not at all, by one
  whole \<open>NotifyJoin\<close> or \<open>NotifyLeave\<close>, or by one write to the snapshot store.\<close>

theorem calls_refine_callbacks:
  assumes "consistent_laws L" "running L N cfg s" "call_by_call L N s s'"
  shows "completed L s' = completed L s
    \<or> (\<exists>m. completed L s' = NotifyJoin L N m (completed L s) \<or> completed L s' = NotifyLeave L m (completed L s))
    \<or> (\<exists>peer ns config ts. completed L s' = (completed L s)\<lparr>PeerStore :=
          snd (SetNamespaceConfigSnapshot peer ns config ts (PeerStore (completed L s)))\<rparr>)"
  using assms(3)
proof (cases rule: call_by_call.cases)
  case (writer_call i c cs)
  have inv: "running_inv L s" using running_inv [OF assms(1,2)] by blast
  then have c: "is_set_call c" using writer_call(2,3) unfolding running_inv_def by (metis list.set_intros(1) nth_mem)
  have "\<forall>d \<in> set (run_event s). \<not> is_set_call d" using inv event_calls_kind unfolding running_inv_def by blast
  then have "completed L s' = call_step L c (completed L s) \<or> completed L s' = completed L s"
    using set_calls_commute [OF c, of "run_event s" L "run_node s"] by (simp add: writer_call(1) completed_def)
  moreover obtain peer ns config ts where "call_step L c (completed L s) = (completed L s)\<lparr>PeerStore :=
      snd (SetNamespaceConfigSnapshot peer ns config ts (PeerStore (completed L s)))\<rparr>"
    using c by (cases c) auto
  ultimately show ?thesis by metis
qed (auto simp: completed_def join_calls_fold leave_calls_fold)

theorem calls_refine_callbacks_witness:
  "call_by_call list_ring port_net at_leave leave_window \<and> running list_ring port_net cfg_n1 at_leave \<and>
   (completed list_ring leave_window = completed list_ring at_leave
    \<or> (\<exists>m. completed list_ring leave_window = NotifyJoin list_ring port_net m (completed list_ring at_leave)
          \<or> completed list_ring leave_window = NotifyLeave list_ring m (completed list_ring at_leave))
    \<or> (\<exists>peer ns config ts. completed list_ring leave_window = (completed list_ring at_leave)\<lparr>PeerStore :=
          snd (SetNamespaceConfigSnapshot peer ns config ts (PeerStore (completed list_ring at_leave)))\<rparr>))"
  using calls_refine_callbacks [OF list_ring_laws running_step [OF before_leave_running leave_steps(1)] leave_steps(2)]
    leave_steps(2) running_step [OF before_leave_running leave_steps(1)] by blast

text \<open>C14: a check that asks the ring first and the router later, with any calls of callbacks and
  other goroutines in between, finds the client of the owner it located, unless a \<open>NotifyLeave\<close> of
  that owner was under way or has begun in between.\<close>

theorem located_owner_is_found:
  assumes "consistent_laws L" "running L N cfg s" "ring_LocateKey L (Hashring (run_node s)) key = Some m" "m \<noteq> ServerID cfg"
    and "RemoveClientCall m \<notin> set (run_event s)" "RingRemoveCall m \<notin> set (run_event s)"
    and "(\<lambda>t u. call_by_call L N t u \<and> RemoveClientCall m \<notin> set (run_event u))\<^sup>*\<^sup>* s s'"
  shows "\<exists>addr. GetClient (RPCRouter (run_node s')) m = Inr (CheckServiceClient addr)"
proof -
  have s: "running_inv L s" "server_id (run_node s) = ServerID cfg" using running_inv [OF assms(1,2)] by simp_all
  have "has_client (run_node s) m"
    using owner_has_client [OF assms(1) s(1) assms(3)] s(2) assms(4,6) by auto
  with s(1) assms(5) have start: "running_inv L s \<and> has_client (run_node s) m \<and> RemoveClientCall m \<notin> set (run_event s)" by simp
  from assms(7) have "running_inv L s' \<and> has_client (run_node s') m \<and> RemoveClientCall m \<notin> set (run_event s')"
    by (induction rule: rtranclp_induct) (use start running_inv_step [OF assms(1)] client_stays in blast)+
  then show ?thesis unfolding has_client_def by blast
qed

theorem located_owner_is_found_witness:
  "\<exists>addr. GetClient (RPCRouter (run_node (before_leave\<lparr>run_writers := [[], []]\<rparr>))) ''n2'' = Inr (CheckServiceClient addr)"
proof -
  have owner: "ring_LocateKey list_ring (Hashring (run_node before_leave)) ''readme'' = Some ''n2''"
    by (simp add: before_leave_def docs_n1_owner)
  have step: "call_by_call list_ring N before_leave (before_leave\<lparr>run_writers := [[], []]\<rparr>)" for N
    using writer_begins [of "[]" list_ring N before_leave] by (simp add: before_leave_def)
  show ?thesis
    by (rule located_owner_is_found [OF list_ring_laws before_leave_running owner])
      (use step in \<open>auto simp: cfg_n1_def before_leave_def\<close>)
qed

text \<open>C15: in the window between the two calls of \<open>NotifyLeave\<close>, every check of an object of the leaving
  member fails with an internal error: the ring still names the member, the router no longer knows it,
  and no other owner is tried.\<close>

theorem leave_window_fails_check:
  assumes "consistent_laws L" "running L N cfg s" "run_event s = [RingRemoveCall m, DeleteSnapshotsCall m]"
    and "ring_LocateKey L (Hashring (run_node s)) object = Some m" "m \<noteq> ServerID cfg"
    and "ChecksumFromContext ctx = None" "checkConfig (run_node s) ctx namespace = Inr (config, ctx1)"
    and "rewriteFromNamespaceConfig relation (Some config) = Some rewrite"
  shows "check_body L (run_node s) store chk remote ctx namespace object relation subject = [Inl internalErrorStatus]"
proof -
  have s: "event_inv L (run_node s) [RingRemoveCall m, DeleteSnapshotsCall m]" "server_id (run_node s) = ServerID cfg"
    using running_inv [OF assms(1,2)] assms(3) by (simp_all add: running_inv_def)
  from s(1) have "GetClient (RPCRouter (run_node s)) m = Inl ErrClientNotFound"
    by (cases rule: event_inv.cases) (use s(2) assms(5) in auto)
  with s(2) assms(4-8) show ?thesis by (simp add: check_body_def)
qed

theorem leave_window_fails_check_witness:
  "\<forall>store chk remote. check_body list_ring (run_node leave_window) store chk remote context_Background
     ''docs'' ''readme'' ''viewer'' ''alice'' = [Inl internalErrorStatus]"
proof (intro allI)
  fix store chk remote
  have own: "ring_LocateKey list_ring (Hashring (run_node leave_window)) ''readme'' = Some ''n2''"
    by (simp add: leave_window_def docs_n1_owner)
  have node: "PeerStore (run_node leave_window) = store_of [(''n1'', ''docs'', cfg_docs, utc 1)]" "server_id (run_node leave_window) = ''n1''"
    by (simp_all add: leave_window_def docs_n1_def cluster_n1_eq node_n1_def cfg_n1_def store_of_def)
  have "NamespaceConfigTimestampFromContext context_Background ''docs'' = None"
    by (simp add: NamespaceConfigTimestampFromContext_def context_Background_def context_Value_def)
  then obtain ctx1 where cfg: "checkConfig (run_node leave_window) context_Background ''docs'' = Inr (cfg_docs, ctx1)"
    by (simp add: checkConfig_def node one_peer)
  have rw: "rewriteFromNamespaceConfig ''viewer'' (Some cfg_docs) = Some this_rewrite"
    by (simp add: rewriteFromNamespaceConfig_def cfg_docs_def GetRelations_def)
  show "check_body list_ring (run_node leave_window) store chk remote context_Background
     ''docs'' ''readme'' ''viewer'' ''alice'' = [Inl internalErrorStatus]"
    by (rule leave_window_fails_check [OF list_ring_laws leave_window_running _ own _ _ cfg rw])
      (simp_all add: leave_window_def cfg_n1_def context_Background_def ChecksumFromContext_def context_Value_def)
qed

end
