(* ===== verification/Watch_Lifecycle.thy ===== *)
theory Watch_Lifecycle
  imports Membership
begin

section \<open>The configuration watch and \<open>Close\<close>\<close>

text \<open>
  \<open>NewAccessController\<close> starts \<open>watchNamespaceConfigs\<close> in a goroutine; that goroutine starts another one,
  which repeats the watch round for ever, and then waits on the unbuffered channel \<open>shutdown\<close>. \<open>Close\<close>
  sends on the channel, so it returns exactly when the first goroutine is there to receive. The model
  has the two goroutines, the rounds of the inner one, what others do to the database, and \<open>Close\<close>.
\<close>

subsection \<open>Definitions\<close>

datatype waiter = NotStarted | WaitsForShutdown | Returned

record 'r watcher =
  wt_node :: "'r AccessController"
  wt_world :: world
  wt_waiter :: waiter
  wt_loop :: bool

inductive watch_step :: "'r watcher \<Rightarrow> 'r watcher \<Rightarrow> bool" where
  watch_starts: "wt_waiter s = NotStarted \<Longrightarrow>
    watch_step s (s\<lparr>wt_loop := True, wt_waiter := WaitsForShutdown\<rparr>)"
| watch_round: "wt_loop s \<Longrightarrow> watchRound E N (wt_node s) (wt_world s) = (Inr a, w) \<Longrightarrow>
    watch_step s (s\<lparr>wt_node := a, wt_world := w\<rparr>)"
| others_write: "watch_step s (s\<lparr>wt_world := w\<rparr>)"
| node_closes: "Close N (wt_waiter s = WaitsForShutdown) = Some (err, False) \<Longrightarrow>
    watch_step s (s\<lparr>wt_waiter := Returned\<rparr>)"

definition watch_init :: "'r watcher \<Rightarrow> bool" where
  "watch_init s \<longleftrightarrow> wt_waiter s = NotStarted \<and> \<not> wt_loop s"

definition watch_reachable :: "'r watcher \<Rightarrow> bool" where
  "watch_reachable s \<longleftrightarrow> (\<exists>s0. watch_init s0 \<and> watch_step\<^sup>*\<^sup>* s0 s)"

subsection \<open>The inner goroutine never ends\<close>

lemma watch_loop_inv:
  assumes "watch_reachable s"
  shows "wt_loop s \<longleftrightarrow> wt_waiter s \<noteq> NotStarted"
proof -
  obtain s0 where s0: "watch_init s0" "watch_step\<^sup>*\<^sup>* s0 s" using assms unfolding watch_reachable_def by blast
  from s0(2) show ?thesis
  proof (induction rule: rtranclp_induct)
    case base
    with s0(1) show ?case by (simp add: watch_init_def)
  next
    case (step s t)
    from step(2,3) show ?case by (cases rule: watch_step.cases) (auto simp: Close_def split: if_splits)
  qed
qed

subsection \<open>Properties\<close>

text \<open>C24: \<open>Close\<close> releases only the goroutine that waits. After it, the goroutine that watches the
  changelog still runs: its next round loads what was written since, and a second \<open>Close\<close> blocks.\<close>

theorem watch_outlives_close:
  assumes "watch_reachable s" "wt_waiter s = Returned"
    and "faultless E" "\<forall>n. cut E n = None" "dated_changes (w_db (wt_world s))"
    and "\<forall>r \<in> newest_changes 3 (w_db (wt_world s)). readable_change E r" "r \<in> newest_changes 3 (w_db (wt_world s))"
  shows "Close N (wt_waiter s = WaitsForShutdown) = None
    \<and> (\<exists>s'. watch_step s s' \<and> wt_waiter s' = Returned \<and>
         snapshot_at (PeerStore (wt_node s')) (server_id (wt_node s)) (nscl_namespace r) (utc (nscl_timestamp r)) = Some (change_config E r))"
proof -
  obtain rs w' where rs: "watchRound E N (wt_node s) (wt_world s) =
      (Inr ((wt_node s)\<lparr>PeerStore := fold (load_change E (server_id (wt_node s))) rs (PeerStore (wt_node s))\<rparr>), w')"
    "set rs = newest_changes 3 (w_db (wt_world s))" "inj_on change_key (set rs)"
    by (rule watchRound_load [OF assms(3-6)])
  have "wt_loop s" using watch_loop_inv [OF assms(1)] assms(2) by simp
  note step = watch_round [OF this rs(1)]
  have r: "r \<in> set rs" using assms(7) rs(2) by simp
  show ?thesis
  proof (intro conjI exI)
    show "Close N (wt_waiter s = WaitsForShutdown) = None" by (simp add: Close_def assms(2))
    show "watch_step s (s\<lparr>wt_node := (wt_node s)\<lparr>PeerStore := fold (load_change E (server_id (wt_node s))) rs (PeerStore (wt_node s))\<rparr>,
      wt_world := w'\<rparr>)" by (rule step)
  qed (simp_all add: assms(2) loaded_change [OF rs(3) r])
qed

definition docs_watcher :: "string list watcher" where
  "docs_watcher = \<lparr>wt_node = node_n1 NewInMemoryPeerNamespaceConfigStore,
     wt_world = session (empty_db\<lparr>tbl_ns_changelog := [docs_change]\<rparr>), wt_waiter = NotStarted, wt_loop = False\<rparr>"

theorem watch_outlives_close_witness:
  "\<exists>(s :: string list watcher) s'. wt_waiter s = Returned \<and> watch_step s s' \<and>
     snapshot_at (PeerStore (wt_node s')) (server_id (wt_node s)) ''docs'' (utc 5) =
       Some (change_config (plain_env [(cfg_docs, ''docs-json'')]) docs_change)"
proof -
  let ?E = "plain_env [(cfg_docs, ''docs-json'')]"
  let ?s1 = "docs_watcher\<lparr>wt_loop := True, wt_waiter := WaitsForShutdown\<rparr>"
  let ?s2 = "?s1\<lparr>wt_waiter := Returned\<rparr>"
  have 1: "watch_step docs_watcher ?s1" by (rule watch_starts) (simp add: docs_watcher_def)
  have 2: "watch_step ?s1 ?s2" by (rule node_closes [of "table_net []"]) (simp add: Close_def)
  have init: "watch_init docs_watcher" by (simp add: watch_init_def docs_watcher_def)
  with 1 2 have reach: "watch_reachable ?s2"
    unfolding watch_reachable_def by (meson rtranclp.rtrancl_into_rtrancl rtranclp.rtrancl_refl)
  have log: "tbl_ns_changelog (w_db (wt_world ?s2)) = [docs_change]" by (simp add: docs_watcher_def session_def empty_db_def)
  have only: "newest_changes 3 (w_db (wt_world ?s2)) = {docs_change}" by (rule only_change [OF log])
  have E: "faultless ?E" "\<forall>n. cut ?E n = None" by (simp_all add: faultless_def plain_env_def)
  have dated: "dated_changes (w_db (wt_world ?s2))" unfolding dated_changes_def log by simp
  have readable: "\<forall>r \<in> newest_changes 3 (w_db (wt_world ?s2)). readable_change ?E r"
    unfolding only by (simp add: readable_change_def docs_change_def plain_env_def)
  have closed: "wt_waiter ?s2 = Returned" by simp
  have row: "docs_change \<in> newest_changes 3 (w_db (wt_world ?s2))" unfolding only by simp
  have row': "nscl_namespace docs_change = ''docs''" "nscl_timestamp docs_change = 5" by (simp_all add: docs_change_def)
  from watch_outlives_close [OF reach closed E dated readable row, of "table_net []", unfolded row']
  obtain s' where "watch_step ?s2 s'" "snapshot_at (PeerStore (wt_node s')) (server_id (wt_node ?s2)) ''docs'' (utc 5) =
      Some (change_config ?E docs_change)" by blast
  with closed show ?thesis by (intro exI conjI)
qed

end
