(* ===== verification/Spec2Isabelle.thy ===== *)
theory Spec2Isabelle
  imports Health_Checker Rewrite_Race Expand_Properties Server_Main Tuple_Listing Cluster_System
    Membership_Steps Watch_Lifecycle
begin

text \<open>
  This development models and verifies the access-controller, a Zanzibar-style authorization server:
  relation tuples in an SQL database, namespace configurations with rewrite rules, and a cluster of
  nodes that answers \<open>Check\<close>, \<open>Expand\<close>, write, read and configuration requests.

  \<^bold>\<open>The parts and how they interact\<close>

  A node (\<open>NewAccessController\<close> in \<open>internal/access-controller.go\<close>, started by
  \<open>cmd/access-controller/main.go\<close>) keeps an RPC client per peer, a hash ring of the members, and the
  configuration snapshots of every peer. The memberlist callbacks and the configuration watch change
  them. A request chooses a snapshot per namespace; a check is forwarded to the ring's owner of the
  object, with retries and a local fallback, and evaluates the rewrite of the relation concurrently
  over the tuples; an expansion reads the same tuples on one node. Writes validate against the
  snapshots and run as one database transaction; configuration writes run through the namespace
  manager, whose changelog the watch of every node reads.

  \<^bold>\<open>Theories and the code they model\<close>

  \<^item> \<open>AC_Prelude\<close>: errors and results, Go maps as association lists, lists of possible outcomes;
    \<open>Go_Lib\<close>: strings, CRC-32 on 32-bit words, times and contexts as the code uses them;
    \<open>Acl_Proto\<close>: the protobuf messages as records and datatypes.
  \<^item> \<open>Relation_Tuple\<close> (\<open>internal/relation-tuple.go\<close>), \<open>Subject_Tree\<close> (\<open>internal/tree.go\<close>),
    \<open>Client_Router\<close> (\<open>internal/client-router.go\<close>), \<open>Hash_Ring\<close> (\<open>internal/hashring/hashring.go\<close>),
    \<open>Health_Checker\<close> (\<open>internal/healthchecker/healthchecker.go\<close>), \<open>Controller_State\<close>
    (\<open>internal/node.go\<close> and the struct \<open>AccessController\<close>): one definition per type and method, with the
    names of the source.
  \<^item> \<open>Namespace_Config\<close> (\<open>internal/namespace-manager/namespacemgr.go\<close>): the in-memory store of peers'
    snapshots; \<open>Snapshot_Choice\<close>: \<open>chooseNamespaceConfigSnapshot\<close>; \<open>Rewrite_Rules\<close>:
    \<open>rewriteFromNamespaceConfig\<close> and \<open>validateRewriteRelations\<close>.
  \<^item> \<open>Check_Engine\<close>: \<open>checkLeaf\<close>, \<open>checkRewrite\<close>, \<open>check\<close> and \<open>Check\<close>, each as the list of its possible
    outcomes, and the cluster whose nodes call each other; \<open>Rewrite_Race\<close>: the goroutines and channels
    of \<open>checkRewrite\<close> as a step relation; \<open>Check_Spec\<close>, \<open>Cluster_Check\<close>, \<open>Check_Properties\<close>: the
    relation that tuples and rules define, and that checks decide it.
  \<^item> \<open>Expand_Engine\<close>: \<open>expandWithRewrite\<close>, \<open>expand\<close>, \<open>Expand\<close>; \<open>Expand_Types\<close>, \<open>Expand_Spec\<close>,
    \<open>Expand_Properties\<close>: the shape of the trees, the set a tree denotes, agreement with \<open>Check\<close>.
  \<^item> \<open>Sql_Database\<close>: tables, sessions and transactions with faults and a clock as parameters;
    \<open>Sql_Store\<close> (\<open>internal/datastores/sql-store.go\<close>) and \<open>Namespace_Manager\<close>
    (\<open>internal/namespace-manager/postgres/manager.go\<close>): every statement as a function on the tables.
  \<^item> \<open>Handlers\<close>: \<open>WriteRelationTuplesTxn\<close>, \<open>ListRelationTuples\<close>, \<open>WriteConfig\<close>, \<open>ReadConfig\<close>;
    \<open>Tuple_Listing\<close>: what a list contains after writes.
  \<^item> \<open>Membership\<close>: the memberlist delegates, the rounds of \<open>watchNamespaceConfigs\<close>,
    \<open>NewAccessController\<close> with its options, and \<open>Close\<close>; \<open>Membership_Steps\<close>: the callbacks as sequences of
    single calls that interleave with other goroutines; \<open>Watch_Lifecycle\<close>: the goroutines of
    \<open>watchNamespaceConfigs\<close> and \<open>Close\<close>; \<open>Server_Main\<close>: the steps of \<open>main\<close> in order.
  \<^item> \<open>Config_Provenance\<close>: where the snapshots in stores and messages come from; \<open>Cluster_System\<close>: a cluster
    of nodes over one database as a transition system of the operations above, with messages that
    arrive late, repeatedly or never.
  \<^item> this theory: writes and the answers of \<open>Check\<close> after them.

  \<^bold>\<open>Interfaces\<close>

  Locales state what a client relies on, and are interpreted on the model's own definitions where
  they are provided: \<open>subject_impl\<close> (both subject kinds), \<open>client_router\<close> (the map router), \<open>hash_ring\<close>
  (the ring over any lawful hashing package), \<open>peer_config_store\<close> (the in-memory store),
  \<open>tuple_source\<close> and its extension \<open>tuple_reader\<close> (what a check needs of the tuple store) and
  \<open>tuple_lister\<close> (what an expansion needs), the last three on the SQL store.

  \<^bold>\<open>What is shown\<close>

  \<^item> Checks: every answer, on any node and along any path of forwarding, retry, fallback and
    interleaving, is the one that tuples and rules define; lost rows can only deny; acyclic goals are
    answered; a cycle is never answered. The step relation of the goroutines returns exactly the
    outcomes that the evaluation computes, always ends, and leaves a goroutine behind after a
    decisive answer.
  \<^item> Expansions: trees are well typed, denote the relation and agree with \<open>Check\<close> on the rules the
    code expands faithfully; they end on acyclic goals; the depth has no influence.
  \<^item> Writes: transactions are atomic and do what they say; accepted tuples are defined; an inserted
    tuple is not denied afterwards, and a list contains exactly the stored tuples; inserts revoke nothing and deletes grant nothing;
    a configuration never loses a referenced relation, and is read back after it was written.
  \<^item> Clusters: in every reachable state the configurations that nodes evaluate were validated and are in
    the changelog; two nodes that watch and exchange their states agree on the newest configuration;
    the background work of a node never panics.
  \<^item> Nodes: in every reachable state the owner of a key is the node itself or a peer with a client, also
    between the calls of a callback unless that peer is leaving; the single calls refine the whole
    callbacks; exchanged snapshots arrive; a watch round loads the newest changes; the nested maps of the
    snapshot store refine a flat table; the chosen snapshot is the newest common one for up to two
    peers (and need not be common for three); the server serves only after its set-up succeeded.
  \<^item> Data: string and protobuf round trips, the checksum of a ring as a function of its members.
  \<^item> Where the code does not do what it means to, the theorem states what it does: reverse-lookup
    rows are left behind, validation stops at a nested rewrite, a failed commit is reported as success,
    a late remote state blocks namespaces, cycles run forever, a check fails while its owner leaves, an
    unreadable subject breaks lists, the watch outlives \<open>Close\<close>.

  \<^bold>\<open>Bounds and fuel\<close>

  \<open>check\<close> and \<open>expand\<close> may run forever, so they take fuel, one unit per nested call of the same
  function (for \<open>check\<close>, on any node); without fuel a check has no outcome and an expansion returns
  \<open>None\<close>. For goals with a rank that every nested call lowers, fuel \<open>2 * rank + 2\<close> is enough for a check
  (each level may be forwarded once) and \<open>rank + 1\<close> for an expansion. The statements about answers
  hold for every fuel. All other loops are structural or have a measure: the rows of a result, the
  retries that the backoff policy allows, the five retries of a forwarded check. Checksums are 32-bit
  and the depth of an expansion is 64-bit, with wrap-around.

  \<^bold>\<open>Parameters\<close>

  Code outside the repository is an argument: the hashing package (\<open>consistent_lib\<close> with the laws
  \<open>consistent_laws\<close>), faults, clock, truncated results and the JSON form of configurations
  (\<open>sql_env\<close>), memberlist, gRPC dialling and the JSON codec of node metadata (\<open>net_env\<close>), transport
  errors and the context a request arrives with (\<open>cluster\<close>), and the libraries that \<open>main\<close> calls
  (\<open>boot_env\<close>). What the exchange of configurations relies on is stated of the codecs (\<open>pj_keeps\<close>,
  \<open>jsonb_keeps\<close>, \<open>jsonb_reads\<close>, \<open>json_keeps\<close>): what is read back is what was written. Instances with concrete functions show that the hypotheses on them can hold.

  \<^bold>\<open>Not modelled\<close>

  \<^item> Generated protobuf code (\<open>genprotos\<close>) and the imports of \<open>tools.go\<close>; logging; signal handling and
    TCP sockets beyond the order of \<open>main\<close>'s effects.
  \<^item> Concurrency beyond three places: inside \<open>checkRewrite\<close> (\<open>Rewrite_Race\<close>), between the calls of
    callbacks (\<open>Membership_Steps\<close>) and between the nodes of a cluster (\<open>Cluster_System\<close>). Elsewhere every
    method under a mutex is one step, and a check or an expansion sees one state of the tables and of
    the node. The memory model of Go (data races on maps that are handed out) is not modelled.
  \<^item> The interface declarations \<open>ClientRouter\<close>, \<open>Hashring\<close> and \<open>PeerNamespaceConfigStore\<close> as types: they
    are locales here.
\<close>

section \<open>Writes and the answers after them\<close>

text \<open>
  The write handler, the tuple store and the cluster-wide check, composed: a write changes the
  answers of \<open>Check\<close> in the direction it says. A cluster evaluates over tables \<open>d\<close> with rules \<open>R\<close> when
  every node reads \<open>d\<close> (in one of the environments \<open>Es\<close>), forwards requests without context values,
  and has configurations with the rules \<open>R\<close>.
\<close>

definition evaluates_over ::
  "'r cluster \<Rightarrow> sql_env list \<Rightarrow> (string \<Rightarrow> string \<Rightarrow> Rewrite option) \<Rightarrow> db \<Rightarrow> bool" where
  "evaluates_over C Es R d \<longleftrightarrow>
     cl_store C = sql_tuple_store Es d \<and> wire_drops_values C \<and> same_rules C (db_acl R d)"

lemma Check_never_denies:
  assumes "evaluates_over C (whole_results Es) R d" "a \<in> cl_nodes C" "ctx_values ctx = []"
    and "SubjectFromProto (chk_Subject req) = Some s"
    and "related (db_acl R d) (Subject_String s) (chk_Namespace req) (chk_Object req) (chk_Relation req)"
  shows "Inr False \<notin> set (Check (check C k a) ctx req)"
proof
  assume "Inr False \<in> set (Check (check C k a) ctx req)"
  then show False
  proof (rule Check_Inr)
    fix s'
    assume s': "SubjectFromProto (chk_Subject req) = Some s'"
      "Inr False \<in> set (check C k a ctx (chk_Namespace req) (chk_Object req) (chk_Relation req) (Subject_String s'))"
    have "cl_store C = sql_tuple_store (whole_results Es) d" "wire_drops_values C" "same_rules C (db_acl R d)"
      using assms(1) by (simp_all add: evaluates_over_def)
    from sql_reader.check_decides [OF this assms(2) _ s'(2)] assms(3-5) s'(1) show False by auto
  qed
qed

lemma Check_permits:
  assumes "evaluates_over C Es R d" "a \<in> cl_nodes C" "ctx_values ctx = []"
    and "Inr True \<in> set (Check (check C k a) ctx req)"
  obtains s where "SubjectFromProto (chk_Subject req) = Some s"
    "related (db_acl R d) (Subject_String s) (chk_Namespace req) (chk_Object req) (chk_Relation req)"
  using assms(4)
proof (rule Check_Inr)
  fix s
  assume s: "SubjectFromProto (chk_Subject req) = Some s"
    "Inr True \<in> set (check C k a ctx (chk_Namespace req) (chk_Object req) (chk_Relation req) (Subject_String s))"
  have "cl_store C = sql_tuple_store Es d" "wire_drops_values C" "same_rules C (db_acl R d)"
    using assms(1) by (simp_all add: evaluates_over_def)
  from sql_source.check_grants [OF this assms(2) _ s(2)] assms(3) s(1) that show ?thesis by auto
qed

text \<open>More tuples never turn a permission into a denial.\<close>

lemma permission_survives:
  assumes "tuples_in d \<subseteq> tuples_in d'" "evaluates_over C Es R d" "evaluates_over C' (whole_results Es') R d'"
    and "a \<in> cl_nodes C" "a' \<in> cl_nodes C'" "ctx_values ctx = []" "ctx_values ctx' = []"
    and "Inr True \<in> set (Check (check C k a) ctx req)"
  shows "Inr False \<notin> set (Check (check C' k' a') ctx' req)"
proof -
  obtain s where "SubjectFromProto (chk_Subject req) = Some s"
    "related (db_acl R d) (Subject_String s) (chk_Namespace req) (chk_Object req) (chk_Relation req)"
    by (rule Check_permits [OF assms(2,4,6,8)])
  from this(1) related_tuples_mono [OF assms(1) this(2)] show ?thesis
    by (rule Check_never_denies [OF assms(3,5,7)])
qed

subsection \<open>Properties\<close>

text \<open>C5: a write of tuples is seen by checks. When \<open>WriteRelationTuplesTxn\<close> succeeded and a delta inserted
  a tuple that none of its deletes names, and the relation's rule is a union with \<open>_this\<close>, then no node
  of a cluster that evaluates over the tables after the write can deny the tuple's subject.\<close>

theorem written_tuple_is_never_denied:
  assumes "WriteRelationTuplesTxn E a deltas w = (Inr (), w')"
    and "t \<in> set (tuples_with ACTION_INSERT deltas)" "key_of t \<notin> key_of ` set (tuples_with ACTION_DELETE deltas)"
    and "R (irt_Namespace t) (irt_Relation t) = Some (Rewrite_Union cs)" "Child_This \<in> set cs"
    and "evaluates_over C (whole_results Es) R (w_db w')" "b \<in> cl_nodes C" "ctx_values ctx = []"
    and "chk_Namespace req = irt_Namespace t" "chk_Object req = irt_Object t" "chk_Relation req = irt_Relation t"
    and "SubjectFromProto (chk_Subject req) = Some (irt_Subject t)"
  shows "Inr False \<notin> set (Check (check C k b) ctx req)"
proof (rule Check_never_denies [OF assms(6-8,12)])
  let ?A = "db_acl R (w_db w')"
  have "key_of t \<in> tuples_in (w_db w')" using write_tuples_Inr(2) [OF assms(1)] assms(2,3) by auto
  then have "Subject_String (irt_Subject t) \<in> acl_direct ?A (irt_Namespace t) (irt_Object t) (irt_Relation t)"
    by (simp add: tuples_in_def key_of_def row_of_def db_acl_def)
  then have "sat_rewrite ?A (Subject_String (irt_Subject t)) (Rewrite_Union cs) (irt_Namespace t) (irt_Object t) (irt_Relation t)"
    by (intro by_union [OF assms(5)] this_direct)
  from by_rule [OF _ this] assms(4)
  show "related ?A (Subject_String (irt_Subject t)) (chk_Namespace req) (chk_Object req) (chk_Relation req)"
    unfolding assms(9-11) by (simp add: db_acl_def)
qed

text \<open>C6: inserting tuples revokes nothing. If a check over the tables before a successful write without
  deletes can be answered with \<open>allowed\<close>, then over the tables after it no node can answer \<open>not allowed\<close>.\<close>

theorem inserts_revoke_nothing:
  assumes "WriteRelationTuplesTxn E a deltas w = (Inr (), w')" "tuples_with ACTION_DELETE deltas = []"
    and "evaluates_over C Es R (w_db w)" "evaluates_over C' (whole_results Es') R (w_db w')"
    and "b \<in> cl_nodes C" "b' \<in> cl_nodes C'" "ctx_values ctx = []" "ctx_values ctx' = []"
    and "Inr True \<in> set (Check (check C k b) ctx req)"
  shows "Inr False \<notin> set (Check (check C' k' b') ctx' req)"
  by (rule permission_survives [OF _ assms(3-9)]) (use write_tuples_Inr(2) [OF assms(1)] assms(2) in auto)

text \<open>C7: deleting tuples grants nothing. If a check over the tables after a successful write without
  inserts can be answered with \<open>allowed\<close>, then over the tables before it no node could answer \<open>not
  allowed\<close>.\<close>

theorem deletes_grant_nothing:
  assumes "WriteRelationTuplesTxn E a deltas w = (Inr (), w')" "tuples_with ACTION_INSERT deltas = []"
    and "evaluates_over C' Es' R (w_db w')" "evaluates_over C (whole_results Es) R (w_db w)"
    and "b' \<in> cl_nodes C'" "b \<in> cl_nodes C" "ctx_values ctx' = []" "ctx_values ctx = []"
    and "Inr True \<in> set (Check (check C' k' b') ctx' req)"
  shows "Inr False \<notin> set (Check (check C k b) ctx req)"
  by (rule permission_survives [OF _ assms(3-9)]) (use write_tuples_Inr(2) [OF assms(1)] assms(2) in auto)

subsection \<open>Instances\<close>

text \<open>The two-node cluster of \<open>Check_Properties\<close> over other tables.\<close>

definition team_at :: "sql_env list \<Rightarrow> db \<Rightarrow> string list cluster" where
  "team_at Es d = (team Es)\<lparr>cl_store := sql_tuple_store Es d\<rparr>"

lemma team_at_nodes: "cl_nodes (team_at Es d) = {team_node ''n1'', team_node ''n2''}"
  using team_nodes [of Es] by (simp add: team_at_def cl_nodes_def)

lemma team_at_evaluates: "evaluates_over (team_at Es d) Es team_rules d"
proof -
  have "cl_nodes (team_at Es d) = cl_nodes (team Es)" by (simp add: team_at_nodes team_nodes)
  then show ?thesis
    using team_wire [of Es] team_same_rules [of Es d]
    by (simp add: evaluates_over_def same_rules_def wire_drops_values_def team_at_def)
qed

lemma team_at_team: "team_at Es team_db = team Es"
  by (simp add: team_at_def team_def)

text \<open>Only the tuples matter to a check.\<close>

lemma sql_tuple_store_cong: "tbl_tuples d = tbl_tuples d' \<Longrightarrow> sql_tuple_store Es d = sql_tuple_store Es d'"
  by (auto simp: sql_tuple_store_def RowCount_def SubjectSets_def scan_def db_Query_def select_rows_def session_def fun_eq_iff
      split: option.splits sum.splits)

text \<open>Alice sees the page through her group before and after Bob is given access.\<close>

theorem written_tuple_is_never_denied_witness:
  "\<exists>w'. WriteRelationTuplesTxn (plain_env []) (team_node ''n1'') [share_delta] (session team_db) = (Inr (), w')
    \<and> Inr False \<notin> set (Check (check (team_at (whole_results [plain_env []]) (w_db w')) 4 (team_node ''n2''))
        context_Background (ask_alice\<lparr>chk_Subject := Some \<lparr>pbs_Ref = Some (Subject_Id ''bob'')\<rparr>\<rparr>))"
proof -
  let ?t = "\<lparr>irt_Namespace = ''pages'', irt_Object = ''readme'', irt_Relation = ''viewer'', irt_Subject = SubjID \<lparr>ID = ''bob''\<rparr>\<rparr>"
  obtain w' where w': "WriteRelationTuplesTxn (plain_env []) (team_node ''n1'') [share_delta] (session team_db) = (Inr (), w')"
    by (rule share_write)
  have "Inr False \<notin> set (Check (check (team_at (whole_results [plain_env []]) (w_db w')) 4 (team_node ''n2''))
        context_Background (ask_alice\<lparr>chk_Subject := Some \<lparr>pbs_Ref = Some (Subject_Id ''bob'')\<rparr>\<rparr>))"
    by (rule written_tuple_is_never_denied [where t = ?t and cs = "[Child_This, Child_ComputedSubjectset ''editor'']", OF w' _ _ _ _ team_at_evaluates])
      (simp_all add: share_tuples team_rules_eval team_at_nodes context_Background_def ask_alice_def
        SubjectFromProto_def GetRef_def del: tuples_with_simps)
  with w' show ?thesis by blast
qed

theorem inserts_revoke_nothing_witness:
  "\<exists>w'. WriteRelationTuplesTxn (plain_env []) (team_node ''n1'') [share_delta] (session team_db) = (Inr (), w')
    \<and> Inr True \<in> set (Check (check (team (whole_results [plain_env []])) 4 (team_node ''n1'')) context_Background ask_alice)
    \<and> Inr False \<notin> set (Check (check (team_at (whole_results [plain_env []]) (w_db w')) 4 (team_node ''n2''))
        context_Background ask_alice)"
proof -
  obtain w' where w': "WriteRelationTuplesTxn (plain_env []) (team_node ''n1'') [share_delta] (session team_db) = (Inr (), w')"
    by (rule share_write)
  have C: "evaluates_over (team (whole_results [plain_env []])) (whole_results [plain_env []]) team_rules (w_db (session team_db))"
    using team_at_evaluates [of "whole_results [plain_env []]" team_db] by (simp add: team_at_team session_def)
  have "Inr False \<notin> set (Check (check (team_at (whole_results [plain_env []]) (w_db w')) 4 (team_node ''n2''))
        context_Background ask_alice)"
    by (rule inserts_revoke_nothing [OF w' share_tuples(2) C team_at_evaluates _ _ _ _ team_Check_alice])
      (simp_all add: team_nodes team_at_nodes context_Background_def)
  with w' team_Check_alice show ?thesis by blast
qed

text \<open>And she is not given it by taking it from Bob.\<close>

definition unshare_delta :: RelationTupleDelta where
  "unshare_delta = share_delta\<lparr>delta_Action := ACTION_DELETE\<rparr>"

definition bob_db :: db where
  "bob_db = team_db\<lparr>tbl_tuples := (tbl_tuples team_db)(''pages'' \<mapsto>
     rows_of team_db ''pages'' @ [\<lparr>row_object = ''readme'', row_relation = ''viewer'', row_subject = ''bob''\<rparr>])\<rparr>"

lemma unshare_write:
  obtains w' where "WriteRelationTuplesTxn (plain_env []) (team_node ''n1'') [unshare_delta] (session bob_db) = (Inr (), w')"
    "tbl_tuples (w_db w') = tbl_tuples team_db"
proof -
  let ?t = "\<lparr>irt_Namespace = ''pages'', irt_Object = ''readme'', irt_Relation = ''viewer'', irt_Subject = SubjID \<lparr>ID = ''bob''\<rparr>\<rparr>"
  have "\<exists>w'. TransactRelationTuples (plain_env []) [] [?t] (session bob_db) = (Inr (), w')"
    by (rule Transact_succeeds) (simp_all add: has_table_def bob_db_def session_def)
  then obtain w' where w': "TransactRelationTuples (plain_env []) [] [?t] (session bob_db) = (Inr (), w')" by blast
  have "collectDeltas team_store 0 [unshare_delta] [] [] = Inr ([], [?t])"
    by (simp add: unshare_delta_def share_with_def team_choose SubjectFromProto_def GetRef_def Let_def)
  with w' have "WriteRelationTuplesTxn (plain_env []) (team_node ''n1'') [unshare_delta] (session bob_db) = (Inr (), w')"
    by (simp add: WriteRelationTuplesTxn_def team_node_def)
  moreover have "tbl_tuples (w_db w') = tbl_tuples team_db"
    using Transact_Inr [OF w']
    by (simp add: apply_delete_def session_def bob_db_def rows_of_def row_of_def Subject_String_def SubjectID_String_def
        team_db_def fun_eq_iff)
  ultimately show ?thesis using that by blast
qed

theorem deletes_grant_nothing_witness:
  "\<exists>w'. WriteRelationTuplesTxn (plain_env []) (team_node ''n1'') [unshare_delta] (session bob_db) = (Inr (), w')
    \<and> Inr True \<in> set (Check (check (team_at (whole_results [plain_env []]) (w_db w')) 4 (team_node ''n1'')) context_Background ask_alice)
    \<and> Inr False \<notin> set (Check (check (team_at (whole_results [plain_env []]) bob_db) 4 (team_node ''n2''))
        context_Background ask_alice)"
proof -
  let ?Es = "whole_results [plain_env []]"
  obtain w' where w': "WriteRelationTuplesTxn (plain_env []) (team_node ''n1'') [unshare_delta] (session bob_db) = (Inr (), w')"
    and tuples: "tbl_tuples (w_db w') = tbl_tuples team_db"
    by (rule unshare_write)
  have "team_at ?Es (w_db w') = team ?Es"
    using sql_tuple_store_cong [OF tuples, of ?Es] team_at_team [of ?Es] by (simp add: team_at_def)
  then have yes: "Inr True \<in> set (Check (check (team_at ?Es (w_db w')) 4 (team_node ''n1'')) context_Background ask_alice)"
    using team_Check_alice by simp
  have none: "tuples_with ACTION_INSERT [unshare_delta] = []" by (simp add: unshare_delta_def)
  have C: "evaluates_over (team_at ?Es bob_db) ?Es team_rules (w_db (session bob_db))"
    using team_at_evaluates [of ?Es bob_db] by (simp add: session_def)
  have "Inr False \<notin> set (Check (check (team_at ?Es bob_db) 4 (team_node ''n2'')) context_Background ask_alice)"
    by (rule deletes_grant_nothing [OF w' none team_at_evaluates C _ _ _ _ yes])
      (simp_all add: team_at_nodes context_Background_def)
  with w' yes show ?thesis by blast
qed

end
